(* ===== verification/Prelude.thy ===== *)
theory Prelude
  imports Main "HOL-Library.Word"
begin

text \<open>
  Shared vocabulary of the development: the machine integers of the C code as words, the
  theorem collections the component theories feed, and the generic facts on words and lists
  that several components use.
\<close>

unbundle bit_operations_syntax

section \<open>Types\<close>

type_synonym u8 = "8 word"
type_synonym u16 = "16 word"
type_synonym u32 = "32 word"
type_synonym u64 = "64 word"

text \<open>A memory area is the list of its bytes.\<close>

type_synonym bytes = "u8 list"

section \<open>Collections\<close>

named_theorems len_simps \<open>lengths of what the buffer operations return\<close>
named_theorems inv_intros \<open>preservation of the component invariants\<close>
named_theorems frame_simps \<open>state components an operation leaves alone\<close>

section \<open>Words\<close>

lemma byte_mask [simp]:
  "(ucast (w AND (0xff :: 'a::len word)) :: u8) = ucast w" if "8 \<le> LENGTH('a)"
proof -
  have m: "(0xff :: 'a word) = mask 8"
    by (simp add: mask_eq_exp_minus_1)
  show ?thesis
    unfolding m by (rule bit_word_eqI) (use that in \<open>auto simp: bit_simps\<close>)
qed

lemma u8_less_256: "unat (b :: u8) < 256"
  using unsigned_less [of b] by simp

section \<open>Conversions of C integers kept as \<open>int\<close>\<close>

text \<open>Storing a \<^verbatim>\<open>long\<close> in an \<^verbatim>\<open>int\<close> keeps its low 32 bits.\<close>

definition int_of_long :: "int \<Rightarrow> int" where
  "int_of_long n = (n + 2 ^ 31) mod 2 ^ 32 - 2 ^ 31"

lemma int_of_long_id: "- (2 ^ 31) \<le> n \<Longrightarrow> n < 2 ^ 31 \<Longrightarrow> int_of_long n = n"
  by (simp add: int_of_long_def)

text \<open>Converting an \<^verbatim>\<open>int\<close> to \<^verbatim>\<open>unsigned long\<close> adds 2 to the 64 to a negative value.\<close>

definition ulong_of_int :: "int \<Rightarrow> int" where
  "ulong_of_int n = n mod 2 ^ 64"

lemma ulong_of_int_id: "0 \<le> n \<Longrightarrow> n < 2 ^ 64 \<Longrightarrow> ulong_of_int n = n"
  by (simp add: ulong_of_int_def)

section \<open>Lists\<close>

lemma nth_update_pair [simp]:
  "i < length xs \<Longrightarrow> j < length xs \<Longrightarrow> i \<noteq> j \<Longrightarrow> xs[i := a, j := b] ! i = a"
  by simp

lemma take_update_drop:
  "i < length xs \<Longrightarrow> take i xs @ [x] @ drop (Suc i) xs = xs[i := x]"
  by (simp add: upd_conv_take_nth_drop)

lemma distinct_map_filter_index:
  "distinct xs \<Longrightarrow> i < length xs \<Longrightarrow> j < length xs \<Longrightarrow> xs ! i = xs ! j \<Longrightarrow> i = j"
  by (simp add: nth_eq_iff_index_eq)

section \<open>Outcomes\<close>

text \<open>
  What a call comes to: a result, undefined behaviour of C (a buffer overrun, a null or stale pointer), or waiting for a
  lock the thread holds itself.
\<close>

datatype 'a outcome = Returns 'a | Undefined | Deadlocks

fun and_then :: "'a outcome \<Rightarrow> ('a \<Rightarrow> 'b outcome) \<Rightarrow> 'b outcome" where
  "and_then (Returns x) f = f x"
| "and_then Undefined f = Undefined"
| "and_then Deadlocks f = Deadlocks"

end
