(* ===== verification/Bytes.thy ===== *)
theory Bytes
  imports Prelude "HOL-Library.While_Combinator"
begin

text \<open>
  The byte-level helpers of \<^verbatim>\<open>util.h\<close> and the growing string buffer of \<^verbatim>\<open>util.c\<close>: the
  fixed-width pack/unpack functions \<open>upk_*\<close>/\<open>pk_*\<close>, the bit-field writer \<open>pk_uNle\<close>, the small
  word tricks, and the growable byte buffer \<open>bytes_t\<close>. A C pointer into a buffer is the list of
  the buffer's bytes with an offset; reads and writes past the list are outside the model, and
  every lemma states the bound it needs.
\<close>

section \<open>Unpacking and packing fixed-width integers\<close>

definition upk_u8 :: "bytes \<Rightarrow> nat \<Rightarrow> u8" where
  "upk_u8 buf off = buf ! off"

definition upk_u16be :: "bytes \<Rightarrow> nat \<Rightarrow> u16" where
  "upk_u16be buf off = push_bit 8 (ucast (buf ! (off + 0))) OR push_bit 0 (ucast (buf ! (off + 1)))"

definition upk_u32be :: "bytes \<Rightarrow> nat \<Rightarrow> u32" where
  "upk_u32be buf off =
     push_bit 0x18 (ucast (buf ! (off + 0))) OR push_bit 0x10 (ucast (buf ! (off + 1))) OR
     push_bit 8 (ucast (buf ! (off + 2))) OR push_bit 0 (ucast (buf ! (off + 3)))"

definition upk_u64be :: "bytes \<Rightarrow> nat \<Rightarrow> u64" where
  "upk_u64be buf off =
     push_bit 0x38 (ucast (buf ! (off + 0))) OR push_bit 0x30 (ucast (buf ! (off + 1))) OR
     push_bit 0x28 (ucast (buf ! (off + 2))) OR push_bit 0x20 (ucast (buf ! (off + 3))) OR
     push_bit 0x18 (ucast (buf ! (off + 4))) OR push_bit 0x10 (ucast (buf ! (off + 5))) OR
     push_bit 8 (ucast (buf ! (off + 6))) OR push_bit 0 (ucast (buf ! (off + 7)))"

definition upk_u16le :: "bytes \<Rightarrow> nat \<Rightarrow> u16" where
  "upk_u16le buf off = push_bit 0 (ucast (buf ! (off + 0))) OR push_bit 8 (ucast (buf ! (off + 1)))"

definition upk_u32le :: "bytes \<Rightarrow> nat \<Rightarrow> u32" where
  "upk_u32le buf off =
     push_bit 0 (ucast (buf ! (off + 0))) OR push_bit 8 (ucast (buf ! (off + 1))) OR
     push_bit 0x10 (ucast (buf ! (off + 2))) OR push_bit 0x18 (ucast (buf ! (off + 3)))"

definition upk_u64le :: "bytes \<Rightarrow> nat \<Rightarrow> u64" where
  "upk_u64le buf off =
     push_bit 0 (ucast (buf ! (off + 0))) OR push_bit 8 (ucast (buf ! (off + 1))) OR
     push_bit 0x10 (ucast (buf ! (off + 2))) OR push_bit 0x18 (ucast (buf ! (off + 3))) OR
     push_bit 0x20 (ucast (buf ! (off + 4))) OR push_bit 0x28 (ucast (buf ! (off + 5))) OR
     push_bit 0x30 (ucast (buf ! (off + 6))) OR push_bit 0x38 (ucast (buf ! (off + 7)))"

definition pk_u8 :: "bytes \<Rightarrow> nat \<Rightarrow> u8 \<Rightarrow> bytes" where
  "pk_u8 buf off nv = buf[off := nv]"

definition pk_u16be :: "bytes \<Rightarrow> nat \<Rightarrow> u16 \<Rightarrow> bytes" where
  "pk_u16be buf off nv =
     buf[off + 0 := ucast (drop_bit 8 nv AND 0xff), off + 1 := ucast (drop_bit 0 nv AND 0xff)]"

definition pk_u32be :: "bytes \<Rightarrow> nat \<Rightarrow> u32 \<Rightarrow> bytes" where
  "pk_u32be buf off nv =
     buf[off + 0 := ucast (drop_bit 0x18 nv AND 0xff), off + 1 := ucast (drop_bit 0x10 nv AND 0xff),
         off + 2 := ucast (drop_bit 8 nv AND 0xff), off + 3 := ucast (drop_bit 0 nv AND 0xff)]"

definition pk_u64be :: "bytes \<Rightarrow> nat \<Rightarrow> u64 \<Rightarrow> bytes" where
  "pk_u64be buf off nv =
     buf[off + 0 := ucast (drop_bit 0x38 nv AND 0xff), off + 1 := ucast (drop_bit 0x30 nv AND 0xff),
         off + 2 := ucast (drop_bit 0x28 nv AND 0xff), off + 3 := ucast (drop_bit 0x20 nv AND 0xff),
         off + 4 := ucast (drop_bit 0x18 nv AND 0xff), off + 5 := ucast (drop_bit 0x10 nv AND 0xff),
         off + 6 := ucast (drop_bit 8 nv AND 0xff), off + 7 := ucast (drop_bit 0 nv AND 0xff)]"

definition pk_u16le :: "bytes \<Rightarrow> nat \<Rightarrow> u16 \<Rightarrow> bytes" where
  "pk_u16le buf off nv =
     buf[off + 0 := ucast (drop_bit 0 nv AND 0xff), off + 1 := ucast (drop_bit 8 nv AND 0xff)]"

definition pk_u32le :: "bytes \<Rightarrow> nat \<Rightarrow> u32 \<Rightarrow> bytes" where
  "pk_u32le buf off nv =
     buf[off + 0 := ucast (drop_bit 0 nv AND 0xff), off + 1 := ucast (drop_bit 8 nv AND 0xff),
         off + 2 := ucast (drop_bit 0x10 nv AND 0xff), off + 3 := ucast (drop_bit 0x18 nv AND 0xff)]"

definition pk_u64le :: "bytes \<Rightarrow> nat \<Rightarrow> u64 \<Rightarrow> bytes" where
  "pk_u64le buf off nv =
     buf[off + 0 := ucast (drop_bit 0 nv AND 0xff), off + 1 := ucast (drop_bit 8 nv AND 0xff),
         off + 2 := ucast (drop_bit 0x10 nv AND 0xff), off + 3 := ucast (drop_bit 0x18 nv AND 0xff),
         off + 4 := ucast (drop_bit 0x20 nv AND 0xff), off + 5 := ucast (drop_bit 0x28 nv AND 0xff),
         off + 6 := ucast (drop_bit 0x30 nv AND 0xff), off + 7 := ucast (drop_bit 0x38 nv AND 0xff)]"

text \<open>
  The interface every reader/writer pair offers: a field of \<open>n\<close> bytes at an offset. The laws say
  what a read returns after a write to the same field, that a write touches its own field only,
  and that a read depends on its own field only.
\<close>

locale byte_field =
  fixes pk :: "bytes \<Rightarrow> nat \<Rightarrow> 'v \<Rightarrow> bytes"
    and upk :: "bytes \<Rightarrow> nat \<Rightarrow> 'v"
    and n :: nat
  assumes pk_length: "length (pk buf off v) = length buf"
    and upk_pk: "off + n \<le> length buf \<Longrightarrow> upk (pk buf off v) off = v"
    and pk_frame: "i < off \<or> off + n \<le> i \<Longrightarrow> pk buf off v ! i = buf ! i"
    and upk_local: "(\<And>i. i < n \<Longrightarrow> buf ! (off + i) = buf' ! (off + i)) \<Longrightarrow> upk buf off = upk buf' off"
begin

lemma upk_after_other_pk:
  assumes "off' + n \<le> off \<or> off + n \<le> off'"
  shows "upk (pk buf off v) off' = upk buf off'"
  by (rule upk_local) (rule pk_frame, use assms in auto)

lemma pk_inject: "off + n \<le> length buf \<Longrightarrow> pk buf off v = pk buf off w \<Longrightarrow> v = w"
  by (metis upk_pk)

lemma upk_prefix: "off + n \<le> length buf \<Longrightarrow> upk (buf @ rest) off = upk buf off"
  by (rule upk_local) (simp add: nth_append)

end

lemma field_cases:
  fixes n :: nat
  assumes "n < 64"
  obtains "n < 8" | "8 \<le> n" "n < 16" | "16 \<le> n" "n < 24" | "24 \<le> n" "n < 32"
    | "32 \<le> n" "n < 40" | "40 \<le> n" "n < 48" | "48 \<le> n" "n < 56" | "56 \<le> n" "n < 64"
  using assms by linarith

interpretation f8: byte_field pk_u8 upk_u8 1
  by unfold_locales (auto simp: pk_u8_def upk_u8_def)

interpretation f16be: byte_field pk_u16be upk_u16be 2
proof (unfold_locales, goal_cases)
  case (2 off buf v)
  then show ?case
    by (auto simp: pk_u16be_def upk_u16be_def nth_list_update bit_simps intro!: bit_word_eqI)
next
  case (4 buf off buf')
  from "4" [of 0] "4" [of 1] show ?case by (simp add: upk_u16be_def)
qed (auto simp: pk_u16be_def nth_list_update)

interpretation f16le: byte_field pk_u16le upk_u16le 2
proof (unfold_locales, goal_cases)
  case (2 off buf v)
  then show ?case
    by (auto simp: pk_u16le_def upk_u16le_def nth_list_update bit_simps intro!: bit_word_eqI)
next
  case (4 buf off buf')
  from "4" [of 0] "4" [of 1] show ?case by (simp add: upk_u16le_def)
qed (auto simp: pk_u16le_def nth_list_update)

interpretation f32be: byte_field pk_u32be upk_u32be 4
proof (unfold_locales, goal_cases)
  case (2 off buf v)
  show ?case
  proof (rule bit_word_eqI)
    fix k :: nat assume "k < LENGTH(32)"
    then have "k < 64" by simp
    then show "bit (upk_u32be (pk_u32be buf off v) off) k = bit v k"
      using \<open>k < LENGTH(32)\<close> "2"
      by (cases rule: field_cases) (simp_all add: pk_u32be_def upk_u32be_def nth_list_update bit_simps less_diff_conv2)
  qed
next
  case (4 buf off buf')
  from "4" [of 0] "4" [of 1] "4" [of 2] "4" [of 3] show ?case by (simp add: upk_u32be_def)
qed (auto simp: pk_u32be_def nth_list_update)

interpretation f32le: byte_field pk_u32le upk_u32le 4
proof (unfold_locales, goal_cases)
  case (2 off buf v)
  show ?case
  proof (rule bit_word_eqI)
    fix k :: nat assume "k < LENGTH(32)"
    then have "k < 64" by simp
    then show "bit (upk_u32le (pk_u32le buf off v) off) k = bit v k"
      using \<open>k < LENGTH(32)\<close> "2"
      by (cases rule: field_cases) (simp_all add: pk_u32le_def upk_u32le_def nth_list_update bit_simps less_diff_conv2)
  qed
next
  case (4 buf off buf')
  from "4" [of 0] "4" [of 1] "4" [of 2] "4" [of 3] show ?case by (simp add: upk_u32le_def)
qed (auto simp: pk_u32le_def nth_list_update)

interpretation f64be: byte_field pk_u64be upk_u64be 8
proof (unfold_locales, goal_cases)
  case (2 off buf v)
  show ?case
  proof (rule bit_word_eqI)
    fix k :: nat assume "k < LENGTH(64)"
    then have "k < 64" by simp
    then show "bit (upk_u64be (pk_u64be buf off v) off) k = bit v k"
      using "2"
      by (cases rule: field_cases) (simp_all add: pk_u64be_def upk_u64be_def nth_list_update bit_simps less_diff_conv2)
  qed
next
  case (4 buf off buf')
  from "4" [of 0] "4" [of 1] "4" [of 2] "4" [of 3] "4" [of 4] "4" [of 5] "4" [of 6] "4" [of 7]
  show ?case by (simp add: upk_u64be_def)
qed (auto simp: pk_u64be_def nth_list_update)

interpretation f64le: byte_field pk_u64le upk_u64le 8
proof (unfold_locales, goal_cases)
  case (2 off buf v)
  show ?case
  proof (rule bit_word_eqI)
    fix k :: nat assume "k < LENGTH(64)"
    then have "k < 64" by simp
    then show "bit (upk_u64le (pk_u64le buf off v) off) k = bit v k"
      using "2"
      by (cases rule: field_cases) (simp_all add: pk_u64le_def upk_u64le_def nth_list_update bit_simps less_diff_conv2)
  qed
next
  case (4 buf off buf')
  from "4" [of 0] "4" [of 1] "4" [of 2] "4" [of 3] "4" [of 4] "4" [of 5] "4" [of 6] "4" [of 7]
  show ?case by (simp add: upk_u64le_def)
qed (auto simp: pk_u64le_def nth_list_update)

section \<open>Bit fields\<close>

text \<open>
  \<open>pk_uNle\<close> picks the narrowest of 8, 16, 32 or 64 bits that holds the field, reads that word,
  replaces the field and writes the word back; \<open>uN_merge\<close> is the replacement at one width (the
  macro \<^verbatim>\<open>_pk_uNle\<close>). C leaves the shift of a 32- or 64-bit one by its own width undefined,
  so the lemmas ask for a field narrower than the word.
\<close>

definition uN_merge :: "nat \<Rightarrow> nat \<Rightarrow> 'a::len word \<Rightarrow> 'a word \<Rightarrow> 'a word" where
  "uN_merge bitoff bitlen newvalue u =
     (let mask = push_bit bitlen 1 - 1;
          filt = NOT (push_bit bitoff mask)
      in (u AND filt) OR push_bit bitoff (newvalue AND mask))"

definition pk_uNle :: "bytes \<Rightarrow> nat \<Rightarrow> nat \<Rightarrow> nat \<Rightarrow> u64 \<Rightarrow> bytes" where
  "pk_uNle buf off bitoff bitlen nv =
     (let bittot = bitoff + bitlen in
      if bittot \<le> 8 then pk_u8 buf off (uN_merge bitoff bitlen (ucast nv) (upk_u8 buf off))
      else if bittot \<le> 0x10 then
        pk_u16le buf off (uN_merge bitoff bitlen (ucast nv) (upk_u16le buf off))
      else if bittot \<le> 0x20 then
        pk_u32le buf off (uN_merge bitoff bitlen (ucast nv) (upk_u32le buf off))
      else pk_u64le buf off (uN_merge bitoff bitlen nv (upk_u64le buf off)))"

lemma bit_uN_merge:
  "bit (uN_merge bitoff bitlen nv u) k \<longleftrightarrow>
     (if bitoff \<le> k \<and> k < bitoff + bitlen then k < LENGTH('a) \<and> bit nv (k - bitoff) else bit u k)"
  for u :: "'a::len word"
proof -
  have m: "push_bit bitlen 1 - 1 = (mask bitlen :: 'a word)"
    by (simp add: mask_eq_exp_minus_1)
  show ?thesis
    unfolding uN_merge_def Let_def m
    by (auto simp: bit_simps dest: bit_imp_le_length)
qed

lemma length_pk_uNle [len_simps]: "length (pk_uNle buf off bitoff bitlen nv) = length buf"
  by (simp add: pk_uNle_def Let_def f8.pk_length f16le.pk_length f32le.pk_length f64le.pk_length)

section \<open>Word tricks\<close>

definition align_len :: "nat \<Rightarrow> nat" where
  "align_len len = (if len mod 4 \<noteq> 0 then len + (4 - len mod 4) else len)"

definition bitflip8 :: "u8 \<Rightarrow> u8" where
  "bitflip8 p0 =
     (let p1 = drop_bit 1 (p0 AND 0xaa) OR push_bit 1 (p0 AND 0x55);
          p2 = drop_bit 2 (p1 AND 0xcc) OR push_bit 2 (p1 AND 0x33)
      in drop_bit 4 (p2 AND 0xf0) OR push_bit 4 (p2 AND 0x0f))"

definition is_power_of_two :: "'a::len word \<Rightarrow> bool" where
  "is_power_of_two n \<longleftrightarrow> 0 = (n AND (n - 1))"

text \<open>The loop of \<open>upper_power_of_two_u32\<close> doubles its shift: 1, 2, 4, 8, 16.\<close>

definition upper_power_of_two_u32 :: "u32 \<Rightarrow> u32" where
  "upper_power_of_two_u32 n = fold (\<lambda>i m. m OR drop_bit i m) [1, 2, 4, 8, 0x10] (n - 1) + 1"

lemma align_len_mod: "4 dvd align_len len" "len \<le> align_len len" "align_len len < len + 4"
  unfolding align_len_def by presburger+

lemma nat_less_8_cases:
  fixes k :: nat
  assumes "k < 8"
  obtains "k = 0" | "k = 1" | "k = 2" | "k = 3" | "k = 4" | "k = 5" | "k = 6" | "k = 7"
  using assms by linarith

lemma bit_bitflip8:
  assumes "k < 8"
  shows "bit (bitflip8 p) k = bit p (7 - k)"
  using assms
  by (simp only: bitflip8_def Let_def bit_and_iff bit_or_iff bit_drop_bit_eq bit_push_bit_iff comp_apply)
    (erule nat_less_8_cases; hypsubst; simp add: numeral_2_eq_2 numeral_3_eq_3)

text \<open>After the shifts 1, 2, 4, 8, 16 a bit is set when one of the 32 bits from it upwards was.\<close>

lemma smear_step:
  fixes m n :: u32
  assumes "\<And>k. bit m k \<longleftrightarrow> (\<exists>d<w. bit n (k + d))"
  shows "bit (m OR drop_bit w m) k \<longleftrightarrow> (\<exists>d<2*w. bit n (k + d))"
proof -
  have "(\<exists>d<2*w. bit n (k + d)) \<longleftrightarrow> (\<exists>d<w. bit n (k + d)) \<or> (\<exists>d<w. bit n (w + k + d))"
  proof safe
    fix d assume d: "d < 2 * w" "bit n (k + d)" "\<not> (\<exists>d<w. bit n (w + k + d))"
    show "\<exists>d<w. bit n (k + d)"
    proof (cases "d < w")
      case False
      then have "d - w < w" "w + k + (d - w) = k + d" using d(1) by auto
      with d(2,3) show ?thesis by metis
    qed (use d in auto)
  next
    fix d assume "d < w" "bit n (w + k + d)"
    then have "w + d < 2 * w \<and> bit n (k + (w + d))" by (simp add: ac_simps)
    then show "\<exists>d<2*w. bit n (k + d)" by blast
  qed (force simp: add.assoc)
  then show ?thesis
    by (simp add: bit_simps assms)
qed

lemma smear_bits:
  "bit (fold (\<lambda>i m. m OR drop_bit i m) [1, 2, 4, 8, 0x10] n) k \<longleftrightarrow> (\<exists>d<32. bit n (k + d))" for n :: u32
proof -
  have 1: "\<And>k. bit n k \<longleftrightarrow> (\<exists>d<1. bit n (k + d))" by simp
  note 2 = smear_step [OF 1, simplified]
  note 4 = smear_step [OF 2, simplified]
  note 8 = smear_step [OF 4, simplified]
  note 16 = smear_step [OF 8, simplified]
  note 32 = smear_step [OF 16, simplified]
  show ?thesis by (simp add: 32)
qed

lemma nat_bits_top:
  fixes m :: nat
  assumes "2 ^ t \<le> m" "m < 2 ^ Suc t"
  shows "bit m t" and "t < j \<Longrightarrow> \<not> bit m j"
proof -
  have "m div 2 ^ t = 1" using assms by (intro div_nat_eqI) auto
  then show "bit m t" by (simp add: bit_iff_odd)
  assume "t < j"
  then have "m < 2 ^ j" using assms(2)
    by (meson Suc_leI less_le_trans one_le_numeral power_increasing)
  then show "\<not> bit m j" by (simp add: bit_iff_odd)
qed

lemma upper_power_of_two_u32_spec:
  assumes "0 < n" "n \<le> 2 ^ 31"
  shows "\<exists>k. unat (upper_power_of_two_u32 n) = 2 ^ k \<and> unat n \<le> 2 ^ k \<and> 2 ^ k < 2 * unat n"
proof -
  define m where "m = n - 1"
  have m: "unat m = unat n - 1" "unat n \<le> 2 ^ 31" "0 < unat n"
    using assms by (simp_all add: m_def unat_minus_one word_le_nat_alt unat_gt_0)
  show ?thesis
  proof (cases "unat m = 0")
    case True
    then have "m = 0" by (simp add: unsigned_eq_0_iff)
    then have "upper_power_of_two_u32 n = 1" by (simp add: upper_power_of_two_u32_def flip: m_def)
    with m True show ?thesis by (intro exI [of _ 0]) simp
  next
    case False
    then obtain t where t: "2 ^ t \<le> unat m" "unat m < 2 ^ Suc t"
      using ex_power_ivl1 [of 2 "unat m"] by auto
    have "(2::nat) ^ t < 2 ^ 31" using t(1) m by linarith
    then have t31: "t < 31" using power_less_imp_less_exp [of "2::nat" t 31] by simp
    have "fold (\<lambda>i m. m OR drop_bit i m) [1, 2, 4, 8, 0x10] m = mask (Suc t)"
    proof (rule bit_word_eqI)
      fix k :: nat assume "k < LENGTH(32)"
      have b: "bit m j \<longleftrightarrow> bit (unat m) j" for j by (simp add: bit_unsigned_iff bit_imp_le_length)
      have "(\<exists>d<32. bit m (k + d)) \<longleftrightarrow> k < Suc t"
      proof
        assume "\<exists>d<32. bit m (k + d)"
        then show "k < Suc t" using nat_bits_top(2) [OF t] b by (meson less_Suc_eq_le not_le trans_less_add1)
      next
        assume "k < Suc t"
        then show "\<exists>d<32. bit m (k + d)" using nat_bits_top(1) [OF t] b t31
          by (intro exI [of _ "t - k"]) auto
      qed
      then show "bit (fold (\<lambda>i m. m OR drop_bit i m) [1, 2, 4, 8, 0x10] m) k = bit (mask (Suc t) :: u32) k"
        using t31 by (simp only: smear_bits) (auto simp: bit_mask_iff)
    qed
    then have "upper_power_of_two_u32 n = mask (Suc t) + 1"
      by (simp only: upper_power_of_two_u32_def flip: m_def)
    also have "\<dots> = 2 ^ Suc t" by (simp add: mask_eq_exp_minus_1)
    also have "\<dots> = of_nat (2 ^ Suc t)" by simp
    finally have "upper_power_of_two_u32 n = of_nat (2 ^ Suc t)" .
    moreover have "(2::nat) ^ Suc t < 2 ^ 32"
      using t31 by (intro power_strict_increasing) auto
    ultimately have "unat (upper_power_of_two_u32 n) = 2 ^ Suc t"
      by (simp only: unsigned_of_nat) (simp add: take_bit_nat_eq_self t31 del: power_Suc)
    with t m show ?thesis by (intro exI [of _ "Suc t"]) auto
  qed
qed
section \<open>The growable byte buffer\<close>

text \<open>
  \<open>bytes_t\<close> is an allocation with its size and the length in use. \<^verbatim>\<open>realloc\<close> and \<^verbatim>\<open>malloc\<close> leave
  new memory indeterminate: the operations that allocate take a function \<open>junk\<close> for what is there,
  and every lemma holds for all of them. Allocation itself is taken to succeed (the code ends the
  process when it does not), and sizes stay far below \<^verbatim>\<open>SIZE_MAX\<close>, so they are natural numbers.
\<close>

record bytes_t =
  bbuf :: bytes
  bsz :: nat
  ballocsz :: nat

definition mem_write :: "bytes \<Rightarrow> nat \<Rightarrow> bytes \<Rightarrow> bytes" where
  "mem_write buf off src = take off buf @ src @ drop (off + length src) buf"

definition realloc_to :: "(nat \<Rightarrow> u8) \<Rightarrow> bytes \<Rightarrow> nat \<Rightarrow> bytes" where
  "realloc_to junk old sz = take sz old @ map junk [length old..<sz]"

definition bytes_init :: bytes_t where
  "bytes_init = \<lparr>bbuf = [], bsz = 0, ballocsz = 0\<rparr>"

definition bytes_len :: "bytes_t \<Rightarrow> nat" where
  "bytes_len b = bsz b"

function bytes_find_from :: "bytes \<Rightarrow> u8 \<Rightarrow> nat \<Rightarrow> nat \<Rightarrow> int" where
  "bytes_find_from buf needle i blen =
     (if i < blen then if buf ! i = needle then int i else bytes_find_from buf needle (Suc i) blen
      else - 1)"
  by pat_completeness auto
termination
  by (relation "measure (\<lambda>(buf, needle, i, blen). blen - i)") auto

definition bytes_find :: "bytes_t \<Rightarrow> u8 \<Rightarrow> int" where
  "bytes_find b needle = bytes_find_from (bbuf b) needle 0 (bytes_len b)"

definition bytes_eq :: "bytes_t \<Rightarrow> bytes_t \<Rightarrow> bool" where
  "bytes_eq a b = (if bsz a \<noteq> bsz b then False else take (bsz a) (bbuf a) = take (bsz a) (bbuf b))"

text \<open>
  The doubling loop runs its body once before it tests. Its argument is never 0 (the caller starts
  it at 16), which the test \<open>0 < a\<close> records for the termination proof.
\<close>

function bytes_grow :: "nat \<Rightarrow> nat \<Rightarrow> nat" where
  "bytes_grow newsz a =
     (if newsz > a * 2 \<and> 0 < a then bytes_grow newsz (a * 2) else a * 2)"
  by pat_completeness auto
termination
  by (relation "measure (\<lambda>(newsz, a). newsz - a)") auto

definition bytes_extend_buf :: "(nat \<Rightarrow> u8) \<Rightarrow> bytes_t \<Rightarrow> nat \<Rightarrow> bytes_t" where
  "bytes_extend_buf junk b newsz =
     (if newsz \<le> ballocsz b then b
      else let a = bytes_grow newsz (if ballocsz b = 0 then 0x10 else ballocsz b)
           in b\<lparr>ballocsz := a, bbuf := realloc_to junk (bbuf b) a\<rparr>)"

definition bytes_resize :: "(nat \<Rightarrow> u8) \<Rightarrow> bytes_t \<Rightarrow> nat \<Rightarrow> bytes_t" where
  "bytes_resize junk b newsz = (bytes_extend_buf junk b newsz)\<lparr>bsz := newsz\<rparr>"

text \<open>\<open>bytes_preappend\<close> returns where the caller may write: the old length, as an offset.\<close>

definition bytes_preappend :: "(nat \<Rightarrow> u8) \<Rightarrow> bytes_t \<Rightarrow> nat \<Rightarrow> bytes_t \<times> nat" where
  "bytes_preappend junk b addsz =
     (let origsz = bytes_len b in (bytes_extend_buf junk b (origsz + addsz), origsz))"

definition bytes_postappend :: "(nat \<Rightarrow> u8) \<Rightarrow> bytes_t \<Rightarrow> nat \<Rightarrow> bytes_t" where
  "bytes_postappend junk b addsz = bytes_resize junk b (bytes_len b + addsz)"

definition bytes_append :: "(nat \<Rightarrow> u8) \<Rightarrow> bytes_t \<Rightarrow> bytes \<Rightarrow> bytes_t" where
  "bytes_append junk b add =
     (let (b1, at) = bytes_preappend junk b (length add);
          b2 = b1\<lparr>bbuf := mem_write (bbuf b1) at add\<rparr>
      in bytes_postappend junk b2 (length add))"

definition bytes_cat :: "(nat \<Rightarrow> u8) \<Rightarrow> bytes_t \<Rightarrow> bytes_t \<Rightarrow> bytes_t" where
  "bytes_cat junk b c = bytes_append junk b (take (bytes_len c) (bbuf c))"

function bytes_halve :: "nat \<Rightarrow> nat \<Rightarrow> nat" where
  "bytes_halve sz a = (if sz \<le> a div 2 \<and> 0 < a then bytes_halve sz (a div 2) else a)"
  by pat_completeness auto
termination
  by (relation "measure snd") auto

definition bytes_cpy :: "(nat \<Rightarrow> u8) \<Rightarrow> bytes_t \<Rightarrow> bytes_t" where
  "bytes_cpy junk src =
     (if bsz src = 0 then \<lparr>bbuf = [], bsz = 0, ballocsz = 0\<rparr>
      else let a = bytes_halve (bsz src) (ballocsz src)
           in \<lparr>bbuf = mem_write (map junk [0..<a]) 0 (take (bsz src) (bbuf src)),
               bsz = bsz src, ballocsz = a\<rparr>)"

definition bytes_assimilate :: "bytes_t \<Rightarrow> bytes_t \<Rightarrow> bytes_t \<times> bytes_t" where
  "bytes_assimilate dst src = (src, \<lparr>bbuf = bbuf dst, bsz = 0, ballocsz = ballocsz dst\<rparr>)"

definition bytes_assimilate_raw :: "bytes_t \<Rightarrow> bytes \<Rightarrow> nat \<Rightarrow> nat \<Rightarrow> bytes_t" where
  "bytes_assimilate_raw b buf bufsz buflen = b\<lparr>bbuf := buf, ballocsz := bufsz, bsz := buflen\<rparr>"

definition bytes_shift :: "bytes_t \<Rightarrow> nat \<Rightarrow> bytes_t" where
  "bytes_shift b shift =
     (if shift \<ge> bsz b then b\<lparr>bsz := 0\<rparr>
      else let sz = bsz b - shift
           in b\<lparr>bsz := sz, bbuf := mem_write (bbuf b) 0 (take sz (drop shift (bbuf b)))\<rparr>)"

definition bytes_reset :: "bytes_t \<Rightarrow> bytes_t" where
  "bytes_reset b = b\<lparr>bsz := 0\<rparr>"

definition bytes_nullterminate :: "(nat \<Rightarrow> u8) \<Rightarrow> bytes_t \<Rightarrow> bytes_t" where
  "bytes_nullterminate junk b = (let b1 = bytes_append junk b [0] in b1\<lparr>bsz := bsz b1 - 1\<rparr>)"

definition bytes_free :: "bytes_t \<Rightarrow> bytes_t" where
  "bytes_free b = bytes_init"

subsection \<open>What the buffer operations do to the bytes in use\<close>

definition bytes_view :: "bytes_t \<Rightarrow> bytes" where
  "bytes_view b = take (bsz b) (bbuf b)"

definition bytes_inv :: "bytes_t \<Rightarrow> bool" where
  "bytes_inv b \<longleftrightarrow> length (bbuf b) = ballocsz b \<and> bsz b \<le> ballocsz b"

declare bytes_find_from.simps [simp del] bytes_grow.simps [simp del] bytes_halve.simps [simp del]

lemma bytes_grow_ge: "newsz \<le> bytes_grow newsz a" if "0 < a"
  using that
proof (induction newsz a rule: bytes_grow.induct)
  case (1 newsz a)
  then show ?case by (subst bytes_grow.simps) auto
qed

lemma bytes_grow_bound: "bytes_grow newsz a \<le> max (2 * a) (2 * newsz)"
proof (induction newsz a rule: bytes_grow.induct)
  case (1 newsz a)
  then show ?case by (subst bytes_grow.simps) auto
qed

lemma bytes_halve_ge: "sz \<le> a \<Longrightarrow> sz \<le> bytes_halve sz a"
proof (induction sz a rule: bytes_halve.induct)
  case (1 sz a)
  then show ?case by (subst bytes_halve.simps) auto
qed

lemma bytes_halve_le: "bytes_halve sz a \<le> a"
proof (induction sz a rule: bytes_halve.induct)
  case (1 sz a)
  show ?case
  proof (cases "sz \<le> a div 2 \<and> 0 < a")
    case True
    with 1 have "bytes_halve sz (a div 2) \<le> a div 2" by simp
    with True show ?thesis by (subst bytes_halve.simps) auto
  next
    case False
    then show ?thesis by (subst bytes_halve.simps) auto
  qed
qed

lemma length_mem_write [len_simps]: "off + length src \<le> length buf \<Longrightarrow> length (mem_write buf off src) = length buf"
  by (simp add: mem_write_def)

lemma take_mem_write: "off \<le> length buf \<Longrightarrow> take (off + length src) (mem_write buf off src) = take off buf @ src"
  by (simp add: mem_write_def)

lemma length_realloc_to [len_simps]: "length (realloc_to junk old sz) = sz"
  by (simp add: realloc_to_def)

lemma bytes_extend_buf_simps [simp]:
  "bsz (bytes_extend_buf junk b newsz) = bsz b"
  by (simp add: bytes_extend_buf_def Let_def)

lemma take_extend_buf:
  assumes "bytes_inv b" "n \<le> ballocsz b"
  shows "take n (bbuf (bytes_extend_buf junk b newsz)) = take n (bbuf b)"
proof (cases "newsz \<le> ballocsz b")
  case False
  let ?a = "bytes_grow newsz (if ballocsz b = 0 then 0x10 else ballocsz b)"
  have "ballocsz b \<le> ?a" using bytes_grow_ge [of "if ballocsz b = 0 then 0x10 else ballocsz b" newsz] False by auto
  then show ?thesis using False assms
    by (simp add: bytes_extend_buf_def Let_def realloc_to_def bytes_inv_def min_absorb1)
qed (simp add: bytes_extend_buf_def)

lemma bytes_extend_buf_alloc:
  "newsz \<le> ballocsz (bytes_extend_buf junk b newsz)"
  "ballocsz b \<le> ballocsz (bytes_extend_buf junk b newsz)"
  using bytes_grow_ge [of "if ballocsz b = 0 then 0x10 else ballocsz b" newsz]
  by (auto simp: bytes_extend_buf_def Let_def)

lemma bytes_extend_buf_inv [inv_intros]: "bytes_inv b \<Longrightarrow> bytes_inv (bytes_extend_buf junk b newsz)"
  using bytes_extend_buf_alloc [where newsz = newsz and junk = junk and b = b]
  by (auto simp: bytes_inv_def bytes_extend_buf_def Let_def len_simps split: if_splits)

lemma bytes_append_unfold:
  assumes "bytes_inv b"
  shows "bytes_append junk b add =
    (let b1 = bytes_extend_buf junk b (bsz b + length add)
     in b1\<lparr>bbuf := mem_write (bbuf b1) (bsz b) add, bsz := bsz b + length add\<rparr>)"
  using bytes_extend_buf_alloc(1) [of "bsz b + length add" junk b]
  by (simp add: bytes_append_def bytes_preappend_def bytes_postappend_def bytes_resize_def bytes_len_def
      Let_def bytes_extend_buf_def [of junk "bytes_extend_buf junk b (bsz b + length add)\<lparr>bbuf := X\<rparr>" for X])

lemma bytes_append_inv [inv_intros]: "bytes_inv b \<Longrightarrow> bytes_inv (bytes_append junk b add)"
  using bytes_extend_buf_alloc(1) [of "bsz b + length add" junk b]
    bytes_extend_buf_inv [of b junk "bsz b + length add"]
  by (simp add: bytes_append_unfold Let_def bytes_inv_def len_simps)

lemma bytes_view_append:
  assumes "bytes_inv b"
  shows "bytes_view (bytes_append junk b add) = bytes_view b @ add"
proof -
  let ?b1 = "bytes_extend_buf junk b (bsz b + length add)"
  have "bsz b \<le> length (bbuf ?b1)"
    using bytes_extend_buf_inv [OF assms] bytes_extend_buf_simps by (metis bytes_inv_def)
  then have "take (bsz b + length add) (mem_write (bbuf ?b1) (bsz b) add) = take (bsz b) (bbuf ?b1) @ add"
    by (rule take_mem_write)
  also have "take (bsz b) (bbuf ?b1) = bytes_view b"
    using assms by (simp add: take_extend_buf bytes_view_def bytes_inv_def)
  finally show ?thesis
    using assms by (simp add: bytes_append_unfold Let_def bytes_view_def)
qed

lemma bytes_shift_inv [inv_intros]: "bytes_inv b \<Longrightarrow> bytes_inv (bytes_shift b n)"
  by (auto simp: bytes_inv_def bytes_shift_def Let_def len_simps)

lemma bytes_view_shift:
  assumes "bytes_inv b"
  shows "bytes_view (bytes_shift b n) = drop n (bytes_view b)"
proof (cases "n \<ge> bsz b")
  case False
  have "take (bsz b - n) (mem_write (bbuf b) 0 (take (bsz b - n) (drop n (bbuf b)))) = take (bsz b - n) (drop n (bbuf b))"
    using take_mem_write [of 0 "bbuf b" "take (bsz b - n) (drop n (bbuf b))"] assms False
    by (simp add: bytes_inv_def min_absorb2 diff_le_mono)
  with False show ?thesis
    by (simp add: bytes_shift_def bytes_view_def Let_def drop_take)
qed (simp add: bytes_shift_def bytes_view_def)

lemma bytes_cpy_spec:
  assumes "bytes_inv b"
  shows "bytes_inv (bytes_cpy junk b)" "bytes_view (bytes_cpy junk b) = bytes_view b"
    and "ballocsz (bytes_cpy junk b) \<le> ballocsz b"
proof -
  let ?a = "bytes_halve (bsz b) (ballocsz b)"
  have "bsz b \<le> ?a" and a: "?a \<le> ballocsz b"
    using assms bytes_halve_ge bytes_halve_le by (auto simp: bytes_inv_def)
  moreover have "length (take (bsz b) (bbuf b)) = bsz b"
    using assms by (simp add: bytes_inv_def)
  moreover from this have "take (bsz b) (mem_write (map junk [0..<?a]) 0 (take (bsz b) (bbuf b))) = take (bsz b) (bbuf b)"
    by (simp add: mem_write_def)
  ultimately show "bytes_inv (bytes_cpy junk b)" "bytes_view (bytes_cpy junk b) = bytes_view b"
    "ballocsz (bytes_cpy junk b) \<le> ballocsz b"
    by (simp_all add: bytes_inv_def bytes_view_def bytes_cpy_def Let_def len_simps)
qed

subsection \<open>The buffer as a stream\<close>

text \<open>
  What the protocol drivers use a \<open>bytes_t\<close> for: received chunks are appended at one end and whole
  messages are shifted out at the other.
\<close>

locale byte_sink =
  fixes inv :: "'b \<Rightarrow> bool"
    and view :: "'b \<Rightarrow> 'a list"
    and append :: "'b \<Rightarrow> 'a list \<Rightarrow> 'b"
  assumes inv_append: "inv b \<Longrightarrow> inv (append b add)"
    and view_append: "inv b \<Longrightarrow> view (append b add) = view b @ add"
begin

lemma inv_feed: "inv b \<Longrightarrow> inv (fold (\<lambda>c b. append b c) chunks b)"
  by (induction chunks arbitrary: b) (auto simp: inv_append)

lemma view_feed: "inv b \<Longrightarrow> view (fold (\<lambda>c b. append b c) chunks b) = view b @ concat chunks"
  by (induction chunks arbitrary: b) (auto simp: inv_append view_append)

end

locale byte_stream = byte_sink +
  fixes shift :: "'a \<Rightarrow> nat \<Rightarrow> 'a"
  assumes inv_shift: "inv b \<Longrightarrow> inv (shift b n)"
    and view_shift: "inv b \<Longrightarrow> view (shift b n) = drop n (view b)"
begin

lemma view_feed_shift:
  assumes "inv b" "view b @ concat chunks = msg @ rest"
  shows "view (shift (fold (\<lambda>c b. append b c) chunks b) (length msg)) = rest"
  using assms by (simp add: view_shift inv_feed view_feed)

end

interpretation bs: byte_stream bytes_inv bytes_view "bytes_append junk" bytes_shift
  by unfold_locales (simp_all add: inv_intros bytes_view_append bytes_view_shift)

section \<open>The string buffer of \<^verbatim>\<open>bfg_strerror\<close>\<close>

text \<open>
  \<open>bfg_grow_buffer\<close> is written with \<^verbatim>\<open>*bufszp = 2\<close> in its loop, so the loop runs as often as the
  size stays below the minimum; \<open>None\<close> is a call that does not return.
\<close>

definition bfg_grow_buffer :: "(nat \<Rightarrow> u8) \<Rightarrow> bytes \<Rightarrow> nat \<Rightarrow> nat \<Rightarrow> (bool \<times> bytes \<times> nat) option" where
  "bfg_grow_buffer junk buf bufsz minimum =
     (if minimum \<le> bufsz then Some (False, buf, bufsz)
      else case while_option (\<lambda>sz. minimum > sz) (\<lambda>sz. 2) bufsz of
             None \<Rightarrow> None
           | Some sz \<Rightarrow> Some (True, realloc_to junk buf sz, sz))"

text \<open>The source string is given without its terminating NUL, which the copy includes.\<close>

definition bfg_strcpy_growing_buffer ::
  "(nat \<Rightarrow> u8) \<Rightarrow> bytes \<Rightarrow> nat \<Rightarrow> bytes option \<Rightarrow> (bytes option \<times> bytes \<times> nat) option" where
  "bfg_strcpy_growing_buffer junk buf bufsz src =
     (case src of
        None \<Rightarrow> Some (None, buf, bufsz)
      | Some s \<Rightarrow>
          (let srcsz = length s + 1 in
           case bfg_grow_buffer junk buf bufsz srcsz of
             None \<Rightarrow> None
           | Some (_, buf1, sz1) \<Rightarrow>
               (let buf2 = mem_write buf1 0 (s @ [0]) in Some (Some buf2, buf2, sz1))))"

lemma grow_loop:
  "bufsz < minimum \<Longrightarrow>
   while_option (\<lambda>sz. minimum > sz) (\<lambda>sz. 2) bufsz = (if minimum \<le> 2 then Some 2 else None)"
  for minimum bufsz :: nat
proof (cases "minimum \<le> 2")
  case False
  have "((\<lambda>sz. 2) ^^ k) bufsz < minimum" if "bufsz < minimum" for k
    using False that by (cases k) auto
  moreover assume "bufsz < minimum"
  ultimately show ?thesis using False by (simp add: while_option_def)
qed (simp add: while_option_unfold)

end
