(* ===== verification/TextCodec.thy ===== *)
theory TextCodec
  imports Bytes "HOL-Library.Char_ord"
begin

text \<open>
  The text routines of \<^verbatim>\<open>util.c\<close>: hexadecimal conversion, UTF-8, and the small string helpers. A C
  string is the list of its characters without the terminating NUL; \<open>chat\<close> reads one, and gives the
  NUL at the end. Binary data are \<open>bytes\<close>.
\<close>

section \<open>C strings\<close>

definition chat :: "string \<Rightarrow> nat \<Rightarrow> char" where
  "chat s i = (if i < length s then s ! i else CHR 0x00)"

definition cstring :: "string \<Rightarrow> bool" where
  "cstring s \<longleftrightarrow> CHR 0x00 \<notin> set s"

definition ord :: "char \<Rightarrow> int" where
  "ord c = of_char c"

lemma chat_Cons_0 [simp]: "chat (c # s) 0 = c"
  by (simp add: chat_def)

lemma chat_Nil [simp]: "chat [] i = CHR 0x00"
  by (simp add: chat_def)

lemma chat_Cons_Suc [simp]: "chat (c # s) (Suc i) = chat s i"
  by (simp add: chat_def)

lemma chat_0_iff: "cstring s \<Longrightarrow> chat s 0 = CHR 0x00 \<longleftrightarrow> s = []"
  by (cases s) (auto simp: cstring_def)

section \<open>Hexadecimal\<close>

definition hexchars :: string where
  "hexchars = ''0123456789abcdef''"

fun bin2hex :: "bytes \<Rightarrow> string" where
  "bin2hex [] = []"
| "bin2hex (p # ps) =
     hexchars ! unat (drop_bit 4 p) # hexchars ! unat (p AND 0xf) # bin2hex ps"

definition hex2bin_char :: "char \<Rightarrow> int" where
  "hex2bin_char c =
     (if ord c \<ge> ord CHR ''0'' \<and> ord c \<le> ord CHR ''9'' then ord c - ord CHR ''0''
      else if ord c \<ge> ord CHR ''a'' \<and> ord c \<le> ord CHR ''f'' then (ord c - ord CHR ''a'') + 10
      else if ord c \<ge> ord CHR ''A'' \<and> ord c \<le> ord CHR ''F'' then (ord c - ord CHR ''A'') + 10
      else - 1)"

text \<open>The result is what the C function returns, with the bytes written up to then.\<close>

fun hex2bin :: "string \<Rightarrow> nat \<Rightarrow> bool \<times> bytes" where
  "hex2bin s 0 = (chat s 0 = CHR 0x00, [])"
| "hex2bin s (Suc len) =
     (let n = hex2bin_char (chat s 0) in
      if n = - 1 then (False, [])
      else let o' = hex2bin_char (chat s 1) in
        if o' = - 1 then (False, [])
        else let (ok, r) = hex2bin (drop 2 s) len
             in (ok, (push_bit 4 (word_of_int n) OR word_of_int o') # r))"

lemma hexchars_nth: "i < 16 \<Longrightarrow> hex2bin_char (hexchars ! i) = int i"
  by (auto simp: hexchars_def hex2bin_char_def ord_def less_Suc_eq numeral_eq_Suc)

lemma hexchars_not_NUL: "i < 16 \<Longrightarrow> hexchars ! i \<noteq> CHR 0x00"
  by (auto simp: hexchars_def less_Suc_eq numeral_eq_Suc)

lemma nibble_bounds: "unat (drop_bit 4 (p :: u8)) < 16" "unat (p AND 0xf) < 16"
proof -
  show "unat (drop_bit 4 p) < 16"
  proof -
    have "take_bit 8 (unat p) = unat p" using u8_less_256 [of p] by (simp add: take_bit_nat_eq_self)
    then have "unat (drop_bit 4 p) = unat p div 16" by (simp add: drop_bit_eq_div unat_div)
    then show ?thesis using u8_less_256 [of p] by linarith
  qed
  have "p AND 0xf \<le> 0xf" by (rule word_and_le1)
  then show "unat (p AND 0xf) < 16" by (simp add: word_le_nat_alt)
qed

lemma join_nibbles: "push_bit 4 (drop_bit 4 p) OR (p AND 0xf) = (p :: u8)"
proof -
  have m: "(0xf :: u8) = mask 4" by (simp add: mask_eq_exp_minus_1)
  show ?thesis unfolding m by (rule bit_word_eqI) (auto simp: bit_simps not_less)
qed

lemma uint_not_neg [simp]: "uint w \<noteq> - 1"
  using uint_ge_0 [of w] by linarith

lemma hex2bin_bin2hex: "hex2bin (bin2hex p) (length p) = (True, p)"
proof (induction p)
  case Nil
  then show ?case by simp
next
  case (Cons b p)
  then show ?case
    by (auto simp: chat_def Let_def hexchars_nth nibble_bounds join_nibbles)
qed

lemma length_bin2hex [simp]: "length (bin2hex p) = 2 * length p"
  by (induction p) auto

lemma bin2hex_append: "bin2hex (p @ q) = bin2hex p @ bin2hex q"
  by (induction p) auto

lemma cstring_bin2hex: "cstring (bin2hex p)"
  unfolding cstring_def
proof (induction p)
  case (Cons b p)
  then show ?case
    using hexchars_not_NUL [OF nibble_bounds(1) [of b]] hexchars_not_NUL [OF nibble_bounds(2) [of b]]
    by (auto dest: sym)
qed simp

text \<open>Which strings \<open>hex2bin\<close> accepts, and what it makes of the rest.\<close>

definition is_hex :: "char \<Rightarrow> bool" where
  "is_hex c \<longleftrightarrow> hex2bin_char c \<noteq> - 1"

lemma is_hex_NUL [simp]: "\<not> is_hex (CHR 0x00)"
  by (simp add: is_hex_def hex2bin_char_def ord_def)

lemma hex2bin_ok_iff:
  assumes "cstring s"
  shows "fst (hex2bin s n) \<longleftrightarrow> length s = 2 * n \<and> list_all is_hex s"
  using assms
proof (induction n arbitrary: s)
  case 0
  then show ?case by (auto simp: chat_0_iff)
next
  case (Suc n)
  show ?case
  proof (cases s)
    case Nil
    then show ?thesis using is_hex_NUL by (simp add: Let_def is_hex_def)
  next
    case (Cons a s')
    then show ?thesis
    proof (cases s')
      case Nil
      then show ?thesis using \<open>s = a # s'\<close> is_hex_NUL by (simp add: Let_def is_hex_def)
    next
      case (Cons b s'')
      then have "cstring s''" using Suc.prems \<open>s = a # s'\<close> by (simp add: cstring_def)
      with Suc.IH [of s''] show ?thesis using \<open>s = a # s'\<close> Cons
        by (auto simp: Let_def is_hex_def split: prod.split)
    qed
  qed
qed

lemma length_hex2bin: "fst (hex2bin s n) \<Longrightarrow> length (snd (hex2bin s n)) = n"
  by (induction n arbitrary: s) (auto simp: Let_def split: prod.splits if_splits; metis fst_conv snd_conv)+

lemma hex2bin_writes_at_most: "length (snd (hex2bin s n)) \<le> n"
  by (induction n arbitrary: s) (auto simp: Let_def split: prod.splits; metis snd_conv)+

section \<open>UTF-8\<close>

text \<open>
  \<open>ucs2_to_utf8\<close> encodes 16-bit units; \<open>utf8_decode\<close> is the decoder as it is built, without
  \<^verbatim>\<open>STRICT_UTF8\<close> (nothing in the tree defines it). The decoder reads as many bytes as the lead byte
  announces; reading past the given memory is \<open>None\<close>. \<open>utf8_strlen\<close> works on a C string and never
  reads past its NUL.
\<close>

definition ucs2_unit :: "u16 \<Rightarrow> bytes" where
  "ucs2_unit c =
     (if c < 0x80 then [ucast c]
      else (if c < 0x800 then [ucast (0xc0 OR drop_bit 6 c)]
            else [ucast (0xe0 OR drop_bit 12 c), ucast (0x80 OR (drop_bit 6 c AND 0x3f))])
           @ [ucast (0x80 OR (c AND 0x3f))])"

fun ucs2_to_utf8 :: "u16 list \<Rightarrow> bytes" where
  "ucs2_to_utf8 [] = []"
| "ucs2_to_utf8 (c # cs) = ucs2_unit c @ ucs2_to_utf8 cs"

definition utf8_len :: "u8 \<Rightarrow> nat" where
  "utf8_len b =
     (if b AND 0x80 = 0 then 1
      else if b AND 0x20 = 0 then 2
      else if b AND 0x10 = 0 then 3
      else 4)"

definition utf8_decode :: "bytes \<Rightarrow> (u32 \<times> nat) option" where
  "utf8_decode s =
     (if s = [] then None
      else let out_len = utf8_len (s ! 0) in
        if out_len = 1 then Some (ucast (s ! 0), out_len)
        else if length s < out_len then None
        else let w = ucast (s ! 0) AND (push_bit (6 - out_len) 2 - 1)
             in Some (fold (\<lambda>i w. push_bit 6 w OR (ucast (s ! i) AND 0x3f)) [1..<out_len] w, out_len))"

text \<open>The loop that shortens a character whose bytes run into the NUL: \<open>clen\<close> changes while it runs.\<close>

function utf8_clip :: "bytes \<Rightarrow> nat \<Rightarrow> nat \<Rightarrow> nat" where
  "utf8_clip s i clen =
     (if i < clen then utf8_clip s (Suc i) (if i \<ge> length s \<or> s ! i = 0 then 1 else clen) else clen)"
  by pat_completeness auto
termination
  by (relation "measure (\<lambda>(s, i, clen). (clen + 1) - i)") auto

declare utf8_clip.simps [simp del]

lemma utf8_clip_pos: "0 < clen \<Longrightarrow> 0 < utf8_clip s i clen"
  by (induction s i clen rule: utf8_clip.induct) (subst utf8_clip.simps, auto)

lemma utf8_len_bounds: "1 \<le> utf8_len b \<and> utf8_len b \<le> 4"
  by (simp add: utf8_len_def)

function utf8_strlen :: "bytes \<Rightarrow> nat" where
  "utf8_strlen s =
     (if s = [] \<or> s ! 0 = 0 then 0
      else Suc (utf8_strlen (drop (utf8_clip s 0 (utf8_len (s ! 0))) s)))"
  by pat_completeness auto
termination
  by (relation "measure length") (use utf8_clip_pos utf8_len_bounds in \<open>auto simp: Suc_le_eq\<close>)

declare utf8_strlen.simps [simp del]

lemma utf8_masks:
  "(0x3f :: 'a::len word) = mask 6" "(0xc0 :: u16) = push_bit 6 (mask 2)"
  "(0xe0 :: u16) = push_bit 5 (mask 3)"
  by (simp_all add: mask_eq_exp_minus_1)

lemma bit_0x80:
  "bit (0x80 :: 'a::len word) j \<longleftrightarrow> j = 7 \<and> j < LENGTH('a)"
  "bit (0x80 :: nat) j \<longleftrightarrow> j = 7" "bit (0x80 :: int) j \<longleftrightarrow> j = 7"
proof -
  have e: "(0x80 :: 'a word) = 2 ^ 7" "(0x80 :: nat) = 2 ^ 7" "(0x80 :: int) = 2 ^ 7" by simp_all
  show "bit (0x80 :: 'a word) j \<longleftrightarrow> j = 7 \<and> j < LENGTH('a)" unfolding e by (simp only: bit_exp_iff) auto
  show "bit (0x80 :: nat) j \<longleftrightarrow> j = 7" unfolding e by (simp only: bit_exp_iff) auto
  show "bit (0x80 :: int) j \<longleftrightarrow> j = 7" unfolding e by (simp only: bit_exp_iff) auto
qed

lemma utf8_len_bits:
  "utf8_len b = (if \<not> bit b 7 then 1 else if \<not> bit b 5 then 2 else if \<not> bit b 4 then 3 else 4)"
proof -
  have "(0x80 :: u8) = 2 ^ 7" "(0x20 :: u8) = 2 ^ 5" "(0x10 :: u8) = 2 ^ 4" by simp_all
  then show ?thesis by (simp only: utf8_len_def and_exp_eq_0_iff_not_bit)
qed

lemma high_bits_clear:
  fixes c :: "'a::len word"
  assumes "unat c < 2 ^ k" "k \<le> j"
  shows "\<not> bit c j"
proof -
  have "(2::nat) ^ k \<le> 2 ^ j" using assms(2) by (rule power_increasing) simp
  then have "unat c div 2 ^ j = 0" using assms(1) by (intro div_less) linarith
  then have "\<not> bit (unat c) j" by (simp add: bit_iff_odd)
  then show ?thesis by (simp add: bit_unsigned_iff bit_imp_le_length)
qed

lemma utf8_decode_2:
  "utf8_len a = 2 \<Longrightarrow> utf8_decode (a # b # r) =
     Some (push_bit 6 (ucast a AND mask 5) OR (ucast b AND 0x3f), 2)"
  by (simp add: utf8_decode_def upt_rec mask_eq_exp_minus_1)

lemma utf8_decode_3:
  "utf8_len a = 3 \<Longrightarrow> utf8_decode (a # b # c # r) =
     Some (push_bit 6 (push_bit 6 (ucast a AND mask 4) OR (ucast b AND 0x3f)) OR (ucast c AND 0x3f), 3)"
  by (simp add: utf8_decode_def upt_rec mask_eq_exp_minus_1)

lemma ucs2_unit_decode:
  "utf8_decode (ucs2_unit c @ rest) = Some (ucast c, length (ucs2_unit c))"
proof -
  consider (one) "unat c < 2 ^ 7" | (two) "2 ^ 7 \<le> unat c" "unat c < 2 ^ 11" | (three) "2 ^ 11 \<le> unat c" by linarith
  then show ?thesis
  proof cases
    case one
    note hi = high_bits_clear [OF one]
    then have hi': "bit c j \<Longrightarrow> j < 7" for j by (meson not_less)
    have "ucs2_unit c = [ucast c]" using one by (simp add: ucs2_unit_def word_less_nat_alt)
    moreover have "(ucast (ucast c :: u8) :: u32) = ucast c"
      by (rule bit_word_eqI) (auto simp: bit_simps dest: hi')
    ultimately show ?thesis using hi by (simp add: utf8_decode_def utf8_len_bits bit_simps)
  next
    case two
    note hi = high_bits_clear [OF two(2)]
    then have hi': "bit c j \<Longrightarrow> j < 11" for j by (meson not_less)
    let ?l = "ucast (0xc0 OR drop_bit 6 c) :: u8"
    have u: "ucs2_unit c = [?l, ucast (0x80 OR (c AND 0x3f))]"
      using two by (simp add: ucs2_unit_def word_less_nat_alt)
    have l: "utf8_len ?l = 2"
      using hi unfolding utf8_len_bits utf8_masks by (simp add: bit_simps bit_0x80)
    have "push_bit 6 (ucast ?l AND mask 5) OR (ucast (ucast (0x80 OR (c AND 0x3f)) :: u8) AND 0x3f) = (ucast c :: u32)"
      unfolding utf8_masks
      by (rule bit_word_eqI) (auto simp: bit_simps bit_0x80 not_less dest: hi')
    then show ?thesis unfolding u by (simp only: utf8_decode_2 [OF l] append_Cons) simp
  next
    case three
    let ?l = "ucast (0xe0 OR drop_bit 12 c) :: u8"
    let ?m = "ucast (0x80 OR (drop_bit 6 c AND 0x3f)) :: u8"
    have u: "ucs2_unit c = [?l, ?m, ucast (0x80 OR (c AND 0x3f))]"
      using three by (simp add: ucs2_unit_def word_less_nat_alt)
    have hi': "bit c j \<Longrightarrow> j < 16" for j by (auto dest: bit_imp_le_length)
    have hi: "16 \<le> j \<Longrightarrow> \<not> bit c j" for j by (auto dest: bit_imp_le_length)
    have l: "utf8_len ?l = 3"
      using hi unfolding utf8_len_bits utf8_masks by (simp add: bit_simps bit_0x80)
    have "push_bit 6 (push_bit 6 (ucast ?l AND mask 4) OR (ucast ?m AND 0x3f))
        OR (ucast (ucast (0x80 OR (c AND 0x3f)) :: u8) AND 0x3f) = (ucast c :: u32)"
    proof (rule bit_word_eqI)
      fix k :: nat assume "k < LENGTH(32)"
      have "k < 6 \<or> 6 \<le> k \<and> k < 12 \<or> 12 \<le> k \<and> k < 16 \<or> 16 \<le> k" by linarith
      then show "bit (push_bit 6 (push_bit 6 (ucast ?l AND mask 4) OR (ucast ?m AND 0x3f))
        OR (ucast (ucast (0x80 OR (c AND 0x3f)) :: u8) AND 0x3f) :: u32) k = bit (ucast c :: u32) k"
        using hi \<open>k < LENGTH(32)\<close> unfolding utf8_masks
        by (elim disjE) (simp_all add: bit_simps bit_0x80 less_diff_conv2, linarith+)
    qed
    then show ?thesis unfolding u by (simp only: utf8_decode_3 [OF l] append_Cons) simp
  qed
qed

lemma bit_nonzero: "bit (w :: 'a::len word) k \<Longrightarrow> w \<noteq> 0"
  by auto

lemma ucs2_unit_bytes: "c \<noteq> 0 \<Longrightarrow> 0 \<notin> set (ucs2_unit c)"
proof -
  assume c: "c \<noteq> 0"
  have "(ucast c :: u8) \<noteq> 0" if "unat c < 0x80"
  proof -
    obtain k where k: "bit c k" using c bit_word_eqI [of c 0] by auto
    then have "k < 7" using high_bits_clear [of c 7 k] that by (force simp: not_less)
    with k have "bit (ucast c :: u8) k" by (simp add: bit_simps)
    then show ?thesis by auto
  qed
  moreover have "(ucast (0x80 OR x :: u16) :: u8) \<noteq> 0" for x
    by (rule bit_nonzero [of _ 7]) (simp add: bit_simps bit_0x80)
  moreover have "(ucast (0xc0 OR x :: u16) :: u8) \<noteq> 0" "(ucast (0xe0 OR x :: u16) :: u8) \<noteq> 0" for x
    unfolding utf8_masks by (rule bit_nonzero [of _ 7], simp add: bit_simps)+
  ultimately show ?thesis
    by (auto simp: ucs2_unit_def word_less_nat_alt eq_commute [of 0] simp del: unsigned_or_eq)
qed

lemma utf8_clip_all:
  assumes "\<And>j. i \<le> j \<Longrightarrow> j < clen \<Longrightarrow> j < length s \<and> s ! j \<noteq> 0"
  shows "utf8_clip s i clen = clen"
  using assms
  by (induction s i clen rule: utf8_clip.induct) (subst utf8_clip.simps, force)

lemma utf8_len_ucs2_unit: "utf8_len (ucs2_unit c ! 0) = length (ucs2_unit c)"
  using ucs2_unit_decode [of c "[]"]
  by (auto simp: utf8_decode_def Let_def split: if_splits)

lemma ucs2_unit_nonempty: "0 < length (ucs2_unit c)"
  by (simp add: ucs2_unit_def)

text \<open>Counting the characters of encoded text gives back the number of units.\<close>

lemma utf8_strlen_ucs2: "0 \<notin> set cs \<Longrightarrow> utf8_strlen (ucs2_to_utf8 cs) = length cs"
proof (induction cs)
  case Nil
  then show ?case by (simp add: utf8_strlen.simps)
next
  case (Cons c cs)
  let ?u = "ucs2_unit c" and ?s = "ucs2_to_utf8 (c # cs)"
  have nz: "j < length ?u \<Longrightarrow> ?u ! j \<noteq> 0" for j
    using ucs2_unit_bytes [of c] Cons.prems by (metis list.set_intros(1) nth_mem)
  have s0: "?s ! 0 = ?u ! 0" "?s \<noteq> []" using ucs2_unit_nonempty [of c] by (auto simp: nth_append)
  have "utf8_clip ?s 0 (utf8_len (?s ! 0)) = length ?u"
    unfolding s0 utf8_len_ucs2_unit by (rule utf8_clip_all) (use nz in \<open>auto simp: nth_append\<close>)
  then have "utf8_strlen ?s = Suc (utf8_strlen (ucs2_to_utf8 cs))"
    using s0 nz [of 0] ucs2_unit_nonempty [of c] by (subst utf8_strlen.simps) simp
  with Cons show ?case by simp
qed

section \<open>Character classes and comparison, as the C locale has them\<close>

definition isdigit :: "char \<Rightarrow> bool" where
  "isdigit c \<longleftrightarrow> ord CHR ''0'' \<le> ord c \<and> ord c \<le> ord CHR ''9''"

definition isspace :: "char \<Rightarrow> bool" where
  "isspace c \<longleftrightarrow> ord c = 32 \<or> (9 \<le> ord c \<and> ord c \<le> 13)"

definition isCalpha :: "char \<Rightarrow> bool" where
  "isCalpha c \<longleftrightarrow> (if ord c \<ge> ord CHR ''A'' \<and> ord c \<le> ord CHR ''Z'' then True
     else if ord c \<ge> ord CHR ''a'' \<and> ord c \<le> ord CHR ''z'' then True else False)"

definition tolower :: "char \<Rightarrow> char" where
  "tolower c = (if ord CHR ''A'' \<le> ord c \<and> ord c \<le> ord CHR ''Z'' then char_of (ord c + 32) else c)"

text \<open>\<^verbatim>\<open>strcasecmp\<close> and \<^verbatim>\<open>strncasecmp\<close> as tests for 0; a string ends at its NUL.\<close>

definition strcaseeq :: "string \<Rightarrow> string \<Rightarrow> bool" where
  "strcaseeq a b \<longleftrightarrow> map tolower a = map tolower b"

definition strncaseeq :: "string \<Rightarrow> string \<Rightarrow> nat \<Rightarrow> bool" where
  "strncaseeq a b n \<longleftrightarrow> strcaseeq (take n a) (take n b)"

section \<open>Searching\<close>

text \<open>A pointer into a string is an index; a failed search (a null pointer) is \<open>None\<close>.\<close>

fun is_prefix :: "string \<Rightarrow> string \<Rightarrow> bool" where
  "is_prefix [] s = True"
| "is_prefix (p # ps) [] = False"
| "is_prefix (p # ps) (c # s) = (p = c \<and> is_prefix ps s)"

fun strstr :: "string \<Rightarrow> string \<Rightarrow> nat option" where
  "strstr [] needle = (if needle = [] then Some 0 else None)"
| "strstr (c # s) needle =
     (if is_prefix needle (c # s) then Some 0 else map_option Suc (strstr s needle))"

definition strstr_from :: "string \<Rightarrow> nat \<Rightarrow> string \<Rightarrow> nat option" where
  "strstr_from s i needle = map_option (\<lambda>j. i + j) (strstr (drop i s) needle)"

text \<open>\<open>memchr s c a b\<close> searches the indices from \<open>a\<close> below \<open>b\<close>.\<close>

definition memchr :: "string \<Rightarrow> char \<Rightarrow> nat \<Rightarrow> nat \<Rightarrow> nat option" where
  "memchr s c a b = List.find (\<lambda>i. chat s i = c) [a..<b]"

fun my_memrchr :: "string \<Rightarrow> char \<Rightarrow> nat \<Rightarrow> nat option" where
  "my_memrchr s c 0 = None"
| "my_memrchr s c (Suc sz) = (if chat s sz = c then Some sz else my_memrchr s c sz)"

lemma my_memrchr_Some:
  "my_memrchr s c sz = Some i \<longleftrightarrow> i < sz \<and> chat s i = c \<and> (\<forall>j. i < j \<and> j < sz \<longrightarrow> chat s j \<noteq> c)"
  by (induction sz) (auto simp: less_Suc_eq)

lemma memchr_SomeD: "memchr s c a b = Some i \<Longrightarrow> a \<le> i \<and> i < b \<and> chat s i = c"
  by (auto simp: memchr_def find_Some_iff)

lemma memchr_None: "memchr s c a b = None \<longleftrightarrow> (\<forall>i. a \<le> i \<and> i < b \<longrightarrow> chat s i \<noteq> c)"
  by (auto simp: memchr_def find_None_iff)

section \<open>Tokens\<close>

text \<open>The tokens \<^verbatim>\<open>strtok_r\<close> yields: the non-empty runs between delimiter characters.\<close>

function tokens :: "string \<Rightarrow> string \<Rightarrow> string list" where
  "tokens delim s =
     (let s' = dropWhile (\<lambda>c. c \<in> set delim) s in
      if s' = [] then []
      else takeWhile (\<lambda>c. c \<notin> set delim) s' # tokens delim (dropWhile (\<lambda>c. c \<notin> set delim) s'))"
  by pat_completeness auto
termination
proof (relation "measure (length \<circ> snd)", goal_cases)
  case (2 delim s s')
  then have "s' \<noteq> []" "hd s' \<notin> set delim"
    using hd_dropWhile [of "\<lambda>c. c \<in> set delim" s] by simp_all
  then have "length (dropWhile (\<lambda>c. c \<notin> set delim) s') < length s'"
    by (cases s') (auto simp: le_imp_less_Suc length_dropWhile_le)
  moreover have "length s' \<le> length s" by (simp add: 2 length_dropWhile_le)
  ultimately show ?case by simp
qed simp

declare tokens.simps [simp del]

definition match_strtok :: "string \<Rightarrow> string \<Rightarrow> string \<Rightarrow> bool" where
  "match_strtok optlist delim needle \<longleftrightarrow> list_ex (\<lambda>el. strcaseeq el needle) (tokens delim optlist)"

section \<open>Copying helpers\<close>

text \<open>
  \<open>absolute_uri\<close> reads the last character of \<open>ref\<close>: an empty \<open>ref\<close> is read out of bounds
  (\<open>None\<close>).
\<close>

definition absolute_uri :: "string \<Rightarrow> string \<Rightarrow> string option" where
  "absolute_uri uri ref =
     (if strstr uri ''://'' \<noteq> None then Some uri
      else let copy_start = (if chat uri 0 = CHR ''/'' then drop 1 uri else uri) in
        if ref = [] then None
        else let need_slash = (last ref \<noteq> CHR ''/'')
             in Some (ref @ (if need_slash then ''/'' else []) @ copy_start))"

text \<open>
  \<open>trimmed_strdup\<close> finds the last character by \<^verbatim>\<open>strlen(s) - 1\<close>. When nothing but white space is
  there, that index is before the start of the text it looks at and the reads leave the string
  (\<open>None\<close>).
\<close>

definition trimmed_strdup :: "string \<Rightarrow> string option" where
  "trimmed_strdup s =
     (let s' = dropWhile isspace s in
      if s' = [] then None
      else Some (rev (dropWhile isspace (rev s'))))"

text \<open>
  \<open>sanestr\<close> is called on one buffer as input and output. \<open>k\<close> counts the characters read and \<open>out\<close>
  holds the ones written, so \<^verbatim>\<open>o != s\<close> is \<open>length out \<noteq> k\<close>; \<open>before\<close> is what lies in front of the
  buffer, where \<^verbatim>\<open>o[-1]\<close> points while nothing is written.
\<close>

definition sanechars :: "char \<Rightarrow> bool" where
  "sanechars c \<longleftrightarrow>
     (let i = ord c mod 128 in i = 45 \<or> (48 \<le> i \<and> i \<le> 57) \<or> (65 \<le> i \<and> i \<le> 90) \<or> (97 \<le> i \<and> i \<le> 122))"

fun sanestr_loop :: "char \<Rightarrow> nat \<Rightarrow> bool \<Rightarrow> string \<Rightarrow> string \<Rightarrow> string" where
  "sanestr_loop before k br out [] = out"
| "sanestr_loop before k br out (c # s) =
     (if sanechars c then
        (if br then sanestr_loop before (Suc k) False
           ((if isdigit c then out @ ''_'' else out) @ [c]) s
         else sanestr_loop before (Suc k) br (out @ [c]) s)
      else if length out \<noteq> k \<and> isdigit (if out = [] then before else last out)
        then sanestr_loop before (Suc k) True out s
      else sanestr_loop before (Suc k) br out s)"

definition sanestr :: "char \<Rightarrow> string \<Rightarrow> string" where
  "sanestr before s = sanestr_loop before 0 False [] s"

lemma sanestr_loop_chars:
  "set (sanestr_loop before k br out s) \<subseteq> set out \<union> {CHR ''_''} \<union> {c \<in> set s. sanechars c}"
  by (induction before k br out s rule: sanestr_loop.induct) auto

lemma trimmed_strdup_None: "trimmed_strdup s = None \<longleftrightarrow> list_all isspace s"
  by (auto simp: trimmed_strdup_def Let_def list_all_iff)

lemma trimmed_strdup_Some:
  assumes "trimmed_strdup s = Some r"
  shows "\<exists>pre post. s = pre @ r @ post \<and> list_all isspace pre \<and> list_all isspace post \<and>
    r \<noteq> [] \<and> \<not> isspace (hd r) \<and> \<not> isspace (last r)"
proof -
  let ?s' = "dropWhile isspace s" and ?pre = "takeWhile isspace s"
  have s': "?s' \<noteq> []" and r: "r = rev (dropWhile isspace (rev ?s'))"
    using assms by (auto simp: trimmed_strdup_def Let_def split: if_splits)
  let ?post = "rev (takeWhile isspace (rev ?s'))"
  have split: "?s' = r @ ?post"
    unfolding r by (metis rev_append rev_rev_ident takeWhile_dropWhile_id)
  have h: "\<not> isspace (hd ?s')" using s' by (rule hd_dropWhile)
  then have ex: "\<exists>x\<in>set (rev ?s'). \<not> isspace x" using s' by (metis hd_in_set set_rev)
  then have d: "dropWhile isspace (rev ?s') \<noteq> []" by (auto simp: dropWhile_eq_Nil_conv)
  then have "r \<noteq> []" by (simp add: r)
  moreover have "\<not> isspace (last r)" using hd_dropWhile [OF d] d by (simp add: r last_rev)
  moreover have "hd r = hd ?s'" using \<open>r \<noteq> []\<close> split by (metis hd_append2)
  moreover have "s = ?pre @ r @ ?post" using split by (metis takeWhile_dropWhile_id)
  moreover have "list_all isspace ?pre" "list_all isspace ?post"
    by (auto simp: list_all_iff dest: set_takeWhileD)
  ultimately show ?thesis using h by metis
qed

lemma sanestr_clean: "c \<in> set (sanestr before s) \<Longrightarrow> c = CHR ''_'' \<or> sanechars c"
  using sanestr_loop_chars [of before 0 False "[]" s] by (auto simp: sanestr_def)

text \<open>
  Digits that a removed character kept apart stay apart only when something was removed before.
\<close>

lemma sanestr_joins_digits: "sanestr before ''12 34'' = ''1234''"
  by (simp add: sanestr_def sanechars_def isdigit_def ord_def)

lemma sanestr_keeps_digits_apart: "sanestr before ''A 12 34'' = ''A12_34''"
  by (simp add: sanestr_def sanechars_def isdigit_def ord_def)

section \<open>Numbers and strings printed\<close>

fun nat_text :: "nat \<Rightarrow> string" where
  "nat_text n = (if n < 10 then [] else nat_text (n div 10)) @ [char_of (48 + n mod 10)]"

declare nat_text.simps [simp del]

definition int_text :: "int \<Rightarrow> string" where
  "int_text n = (if n < 0 then ''-'' else []) @ nat_text (nat \<bar>n\<bar>)"

text \<open>A null pointer printed with \<^verbatim>\<open>%s\<close>, as the C library does it.\<close>

definition str_text :: "string option \<Rightarrow> string" where
  "str_text s = (case s of None \<Rightarrow> ''(null)'' | Some t \<Rightarrow> t)"

end
