(* ===== verification/UriParams.thy ===== *)
theory UriParams
  imports TextCodec
begin

text \<open>
  Addresses, domains and URI parameters (\<^verbatim>\<open>util.c\<close>, with \<^verbatim>\<open>get_intrange\<close> and
  \<^verbatim>\<open>proc_letter_to_number\<close> of \<^verbatim>\<open>miner.c\<close>). Pointers into the argument string are indices.
\<close>

section \<open>Socket addresses\<close>

text \<open>The result is the address and the port stored on success, \<open>None\<close> where the code returns false.\<close>

definition extract_sockaddr :: "string \<Rightarrow> (string \<times> string) option" where
  "extract_sockaddr url =
     (let url_begin = (case strstr url ''//'' of None \<Rightarrow> url | Some i \<Rightarrow> drop (i + 2) url);
          ipv6_begin = strstr url_begin ''['';
          ipv6_end = strstr url_begin '']'';
          url_end = (case (ipv6_begin, ipv6_end) of
                       (Some b, Some e) \<Rightarrow> if e > b then strstr_from url_begin e '':''
                                           else strstr url_begin '':''
                     | _ \<Rightarrow> strstr url_begin '':'');
          url_len = (case url_end of Some e \<Rightarrow> e | None \<Rightarrow> length url_begin);
          port_len = (case url_end of Some e \<Rightarrow> int (length url_begin) - int e - 1 | None \<Rightarrow> 0)
      in if url_end \<noteq> None \<and> port_len < 1 then None
         else if url_len < 1 then None
         else let url_len = (if url_len \<ge> 256 then 255 else url_len);
                  url_address = take url_len url_begin;
                  port = (if port_len \<noteq> 0
                          then takeWhile (\<lambda>c. c \<noteq> CHR ''/'')
                                 (take 5 (take (nat port_len) (drop (the url_end + 1) url_begin)))
                          else ''80'')
              in Some (url_address, port))"

section \<open>Domains\<close>

text \<open>
  \<open>get_registered_domain\<close> walks back from the end; \<open>i\<close> is the index of the character looked at
  plus one. The result is the start of the domain and its length.
\<close>

fun get_registered_domain_loop :: "string \<Rightarrow> nat \<Rightarrow> nat \<Rightarrow> nat \<Rightarrow> nat \<times> nat" where
  "get_registered_domain_loop fqdn fqdnlen dots 0 = (0, fqdnlen)"
| "get_registered_domain_loop fqdn fqdnlen dots (Suc i) =
     (if chat fqdn i = CHR ''.'' then
        (let out_domainlen = fqdnlen - Suc i in
         if Suc dots \<ge> 2 \<and> out_domainlen > 5 then (Suc i, out_domainlen)
         else get_registered_domain_loop fqdn fqdnlen (Suc dots) i)
      else if \<not> (dots \<noteq> 0 \<or> isCalpha (chat fqdn i)) then (0, fqdnlen)
      else get_registered_domain_loop fqdn fqdnlen dots i)"

definition get_registered_domain :: "string \<Rightarrow> nat \<Rightarrow> nat \<times> nat" where
  "get_registered_domain fqdn fqdnlen = get_registered_domain_loop fqdn fqdnlen 0 fqdnlen"

text \<open>The slashes from an index on; the NUL at the end stops the walk.\<close>

definition skip_slashes :: "string \<Rightarrow> nat \<Rightarrow> nat" where
  "skip_slashes s i = i + length (takeWhile (\<lambda>c. c = CHR ''/'') (drop i s))"

definition all_digits :: "string \<Rightarrow> nat \<Rightarrow> nat \<Rightarrow> bool" where
  "all_digits s a b \<longleftrightarrow> list_all (\<lambda>i. isdigit (chat s i)) [a..<b]"

text \<open>
  \<open>extract_domain\<close> returns the start and the length of the host part. The code subtracts pointers
  where the start may have passed the end: \<open>None\<close> is such a call, which scans memory up to
  \<^verbatim>\<open>SIZE_MAX\<close> bytes, and the empty URI, whose first \<^verbatim>\<open>memchr\<close> has length -1.
\<close>

definition domain_end :: "string \<Rightarrow> nat" where
  "domain_end uri =
     (let urilen = length uri;
          p = memchr uri CHR ''/'' 1 urilen;
          p = (case p of
                 None \<Rightarrow> None
               | Some i \<Rightarrow> if chat uri (i - 1) = CHR '':''
                            then memchr uri CHR ''/'' (skip_slashes uri i) urilen
                            else Some i)
      in case p of
           Some i \<Rightarrow> i
         | None \<Rightarrow> (case memchr uri CHR ''?'' 0 urilen of
                       Some i \<Rightarrow> i
                     | None \<Rightarrow> (case memchr uri CHR ''#'' 0 urilen of Some i \<Rightarrow> i | None \<Rightarrow> urilen)))"

definition strip_port :: "string \<Rightarrow> nat \<Rightarrow> nat" where
  "strip_port uri p =
     (case my_memrchr uri CHR '':'' p of
        None \<Rightarrow> p
      | Some q \<Rightarrow> (let b = q + 1 in if all_digits uri b p \<and> p \<noteq> b then b - 1 else p))"

definition domain_begin :: "string \<Rightarrow> nat \<Rightarrow> nat" where
  "domain_begin uri p =
     (case memchr uri CHR '':'' 0 p of
        None \<Rightarrow> 0
      | Some b \<Rightarrow> if b = 0 \<or> \<not> all_digits uri 0 b then b + 1 else 0)"

definition extract_domain :: "string \<Rightarrow> (nat \<times> nat) option" where
  "extract_domain uri =
     (if uri = [] then None
      else let s = domain_end uri;
               p = strip_port uri s;
               b = domain_begin uri p;
               b = min (skip_slashes uri b) (p + 1)
           in if p < b then None
              else let (b, p) = (if p - b > 1 \<and> chat uri b = CHR ''['' \<and> chat uri (p - 1) = CHR '']''
                                 then (b + 1, p - 1)
                                 else if memchr uri CHR '':'' b p \<noteq> None then (b, s) else (b, p));
                       p = (if p > b \<and> chat uri (p - 1) = CHR ''.'' then p - 1 else p)
                   in Some (b, p - b))"

definition uri_domain :: "string \<Rightarrow> string option" where
  "uri_domain a =
     (case extract_domain a of
        None \<Rightarrow> None
      | Some (b, n) \<Rightarrow> (let d = drop b a; (b', n') = get_registered_domain d n in Some (take n' (drop b' d))))"

definition match_domains :: "string \<Rightarrow> string \<Rightarrow> bool option" where
  "match_domains a b =
     (case (uri_domain a, uri_domain b) of
        (Some da, Some db) \<Rightarrow> Some (if length da \<noteq> length db then False else strncaseeq da db (length da))
      | _ \<Rightarrow> None)"

section \<open>Numbers\<close>

text \<open>
  \<^verbatim>\<open>strtol\<close> with base 0: white space, a sign, then \<^verbatim>\<open>0x\<close> and hexadecimal digits, \<^verbatim>\<open>0\<close> and octal digits,
  or decimal digits. The result is the value, saturated to 64-bit \<^verbatim>\<open>long\<close>, and the index after the
  number; with no digits it is 0 and 0.
\<close>

definition digits_value :: "int \<Rightarrow> string \<Rightarrow> int" where
  "digits_value base ds = foldl (\<lambda>n d. n * base + hex2bin_char d) 0 ds"

definition clamp_long :: "int \<Rightarrow> int" where
  "clamp_long n = max (- (2 ^ 63)) (min (2 ^ 63 - 1) n)"

definition strtol0 :: "string \<Rightarrow> int \<times> nat" where
  "strtol0 s =
     (let i = length (takeWhile isspace s);
          neg = (chat s i = CHR ''-'');
          j = (if chat s i = CHR ''-'' \<or> chat s i = CHR ''+'' then i + 1 else i);
          r = drop j s;
          (base, k, ds) =
            (if chat r 0 = CHR ''0'' \<and> tolower (chat r 1) = CHR ''x'' \<and> is_hex (chat r 2)
             then (16, 2, takeWhile is_hex (drop 2 r))
             else if chat r 0 = CHR ''0'' then (8, 0, takeWhile (\<lambda>c. isdigit c \<and> ord c < 56) r)
             else (10, 0, takeWhile isdigit r))
      in if ds = [] then (0, 0)
         else (clamp_long ((if neg then - 1 else 1) * digits_value base ds), j + k + length ds))"

definition get_intrange :: "string \<Rightarrow> (int \<times> int) option" where
  "get_intrange arg =
     (let (v1, n) = strtol0 arg; val1 = int_of_long v1 in
      if n = 0 then None
      else let p = dropWhile isspace (drop n arg) in
        if p = [] then Some (val1, val1)
        else if chat p 0 \<noteq> CHR ''-'' then None
        else let p2 = drop 1 p; (v2, m) = strtol0 p2; val2 = int_of_long v2 in
          if m = 0 then None
          else if dropWhile isspace (drop m p2) = [] then Some (val1, val2) else None)"

text \<open>\<^verbatim>\<open>atoi\<close>: white space, a sign, decimal digits.\<close>

definition atoi :: "string \<Rightarrow> int" where
  "atoi s =
     (let r = dropWhile isspace s;
          neg = (chat r 0 = CHR ''-'');
          ds = takeWhile isdigit (if chat r 0 = CHR ''-'' \<or> chat r 0 = CHR ''+'' then tl r else r)
      in int_of_long (clamp_long ((if neg then - 1 else 1) * digits_value 10 ds)))"

text \<open>Letters to a number, base 26, stopping before an overflow of \<^verbatim>\<open>int\<close>.\<close>

fun proc_letter_to_number_loop :: "int \<Rightarrow> string \<Rightarrow> int \<times> string" where
  "proc_letter_to_number_loop n [] = (n, [])"
| "proc_letter_to_number_loop n (x # s) =
     (if n > (2 ^ 31 - 1) div 26 then (n, x # s)
      else let c = ord (tolower x) - ord CHR ''a'' in
        if c < 0 \<or> c > 25 then (n, x # s)
        else if 2 ^ 31 - 1 - c < n then (n, x # s)
        else proc_letter_to_number_loop (n * 26 + c) s)"

definition proc_letter_to_number :: "string \<Rightarrow> int \<times> string" where
  "proc_letter_to_number s = proc_letter_to_number_loop 0 s"

section \<open>Booleans\<close>

definition strtobool_keywords :: "(bool \<times> string) list" where
  "strtobool_keywords =
     [(False, ''disable''), (False, ''false''), (False, ''never''), (False, ''none''), (False, ''off''),
      (False, ''no''), (False, ''0''), (True, ''enable''), (True, ''always''), (True, ''force''),
      (True, ''true''), (True, ''yes''), (True, ''on'')]"

text \<open>The value and the index of the first character not used; 0 is no conversion.\<close>

definition bfg_strtobool :: "string \<Rightarrow> bool \<times> nat" where
  "bfg_strtobool s =
     (case List.find (\<lambda>(v, kw). strncaseeq kw s (length kw)) strtobool_keywords of
        Some (v, kw) \<Rightarrow> (v, length kw)
      | None \<Rightarrow> (let lend = snd (strtol0 s) in if lend > 0 then (True, lend) else (False, 0)))"

section \<open>Parameters in the fragment of a URI\<close>

datatype uri_param = ParamAbsent | ParamFound | ParamValue nat

text \<open>
  \<open>start\<close> is the index after the \<^verbatim>\<open>#\<close>. Each search goes on behind the last match; \<open>want_invert\<close> is
  whether the caller gave a place to report a \<^verbatim>\<open>no\<close> in front of the name. A match of a non-empty
  name lies after \<open>p0\<close> and before the end of the string: the first test is there for the
  termination proof and never taken (every caller passes a literal name).
\<close>

function uri_find_param_from :: "bool \<Rightarrow> string \<Rightarrow> string \<Rightarrow> nat \<Rightarrow> nat \<Rightarrow> uri_param \<times> bool" where
  "uri_find_param_from want_invert uri param start p0 =
     (case strstr_from uri (p0 + 1) param of
        None \<Rightarrow> (ParamAbsent, False)
      | Some p \<Rightarrow>
          (if p \<le> p0 \<or> length uri \<le> p then (ParamAbsent, False)
           else let q = p + length param in
             if isCalpha (chat uri q) then uri_find_param_from want_invert uri param start p
             else if want_invert \<and> p \<ge> start + 2 \<and> strncaseeq (drop (p - 2) uri) ''no'' 2
                     \<and> \<not> isCalpha (chat uri (p - 3))
               then (if chat uri q = CHR ''='' then ParamValue (q + 1) else ParamFound, True)
             else if isCalpha (chat uri (p - 1)) then uri_find_param_from want_invert uri param start p
             else (if chat uri q = CHR ''='' then ParamValue (q + 1) else ParamFound, False)))"
  by pat_completeness auto
termination
  by (relation "measure (\<lambda>(w, uri, param, start, p0). length uri - p0)") auto

declare uri_find_param_from.simps [simp del]

definition uri_find_param :: "bool \<Rightarrow> string \<Rightarrow> string \<Rightarrow> uri_param \<times> bool" where
  "uri_find_param want_invert uri param =
     (case strstr uri ''#'' of
        None \<Rightarrow> (ParamAbsent, False)
      | Some h \<Rightarrow> uri_find_param_from want_invert uri param (h + 1) h)"

datatype bfg_tristate = BTS_FALSE | BTS_TRUE | BTS_UNKNOWN

definition uri_get_param_bool2 :: "string \<Rightarrow> string \<Rightarrow> bfg_tristate" where
  "uri_get_param_bool2 uri param =
     (let (r, invert) = uri_find_param True uri param;
          answer = (\<lambda>found. if (if invert then \<not> found else found) then BTS_TRUE else BTS_FALSE)
      in case r of
           ParamAbsent \<Rightarrow> BTS_UNKNOWN
         | ParamFound \<Rightarrow> answer True
         | ParamValue q \<Rightarrow>
             (let (v, e) = bfg_strtobool (drop q uri)
              in answer (if e > 0 \<and> \<not> isCalpha (chat uri (q + e)) then v else True)))"

definition uri_get_param_bool :: "string \<Rightarrow> string \<Rightarrow> bool \<Rightarrow> bool" where
  "uri_get_param_bool uri param defval =
     (case uri_get_param_bool2 uri param of
        BTS_UNKNOWN \<Rightarrow> defval
      | BTS_TRUE \<Rightarrow> True
      | BTS_FALSE \<Rightarrow> False)"

definition pool_may_redirect_to :: "string \<Rightarrow> string \<Rightarrow> bool option" where
  "pool_may_redirect_to rpc_url uri =
     (if uri_get_param_bool rpc_url ''redirect'' False then Some True else match_domains rpc_url uri)"

section \<open>What holds of them\<close>

lemma strstr_absent: "c \<in> set needle \<Longrightarrow> c \<notin> set s \<Longrightarrow> strstr s needle = None"
proof (induction s)
  case (Cons a s)
  have "\<not> is_prefix needle t" if "c \<notin> set t" for t
    using that Cons.prems(1) by (induction needle t rule: is_prefix.induct) auto
  with Cons show ?case by auto
qed auto

lemma strstr_skip:
  "hd needle \<notin> set s \<Longrightarrow> needle \<noteq> [] \<Longrightarrow> strstr (s @ needle @ r) needle = Some (length s)"
proof (induction s)
  case Nil
  have "is_prefix needle (needle @ r)" by (induction needle) auto
  with Nil show ?case by (cases needle) auto
next
  case (Cons a s)
  then have "\<not> is_prefix needle (a # s @ needle @ r)" by (cases needle) auto
  with Cons show ?case by simp
qed

lemma extract_sockaddr_host_port:
  assumes "CHR ''/'' \<notin> set scheme" "set host \<inter> set ''/:[]'' = {}" "set port \<inter> set ''/[]'' = {}"
    and "host \<noteq> []" "length host < 256" "port \<noteq> []" "length port \<le> 5"
  shows "extract_sockaddr (scheme @ ''//'' @ host @ '':'' @ port) = Some (host, port)"
proof -
  have a: "strstr (scheme @ ''//'' @ host @ '':'' @ port) ''//'' = Some (length scheme)"
    using assms(1) by (intro strstr_skip) auto
  have b: "strstr (host @ '':'' @ port) ''['' = None"
    using assms by (intro strstr_absent [of "CHR ''[''"]) auto
  have c: "strstr (host @ '':'' @ port) '':'' = Some (length host)"
    using assms(2) by (intro strstr_skip) auto
  have d: "takeWhile (\<lambda>c. c \<noteq> CHR ''/'') port = port"
    using assms(3) by (auto simp: takeWhile_eq_all_conv)
  have e: "drop (length scheme + 2) (scheme @ ''//'' @ host @ '':'' @ port) = host @ '':'' @ port"
    by simp
  show ?thesis
    unfolding extract_sockaddr_def Let_def a option.case e b c prod.case
    using assms d by simp
qed

lemma domain_end_le: "domain_end uri \<le> length uri"
  by (auto simp: domain_end_def Let_def split: option.split if_splits dest!: memchr_SomeD)

lemma strip_port_le: "strip_port uri p \<le> p"
  by (auto simp: strip_port_def Let_def my_memrchr_Some split: option.split)

lemma extract_domain_bounds:
  assumes "extract_domain uri = Some (b, n)"
  shows "b + n \<le> length uri"
proof -
  have "strip_port uri (domain_end uri) \<le> length uri"
    using strip_port_le domain_end_le le_trans by blast
  then show ?thesis
    using assms domain_end_le [of uri] strip_port_le [of uri "domain_end uri"]
    by (auto simp: extract_domain_def Let_def split: if_splits)
qed

lemma get_registered_domain_loop_suffix:
  "i \<le> n \<Longrightarrow> get_registered_domain_loop fqdn n dots i = (b, m) \<Longrightarrow> b + m = n"
  by (induction fqdn n dots i rule: get_registered_domain_loop.induct) (auto simp: Let_def split: if_splits)

lemma strncaseeq_len: "length a = length b \<Longrightarrow> strncaseeq a b (length b) = strcaseeq a b"
  by (simp add: strncaseeq_def)

lemma strcaseeq_length: "strcaseeq a b \<Longrightarrow> length a = length b"
  unfolding strcaseeq_def by (metis length_map)

lemma match_domains_iff:
  "match_domains a b = Some True \<longleftrightarrow>
   (\<exists>da db. uri_domain a = Some da \<and> uri_domain b = Some db \<and> strcaseeq da db)"
  by (auto simp: match_domains_def strncaseeq_len dest: strcaseeq_length split: option.splits)

lemma match_domains_sym: "match_domains a b = Some True \<Longrightarrow> match_domains b a = Some True"
  by (auto simp: match_domains_iff strcaseeq_def)

lemma match_domains_trans:
  "match_domains a b = Some True \<Longrightarrow> match_domains b c = Some True \<Longrightarrow> match_domains a c = Some True"
  by (auto simp: match_domains_iff strcaseeq_def)

lemma proc_letter_loop_bounds:
  "0 \<le> n \<Longrightarrow> n \<le> 26 * ((2 ^ 31 - 1) div 26) + 25 \<Longrightarrow> proc_letter_to_number_loop n s = (m, r) \<Longrightarrow>
   0 \<le> m \<and> m \<le> 26 * ((2 ^ 31 - 1) div 26) + 25 \<and> (\<exists>pre. s = pre @ r)"
proof (induction n s rule: proc_letter_to_number_loop.induct)
  case (2 n x s)
  let ?c = "ord (tolower x) - ord CHR ''a''"
  show ?case
  proof (cases "n > (2 ^ 31 - 1) div 26 \<or> ?c < 0 \<or> ?c > 25 \<or> 2 ^ 31 - 1 - ?c < n")
    case True
    then have "m = n \<and> r = x # s" using 2(4) by (auto simp: Let_def split: if_splits)
    then show ?thesis using 2(2,3) by auto
  next
    case False
    then have "proc_letter_to_number_loop (n * 26 + ?c) s = (m, r)"
      using 2(4) by (auto simp: Let_def)
    moreover have "0 \<le> n * 26 + ?c" "n * 26 + ?c \<le> 26 * ((2 ^ 31 - 1) div 26) + 25"
      using False 2(2) by auto
    ultimately have "0 \<le> m \<and> m \<le> 26 * ((2 ^ 31 - 1) div 26) + 25 \<and> (\<exists>pre. s = pre @ r)"
      using 2(1) False by blast
    then show ?thesis by (metis append_Cons)
  qed
qed auto

text \<open>Device letters read as a base-26 number give a value between 0 and \<^verbatim>\<open>INT_MAX\<close> + 2, and what
  is left unread is the end of the input.\<close>

lemma proc_letter_to_number_bounds:
  "proc_letter_to_number s = (m, r) \<Longrightarrow> 0 \<le> m \<and> m \<le> 2 ^ 31 + 1 \<and> (\<exists>pre. s = pre @ r)"
  using proc_letter_loop_bounds [of 0 s m r] by (simp add: proc_letter_to_number_def)

lemma proc_letter_to_number_bounds_witness:
  "proc_letter_to_number ''zb!'' = (651, ''!'') \<and> (0::int) \<le> 651 \<and> 651 \<le> (2::int) ^ 31 + 1 \<and> (\<exists>pre. ''zb!'' = pre @ ''!'')"
proof -
  have "proc_letter_to_number ''zb!'' = (651, ''!'')" by code_simp
  then show ?thesis using proc_letter_to_number_bounds [of "''zb!''" 651 "''!''"] by blast
qed

text \<open>The guard lets the last letter pass \<^verbatim>\<open>INT_MAX\<close>.\<close>

lemma proc_letter_to_number_overflow:
  "fst (proc_letter_to_number ''gytisyy'') = 2 ^ 31"
  by code_simp

section \<open>The test tables of the program\<close>

definition extract_domain_tests :: "(string \<times> string) list" where
  "extract_domain_tests =
     [(''s.m.eligius.st'', ''http://s.m.eligius.st:3334''),
      (''s.m.eligius.st'', ''http://s.m.eligius.st:3334/abc/abc/''),
      (''s.m.eligius.st'', ''http://s.m.eligius.st/abc/abc/''),
      (''s.m.eligius.st'', ''http://s.m.eligius.st''),
      (''s.m.eligius.st'', ''http:s.m.eligius.st''),
      (''s.m.eligius.st'', ''stratum+tcp:s.m.eligius.st''),
      (''s.m.eligius.st'', ''stratum+tcp:s.m.eligius.st:3334''),
      (''s.m.eligius.st'', ''stratum+tcp://s.m.eligius.st:3334''),
      (''s.m.eligius.st'', ''stratum+tcp://s.m.eligius.st:3334///''),
      (''s.m.eligius.st'', ''stratum+tcp://s.m.eligius.st.:3334///''),
      (''s.m.eligius.st'', ''s.m.eligius.st:3334''),
      (''s.m.eligius.st'', ''s.m.eligius.st:3334///''),
      (''s.m.eligius.st'', ''http://s.m.eligius.st:3334#foo''),
      (''s.m.eligius.st'', ''http://s.m.eligius.st:3334?foo''),
      (''s.m.eligius.st'', ''http://s.m.eligius.st#foo''),
      (''s.m.eligius.st'', ''http://s.m.eligius.st?foo''),
      (''s.m.eligius.st'', ''s.m.eligius.st#foo''),
      (''s.m.eligius.st'', ''s.m.eligius.st?foo''),
      (''s.m.eligius.st'', ''s.m.eligius.st:3334#foo''),
      (''s.m.eligius.st'', ''s.m.eligius.st:3334?foo''),
      (''foohost'', ''foohost:3334''),
      (''foohost'', ''foohost:3334///''),
      (''foohost'', ''foohost:3334/abc.com//''),
      ('''', ''foohost:''),
      (''3334'', ''foohost://3334/abc.com//''),
      (''192.0.2.0'', ''foohost:192.0.2.0''),
      (''192.0.2.0'', ''192.0.2.0:3334''),
      (''192.0.2.0'', ''192.0.2.0:3334///''),
      (''2001:db8::1'', ''2001:db8::1''),
      (''2001:db8::1'', ''http://[2001:db8::1]''),
      (''2001:db8::1'', ''http:[2001:db8::1]''),
      (''2001:db8::1'', ''http://[2001:db8::1]:42''),
      (''2001:db8::1'', ''http://[2001:db8::1]:42/abc//def/ghi''),
      (''2001:db8::cafe'', ''http://[2001:db8::cafe]''),
      (''2001:db8::cafe'', ''http:[2001:db8::cafe]''),
      (''2001:db8::cafe'', ''http://[2001:db8::cafe]:42''),
      (''2001:db8::cafe'', ''http://[2001:db8::cafe]:42/abc//def/ghi'')]"

definition get_regd_domain_tests :: "(string \<times> string) list" where
  "get_regd_domain_tests =
     [(''eligius.st'', ''s.m.eligius.st''),
      (''eligius.st'', ''eligius.st''),
      (''foohost.co.uk'', ''myserver.foohost.co.uk''),
      (''foohost'', ''foohost''),
      (''192.0.2.0'', ''192.0.2.0''),
      (''2001:db8::1'', ''2001:db8::1'')]"

definition domain_test :: "string \<times> string \<Rightarrow> bool" where
  "domain_test = (\<lambda>(expect, uri). case extract_domain uri of
       None \<Rightarrow> False | Some (b, n) \<Rightarrow> take n (drop b uri) = expect)"

definition regd_domain_test :: "string \<times> string \<Rightarrow> bool" where
  "regd_domain_test = (\<lambda>(expect, fqdn).
     let (b, n) = get_registered_domain fqdn (length fqdn) in take n (drop b fqdn) = expect)"

lemma extract_domain_tests_pass: "list_all domain_test extract_domain_tests"
  by code_simp

lemma get_regd_domain_tests_pass: "list_all regd_domain_test get_regd_domain_tests"
  by code_simp

definition uri_get_param_tests :: "(string \<times> bool \<times> bool) list" where
  "uri_get_param_tests =
     [(''stratum+tcp://footest/#redirect'', False, True),
      (''stratum+tcp://footest/#redirectme'', False, False),
      (''stratum+tcp://footest/#noredirect'', False, False),
      (''stratum+tcp://footest/#redirect=0'', False, False),
      (''stratum+tcp://footest/#redirect=1'', False, True),
      (''stratum+tcp://footest/#redirect'', True, True),
      (''stratum+tcp://footest/#redirectme'', True, True),
      (''stratum+tcp://footest/#noredirect'', True, False),
      (''stratum+tcp://footest/#redirect=0'', True, False),
      (''stratum+tcp://footest/#redirect=1'', True, True),
      (''stratum+tcp://footest/#redirect=0,foo=1'', True, False),
      (''stratum+tcp://footest/#redirect=1,foo=0'', False, True),
      (''stratum+tcp://footest/#foo=1,noredirect=0,foo=1'', False, True),
      (''stratum+tcp://footest/#bar=0,noredirect=1,foo=0'', True, False),
      (''stratum+tcp://footest/#redirect=false'', True, False),
      (''stratum+tcp://footest/#redirect=no'', True, False),
      (''stratum+tcp://footest/#redirect=yes'', False, True)]"

lemma uri_get_param_tests_pass:
  "list_all (\<lambda>(uri, defval, expect). uri_get_param_bool uri ''redirect'' defval = expect)
     uri_get_param_tests"
  by code_simp

lemma uri_find_param_tests_pass:
  "uri_find_param False ''stratum+tcp://footest/#redirect'' ''redirect'' = (ParamFound, False) \<and>
   uri_find_param False ''stratum+tcp://footest/#redirectme'' ''redirect'' = (ParamAbsent, False) \<and>
   uri_find_param False ''stratum+tcp://footest/#noredirect'' ''redirect'' = (ParamAbsent, False) \<and>
   uri_find_param True ''stratum+tcp://footest/#noredirect'' ''redirect'' = (ParamFound, True) \<and>
   uri_find_param True ''stratum+tcp://footest/#redirect'' ''redirect'' = (ParamFound, False) \<and>
   uri_find_param False ''stratum+tcp://footest/#redirect='' ''redirect'' = (ParamValue 32, False) \<and>
   uri_find_param True ''stratum+tcp://footest/#noredirect='' ''redirect'' = (ParamValue 34, True)"
  by code_simp

lemma get_intrange_tests_pass:
  "get_intrange ''-1--2'' = Some (- 1, - 2) \<and>
   get_intrange ''-1-2'' = Some (- 1, 2) \<and>
   get_intrange ''1--2'' = Some (1, - 2) \<and>
   get_intrange ''1-2'' = Some (1, 2) \<and>
   get_intrange ''111-222'' = Some (111, 222) \<and>
   get_intrange '' 11 - 22 '' = Some (11, 22) \<and>
   get_intrange ''+11-+22'' = Some (11, 22) \<and>
   get_intrange ''-1'' = Some (- 1, - 1) \<and>
   get_intrange ''all'' = None \<and>
   get_intrange ''1-'' = None \<and>
   get_intrange '''' = None \<and>
   get_intrange ''1-54x'' = None"
  by code_simp

lemma bfg_strtobool_keywords:
  "list_all (\<lambda>(v, kw). bfg_strtobool kw = (v, length kw)) strtobool_keywords"
  by code_simp

section \<open>Numbers printed and read\<close>

lemma hex2bin_digit: "k < 10 \<Longrightarrow> hex2bin_char (char_of (48 + k)) = int k"
proof -
  have "\<forall>k\<in>{0..<10}. hex2bin_char (char_of (48 + k)) = int k" by code_simp
  then show "k < 10 \<Longrightarrow> hex2bin_char (char_of (48 + k)) = int k" by simp
qed

lemma isdigit_digit: "k < 10 \<Longrightarrow> isdigit (char_of (48 + k :: nat))"
proof -
  have "\<forall>k\<in>{0..<10::nat}. isdigit (char_of (48 + k))" by code_simp
  then show "k < 10 \<Longrightarrow> isdigit (char_of (48 + k :: nat))" by simp
qed

lemma nat_text_digits: "(\<forall>c\<in>set (nat_text n). isdigit c) \<and> nat_text n \<noteq> [] \<and> digits_value 10 (nat_text n) = int n"
proof (induction n rule: nat_text.induct)
  case (1 n)
  show ?case
  proof (cases "n < 10")
    case True
    then show ?thesis by (simp add: nat_text.simps [of n] digits_value_def hex2bin_digit isdigit_digit)
  next
    case False
    have "n mod 10 < 10" by simp
    then show ?thesis using 1 [OF False] False
      by (simp add: nat_text.simps [of n] digits_value_def hex2bin_digit isdigit_digit) presburger
  qed
qed

text \<open>What a digit is not.\<close>

definition plain_digit :: "char \<Rightarrow> bool" where
  "plain_digit c \<longleftrightarrow> \<not> isspace c \<and> c \<noteq> CHR ''-'' \<and> c \<noteq> CHR ''+'' \<and> c \<noteq> CHR ''@'' \<and> tolower c = c \<and> c \<noteq> CHR ''d''"

lemma plain_digit: "isdigit c \<Longrightarrow> plain_digit c"
proof -
  assume "isdigit c"
  then have "int (of_char c) \<in> {48..57}" unfolding of_nat_of_char by (simp add: isdigit_def ord_def)
  then have "of_char c \<in> {48..57::nat}" by simp
  moreover have "\<forall>m\<in>{48..57::nat}. plain_digit (char_of m)" by code_simp
  ultimately show ?thesis by (metis char_of_char)
qed

lemma atoi_nat_text: "n < 2 ^ 31 \<Longrightarrow> atoi (nat_text n) = int n"
proof -
  assume n: "n < 2 ^ 31"
  have d: "\<forall>c\<in>set (nat_text n). isdigit c" "digits_value 10 (nat_text n) = int n" using nat_text_digits [of n] by auto
  obtain x xs where x: "nat_text n = x # xs" using nat_text_digits [of n] by (cases "nat_text n") auto
  have o: "\<not> isspace x" "x \<noteq> CHR ''-''" "x \<noteq> CHR ''+''" using plain_digit [of x] d x by (auto simp: plain_digit_def)
  have tw: "takeWhile isdigit (x # xs) = x # xs" using d(1) unfolding x by (simp add: takeWhile_eq_all_conv)
  have dw: "dropWhile isspace (x # xs) = x # xs" "chat (x # xs) 0 = x" using o(1) by (simp_all add: chat_def)
  have v: "digits_value 10 (x # xs) = int n" using d(2) unfolding x .
  have "int_of_long (clamp_long (int n)) = int n"
  proof -
    have "clamp_long (int n) = int n" using n by (simp add: clamp_long_def)
    then show ?thesis using n by (simp add: int_of_long_id)
  qed
  then show ?thesis unfolding atoi_def Let_def x dw by (simp add: o tw v del: takeWhile.simps)
qed

end
