(* ===== verification/Timers.thy ===== *)
theory Timers
  imports Prelude "HOL-Library.Signed_Division"
begin

text \<open>
  Times and timers (\<^verbatim>\<open>util.h\<close>, \<^verbatim>\<open>util.c\<close>) and the mining schedule (\<^verbatim>\<open>should_run\<close> of \<^verbatim>\<open>miner.c\<close>).
  \<^verbatim>\<open>struct timeval\<close> and \<^verbatim>\<open>struct timespec\<close> are records over \<open>int\<close> (both members are 64-bit; the
  times of a running clock are far from that bound). Division and remainder of C truncate towards
  zero: \<^verbatim>\<open>sdiv\<close> and \<^verbatim>\<open>smod\<close>. Where the code takes a null pointer for the current time, the model
  takes the time itself.
\<close>

section \<open>Times\<close>

record timeval =
  tv_sec :: int
  tv_usec :: int

record timespec =
  ts_sec :: int
  ts_nsec :: int

abbreviation tv :: "int \<Rightarrow> int \<Rightarrow> timeval" where
  "tv s u \<equiv> \<lparr>tv_sec = s, tv_usec = u\<rparr>"

text \<open>The macros of the C library.\<close>

definition timeradd :: "timeval \<Rightarrow> timeval \<Rightarrow> timeval" where
  "timeradd a b =
     (let s = tv_sec a + tv_sec b; u = tv_usec a + tv_usec b
      in if u \<ge> 1000000 then tv (s + 1) (u - 1000000) else tv s u)"

definition timersub :: "timeval \<Rightarrow> timeval \<Rightarrow> timeval" where
  "timersub a b =
     (let s = tv_sec a - tv_sec b; u = tv_usec a - tv_usec b
      in if u < 0 then tv (s - 1) (u + 1000000) else tv s u)"

definition timer_less :: "timeval \<Rightarrow> timeval \<Rightarrow> bool" where
  "timer_less a b \<longleftrightarrow> (if tv_sec a = tv_sec b then tv_usec a < tv_usec b else tv_sec a < tv_sec b)"

definition subtime :: "timeval \<Rightarrow> timeval \<Rightarrow> timeval" where
  "subtime a b = timersub a b"

definition addtime :: "timeval \<Rightarrow> timeval \<Rightarrow> timeval" where
  "addtime a b = timeradd a b"

definition time_more :: "timeval \<Rightarrow> timeval \<Rightarrow> bool" where
  "time_more a b \<longleftrightarrow> (if tv_sec a = tv_sec b then tv_usec a > tv_usec b else tv_sec a > tv_sec b)"

definition time_less :: "timeval \<Rightarrow> timeval \<Rightarrow> bool" where
  "time_less a b \<longleftrightarrow> timer_less a b"

definition timespec_to_val :: "timespec \<Rightarrow> timeval" where
  "timespec_to_val spec = tv (ts_sec spec) (ts_nsec spec sdiv 1000)"

definition timeval_to_spec :: "timeval \<Rightarrow> timespec" where
  "timeval_to_spec val = \<lparr>ts_sec = tv_sec val, ts_nsec = tv_usec val * 1000\<rparr>"

definition us_to_timeval :: "int \<Rightarrow> timeval" where
  "us_to_timeval us = tv (us sdiv 1000000) (us smod 1000000)"

definition us_to_timespec :: "int \<Rightarrow> timespec" where
  "us_to_timespec us = \<lparr>ts_sec = us sdiv 1000000, ts_nsec = us smod 1000000 * 1000\<rparr>"

definition ms_to_timespec :: "int \<Rightarrow> timespec" where
  "ms_to_timespec ms = \<lparr>ts_sec = ms sdiv 1000, ts_nsec = ms smod 1000 * 1000000\<rparr>"

definition timeraddspec :: "timespec \<Rightarrow> timespec \<Rightarrow> timespec" where
  "timeraddspec a b =
     (let s = ts_sec a + ts_sec b; n = ts_nsec a + ts_nsec b
      in if n \<ge> 1000000000 then \<lparr>ts_sec = s + 1, ts_nsec = n - 1000000000\<rparr>
         else \<lparr>ts_sec = s, ts_nsec = n\<rparr>)"

section \<open>Timers\<close>

definition timer_unset :: "timeval \<Rightarrow> timeval" where
  "timer_unset t = t\<lparr>tv_sec := - 1\<rparr>"

definition timer_isset :: "timeval \<Rightarrow> bool" where
  "timer_isset t \<longleftrightarrow> tv_sec t \<noteq> - 1"

definition TIMEVAL_USECS :: "int \<Rightarrow> timeval" where
  "TIMEVAL_USECS usecs = tv (usecs sdiv 1000000) (usecs smod 1000000)"

definition timeval_to_us :: "timeval \<Rightarrow> int" where
  "timeval_to_us t = tv_sec t * 1000000 + tv_usec t"

definition timer_set_delay :: "timeval \<Rightarrow> int \<Rightarrow> timeval" where
  "timer_set_delay now usecs = timeradd (TIMEVAL_USECS usecs) now"

definition timer_elapsed_us :: "timeval \<Rightarrow> timeval \<Rightarrow> int" where
  "timer_elapsed_us timer now = timeval_to_us (timersub now timer)"

definition ms_tdiff :: "timeval \<Rightarrow> timeval \<Rightarrow> int" where
  "ms_tdiff finish start = timer_elapsed_us start finish sdiv 1000"

text \<open>\<open>int\<close> receives the low 32 bits of the 64-bit seconds.\<close>

definition timer_elapsed :: "timeval \<Rightarrow> timeval \<Rightarrow> int" where
  "timer_elapsed timer now = int_of_long (tv_sec (timersub now timer))"

definition timer_remaining_us :: "timeval \<Rightarrow> timeval \<Rightarrow> int" where
  "timer_remaining_us timer now = timeval_to_us (timersub timer now)"

definition timer_passed :: "timeval \<Rightarrow> timeval \<Rightarrow> bool" where
  "timer_passed timer now \<longleftrightarrow> timer_isset timer \<and> timer_less timer now"

definition reduce_timeout_to :: "timeval \<Rightarrow> timeval \<Rightarrow> timeval" where
  "reduce_timeout_to timeout time =
     (if \<not> timer_isset time then timeout
      else if \<not> timer_isset timeout \<or> timer_less time timeout then time
      else timeout)"

definition select_timeout :: "timeval \<Rightarrow> timeval \<Rightarrow> timeval option" where
  "select_timeout timeout now =
     (if \<not> timer_isset timeout then None
      else if timer_less timeout now then Some (tv 0 0)
      else Some (timersub timeout now))"

section \<open>What holds of times\<close>

text \<open>A normalised time: the microseconds are below a second.\<close>

definition tv_ok :: "timeval \<Rightarrow> bool" where
  "tv_ok t \<longleftrightarrow> 0 \<le> tv_usec t \<and> tv_usec t < 1000000"

lemma tv_ok_timeradd: "tv_ok a \<Longrightarrow> tv_ok b \<Longrightarrow> tv_ok (timeradd a b)"
  by (auto simp: tv_ok_def timeradd_def Let_def)

lemma tv_ok_timersub: "tv_ok a \<Longrightarrow> tv_ok b \<Longrightarrow> tv_ok (timersub a b)"
  by (auto simp: tv_ok_def timersub_def Let_def)

lemma timeval_to_us_add [simp]: "timeval_to_us (timeradd a b) = timeval_to_us a + timeval_to_us b"
  by (auto simp: timeval_to_us_def timeradd_def Let_def)

lemma timeval_to_us_sub [simp]: "timeval_to_us (timersub a b) = timeval_to_us a - timeval_to_us b"
  by (auto simp: timeval_to_us_def timersub_def Let_def)

lemma sdiv_smod_us: "(u :: int) sdiv k * k + u smod k = u"
  by (rule sdiv_mult_smod_eq)

lemma timeval_to_us_USECS [simp]: "timeval_to_us (TIMEVAL_USECS u) = u"
  unfolding TIMEVAL_USECS_def timeval_to_us_def using sdiv_smod_us [of u 1000000] by simp

lemma us_to_timeval_inverse [simp]: "timeval_to_us (us_to_timeval u) = u"
  unfolding us_to_timeval_def timeval_to_us_def using sdiv_smod_us [of u 1000000] by simp

lemma tv_ok_USECS: "0 \<le> u \<Longrightarrow> tv_ok (TIMEVAL_USECS u)"
  by (cases "u = 0") (simp_all add: tv_ok_def TIMEVAL_USECS_def signed_modulo_int_def)

lemma timer_less_iff: "tv_ok a \<Longrightarrow> tv_ok b \<Longrightarrow> timer_less a b \<longleftrightarrow> timeval_to_us a < timeval_to_us b"
  by (auto simp: tv_ok_def timer_less_def timeval_to_us_def)

lemma timeval_parts: "tv_ok t \<Longrightarrow> tv_sec t = timeval_to_us t div 1000000 \<and> tv_usec t = timeval_to_us t mod 1000000"
  by (simp add: tv_ok_def timeval_to_us_def)

lemma timeval_eqI: "tv_ok a \<Longrightarrow> tv_ok b \<Longrightarrow> timeval_to_us a = timeval_to_us b \<Longrightarrow> a = b"
  by (rule timeval.equality) (simp_all add: timeval_parts)

lemma time_more_less: "time_more a b = time_less b a"
  by (auto simp: time_more_def time_less_def timer_less_def)

lemma timespec_roundtrip: "timespec_to_val (timeval_to_spec t) = t"
  by (simp add: timespec_to_val_def timeval_to_spec_def signed_divide_int_def sgn_mult abs_mult mult.commute [of "sgn _"] abs_mult_sgn)

text \<open>A timer set \<open>u\<close> microseconds ahead reads \<open>u\<close> microseconds remaining, has not passed at that
  time or up to \<open>u\<close> microseconds later, and has passed at every later time.\<close>

lemma timer_set_delay_spec:
  assumes "tv_ok now" "tv_ok later" "0 \<le> u" "0 \<le> tv_sec now"
  shows "timer_remaining_us (timer_set_delay now u) now = u \<and>
         (timer_passed (timer_set_delay now u) later \<longleftrightarrow> u < timer_elapsed_us now later)"
proof -
  have ok: "tv_ok (timer_set_delay now u)"
    using assms by (simp add: timer_set_delay_def tv_ok_timeradd tv_ok_USECS)
  have "0 \<le> timeval_to_us (timer_set_delay now u)"
    using assms by (simp add: timer_set_delay_def) (simp add: timeval_to_us_def tv_ok_def)
  then have "timer_isset (timer_set_delay now u)"
    using ok by (auto simp: timer_isset_def timeval_to_us_def tv_ok_def)
  then show ?thesis
    using timer_less_iff [OF ok assms(2)]
    by (auto simp: timer_remaining_us_def timer_passed_def timer_elapsed_us_def timer_set_delay_def)
qed

lemma timer_set_delay_spec_witness:
  "timer_remaining_us (timer_set_delay (tv 5 999999) 1500002) (tv 5 999999) = 1500002 \<and>
   (timer_passed (timer_set_delay (tv 5 999999) 1500002) (tv 7 500002)
      \<longleftrightarrow> 1500002 < timer_elapsed_us (tv 5 999999) (tv 7 500002))"
  by (rule timer_set_delay_spec) (simp_all add: tv_ok_def)

lemma reduce_timeout_to_min:
  assumes "tv_ok timeout" "tv_ok time" "timer_isset timeout" "timer_isset time"
  shows "timeval_to_us (reduce_timeout_to timeout time) = min (timeval_to_us timeout) (timeval_to_us time)"
  using assms timer_less_iff [of time timeout] by (auto simp: reduce_timeout_to_def min_def)

lemma reduce_timeout_to_unset:
  "\<not> timer_isset timeout \<Longrightarrow> reduce_timeout_to timeout time = (if timer_isset time then time else timeout)"
  by (simp add: reduce_timeout_to_def)

lemma select_timeout_remaining:
  assumes "tv_ok timeout" "tv_ok now" "timer_isset timeout"
  shows "\<exists>t. select_timeout timeout now = Some t \<and> tv_ok t \<and>
             timeval_to_us t = max 0 (timer_remaining_us timeout now)"
proof (cases "timer_less timeout now")
  case True
  then show ?thesis
    using assms timer_less_iff [of timeout now]
    by (simp add: select_timeout_def timer_remaining_us_def) (simp add: tv_ok_def timeval_to_us_def)
next
  case False
  then show ?thesis
    using assms timer_less_iff [of timeout now]
    by (simp add: select_timeout_def timer_remaining_us_def tv_ok_timersub)
qed

lemma timeraddspec_ok:
  assumes "0 \<le> ts_nsec a \<and> ts_nsec a < 10 ^ 9" "0 \<le> ts_nsec b \<and> ts_nsec b < 10 ^ 9"
  shows "let c = timeraddspec a b in 0 \<le> ts_nsec c \<and> ts_nsec c < 10 ^ 9 \<and>
           ts_sec c * 10 ^ 9 + ts_nsec c = (ts_sec a + ts_sec b) * 10 ^ 9 + ts_nsec a + ts_nsec b"
  using assms by (auto simp: timeraddspec_def Let_def)

section \<open>The mining schedule\<close>

record tm =
  tm_hour :: int
  tm_min :: int

record schedtime =
  sched_enable :: bool
  sched_tm :: tm

definition time_before :: "tm \<Rightarrow> tm \<Rightarrow> bool" where
  "time_before tm1 tm2 =
     (if tm_hour tm1 < tm_hour tm2 then True
      else if tm_hour tm1 = tm_hour tm2 \<and> tm_min tm1 < tm_min tm2 then True
      else False)"

text \<open>The answer and \<open>schedstart\<close> afterwards; \<open>now\<close> is the local time.\<close>

definition should_run :: "schedtime \<Rightarrow> schedtime \<Rightarrow> tm \<Rightarrow> bool \<times> schedtime" where
  "should_run schedstart schedstop now =
     (if \<not> sched_enable schedstart \<and> \<not> sched_enable schedstop then (True, schedstart)
      else let within_range =
             (if time_before (sched_tm schedstop) (sched_tm schedstart)
              then time_before now (sched_tm schedstop) \<or> \<not> time_before now (sched_tm schedstart)
              else time_before now (sched_tm schedstop) \<and> \<not> time_before now (sched_tm schedstart))
           in (within_range,
               if within_range \<and> \<not> sched_enable schedstop then schedstart\<lparr>sched_enable := False\<rparr>
               else schedstart))"

definition minute_of_day :: "tm \<Rightarrow> int" where
  "minute_of_day t = tm_hour t * 60 + tm_min t"

definition tm_ok :: "tm \<Rightarrow> bool" where
  "tm_ok t \<longleftrightarrow> 0 \<le> tm_hour t \<and> tm_hour t < 24 \<and> 0 \<le> tm_min t \<and> tm_min t < 60"

lemma time_before_iff: "tm_ok a \<Longrightarrow> tm_ok b \<Longrightarrow> time_before a b \<longleftrightarrow> minute_of_day a < minute_of_day b"
  by (auto simp: time_before_def minute_of_day_def tm_ok_def)

lemma minute_of_day_range: "tm_ok a \<Longrightarrow> 0 \<le> minute_of_day a \<and> minute_of_day a < 1440"
  by (auto simp: minute_of_day_def tm_ok_def)

lemma mod_day: "(x - y) mod 1440 = (if y \<le> x then x - y else x - y + 1440)"
  if "0 \<le> x" "x < 1440" "0 \<le> y" "y < 1440" for x y :: int
  using that mod_add_self2 [of "x - y" 1440] mod_pos_pos_trivial [of "x - y + 1440" 1440] by auto

text \<open>With a start or a stop time set, mining runs exactly in the part of the day that goes from
  the start time, included, to the stop time, excluded, also across midnight; with equal times it
  never runs.\<close>

lemma should_run_cyclic:
  assumes "sched_enable start \<or> sched_enable stop" "tm_ok (sched_tm start)" "tm_ok (sched_tm stop)" "tm_ok now"
  shows "fst (should_run start stop now) \<longleftrightarrow>
           (minute_of_day now - minute_of_day (sched_tm start)) mod 1440
             < (minute_of_day (sched_tm stop) - minute_of_day (sched_tm start)) mod 1440"
proof -
  note r = minute_of_day_range [OF assms(2)] minute_of_day_range [OF assms(3)] minute_of_day_range [OF assms(4)]
  show ?thesis
    using assms(1) r
    by (auto simp: should_run_def Let_def time_before_iff assms(2-4) mod_day split: if_splits)
qed

lemma should_run_cyclic_witness:
  "fst (should_run \<lparr>sched_enable = True, sched_tm = \<lparr>tm_hour = 22, tm_min = 30\<rparr>\<rparr>
          \<lparr>sched_enable = True, sched_tm = \<lparr>tm_hour = 6, tm_min = 0\<rparr>\<rparr> \<lparr>tm_hour = 1, tm_min = 15\<rparr>) \<longleftrightarrow>
     (75 - 1350) mod 1440 < (360 - 1350) mod (1440 :: int)"
  using should_run_cyclic [of "\<lparr>sched_enable = True, sched_tm = \<lparr>tm_hour = 22, tm_min = 30\<rparr>\<rparr>"
      "\<lparr>sched_enable = True, sched_tm = \<lparr>tm_hour = 6, tm_min = 0\<rparr>\<rparr>" "\<lparr>tm_hour = 1, tm_min = 15\<rparr>"]
  by (simp add: tm_ok_def minute_of_day_def)

lemma should_run_same_time: "sched_tm start = sched_tm stop \<Longrightarrow> sched_enable stop \<Longrightarrow> \<not> fst (should_run start stop now)"
  by (auto simp: should_run_def Let_def time_before_def)

text \<open>A start time with no stop time switches itself off once it has been reached.\<close>

lemma should_run_once:
  "\<not> sched_enable stop \<Longrightarrow> fst (should_run start stop now) \<Longrightarrow> snd (should_run start stop now) = s \<Longrightarrow>
   fst (should_run s stop later)"
  by (auto simp: should_run_def Let_def split: if_splits)

end
