(* ===== verification/Sha256.thy ===== *)
theory Sha256
  imports Bytes
begin

text \<open>
  SHA-256 as \<^verbatim>\<open>sha2.c\<close> and \<^verbatim>\<open>sha2.h\<close> compute it (a context fed piecewise, a 128-byte block buffer,
  32-bit lengths), with the double hash \<^verbatim>\<open>gen_hash\<close> of \<^verbatim>\<open>miner.c\<close> and the precomputation
  \<^verbatim>\<open>precalc_hash\<close> of \<^verbatim>\<open>findnonce.c\<close> that the OpenCL kernels start from. The lemmas relate the
  buffered code to the padded-message definition of the standard.
\<close>

section \<open>Macros\<close>

definition SHFR :: "u32 \<Rightarrow> nat \<Rightarrow> u32" where
  "SHFR x n = drop_bit n x"

definition ROTR :: "u32 \<Rightarrow> nat \<Rightarrow> u32" where
  "ROTR x n = drop_bit n x OR push_bit (32 - n) x"

definition CH :: "u32 \<Rightarrow> u32 \<Rightarrow> u32 \<Rightarrow> u32" where
  "CH x y z = (x AND y) XOR (NOT x AND z)"

definition MAJ :: "u32 \<Rightarrow> u32 \<Rightarrow> u32 \<Rightarrow> u32" where
  "MAJ x y z = (x AND y) XOR (x AND z) XOR (y AND z)"

definition SHA256_F1 :: "u32 \<Rightarrow> u32" where
  "SHA256_F1 x = ROTR x 2 XOR ROTR x 13 XOR ROTR x 22"

definition SHA256_F2 :: "u32 \<Rightarrow> u32" where
  "SHA256_F2 x = ROTR x 6 XOR ROTR x 11 XOR ROTR x 25"

definition SHA256_F3 :: "u32 \<Rightarrow> u32" where
  "SHA256_F3 x = ROTR x 7 XOR ROTR x 18 XOR SHFR x 3"

definition SHA256_F4 :: "u32 \<Rightarrow> u32" where
  "SHA256_F4 x = ROTR x 17 XOR ROTR x 19 XOR SHFR x 10"

definition UNPACK32 :: "u32 \<Rightarrow> bytes" where
  "UNPACK32 x = [ucast (drop_bit 24 x), ucast (drop_bit 16 x), ucast (drop_bit 8 x), ucast x]"

definition PACK32 :: "bytes \<Rightarrow> nat \<Rightarrow> u32" where
  "PACK32 str i =
     ucast (str ! (i + 3)) OR push_bit 8 (ucast (str ! (i + 2)))
       OR push_bit 16 (ucast (str ! (i + 1))) OR push_bit 24 (ucast (str ! i))"

text \<open>\<open>w\<close> holds the words of the schedule computed so far; the macro stores word \<open>i\<close>, the next one.\<close>

definition SHA256_SCR :: "nat \<Rightarrow> u32 list \<Rightarrow> u32 list" where
  "SHA256_SCR i w = w @ [SHA256_F4 (w ! (i - 2)) + w ! (i - 7) + SHA256_F3 (w ! (i - 15)) + w ! (i - 16)]"

definition sha256_h0 :: "u32 list" where
  "sha256_h0 =
     [0x6a09e667, 0xbb67ae85, 0x3c6ef372, 0xa54ff53a,
      0x510e527f, 0x9b05688c, 0x1f83d9ab, 0x5be0cd19]"

definition sha256_k :: "u32 list" where
  "sha256_k =
     concat
     [[0x428a2f98, 0x71374491, 0xb5c0fbcf, 0xe9b5dba5],
      [0x3956c25b, 0x59f111f1, 0x923f82a4, 0xab1c5ed5],
      [0xd807aa98, 0x12835b01, 0x243185be, 0x550c7dc3],
      [0x72be5d74, 0x80deb1fe, 0x9bdc06a7, 0xc19bf174],
      [0xe49b69c1, 0xefbe4786, 0x0fc19dc6, 0x240ca1cc],
      [0x2de92c6f, 0x4a7484aa, 0x5cb0a9dc, 0x76f988da],
      [0x983e5152, 0xa831c66d, 0xb00327c8, 0xbf597fc7],
      [0xc6e00bf3, 0xd5a79147, 0x06ca6351, 0x14292967],
      [0x27b70a85, 0x2e1b2138, 0x4d2c6dfc, 0x53380d13],
      [0x650a7354, 0x766a0abb, 0x81c2c92e, 0x92722c85],
      [0xa2bfe8a1, 0xa81a664b, 0xc24b8b70, 0xc76c51a3],
      [0xd192e819, 0xd6990624, 0xf40e3585, 0x106aa070],
      [0x19a4c116, 0x1e376c08, 0x2748774c, 0x34b0bcb5],
      [0x391c0cb3, 0x4ed8aa4a, 0x5b9cca4f, 0x682e6ff3],
      [0x748f82ee, 0x78a5636f, 0x84c87814, 0x8cc70208],
      [0x90befffa, 0xa4506ceb, 0xbef9a3f7, 0xc67178f2]]"

section \<open>The block function\<close>

text \<open>One iteration of the round loop on the working variables, with \<^verbatim>\<open>sha256_k[j] + w[j]\<close> given apart.\<close>

definition sha256_round :: "u32 \<Rightarrow> u32 \<Rightarrow> u32 list \<Rightarrow> u32 list" where
  "sha256_round k w wv =
     (let t1 = wv ! 7 + SHA256_F2 (wv ! 4) + CH (wv ! 4) (wv ! 5) (wv ! 6) + k + w;
          t2 = SHA256_F1 (wv ! 0) + MAJ (wv ! 0) (wv ! 1) (wv ! 2)
      in [t1 + t2, wv ! 0, wv ! 1, wv ! 2, wv ! 3 + t1, wv ! 4, wv ! 5, wv ! 6])"

definition sha256_schedule :: "u32 list \<Rightarrow> u32 list" where
  "sha256_schedule w = fold SHA256_SCR [16..<64] w"

definition sha256_rounds :: "u32 list \<Rightarrow> u32 list \<Rightarrow> nat list \<Rightarrow> u32 list" where
  "sha256_rounds w wv js = fold (\<lambda>j. sha256_round (sha256_k ! j) (w ! j)) js wv"

text \<open>One pass of the block loop; \<open>sub\<close> is the index where the block starts.\<close>

definition sha256_block :: "bytes \<Rightarrow> nat \<Rightarrow> u32 list \<Rightarrow> u32 list" where
  "sha256_block message sub h =
     (let w = sha256_schedule (map (\<lambda>j. PACK32 message (sub + 4 * j)) [0..<16])
      in map2 (+) h (sha256_rounds w h [0..<64]))"

definition sha256_transf :: "u32 list \<Rightarrow> bytes \<Rightarrow> nat \<Rightarrow> u32 list" where
  "sha256_transf h message block_nb = fold (\<lambda>i. sha256_block message (64 * i)) [0..<block_nb] h"

section \<open>The context\<close>

text \<open>The lengths are 32-bit in the code: \<open>wrap32\<close> wraps a sum to that width.\<close>

definition wrap32 :: "nat \<Rightarrow> nat" where
  "wrap32 n = unat (word_of_nat n :: u32)"

record sha256_ctx =
  sc_tot_len :: nat
  sc_len :: nat
  sc_block :: bytes
  sc_h :: "u32 list"

definition sha256_init :: "bytes \<Rightarrow> sha256_ctx" where
  "sha256_init junk = \<lparr>sc_tot_len = 0, sc_len = 0, sc_block = junk, sc_h = sha256_h0\<rparr>"

definition sha256_update :: "sha256_ctx \<Rightarrow> bytes \<Rightarrow> sha256_ctx" where
  "sha256_update ctx message =
     (let len = length message;
          tmp_len = 64 - sc_len ctx;
          rem_len = (if len < tmp_len then len else tmp_len);
          block = mem_write (sc_block ctx) (sc_len ctx) (take rem_len message)
      in if wrap32 (sc_len ctx + len) < 64
         then ctx\<lparr>sc_block := block, sc_len := wrap32 (sc_len ctx + len)\<rparr>
         else let new_len = len - rem_len;
                  block_nb = new_len div 64;
                  shifted_message = drop rem_len message;
                  h = sha256_transf (sc_h ctx) block 1;
                  h = sha256_transf h shifted_message block_nb;
                  rem_len = new_len mod 64
              in \<lparr>sc_tot_len = wrap32 (sc_tot_len ctx + 64 * (block_nb + 1)),
                  sc_len = rem_len,
                  sc_block = mem_write block 0 (take rem_len (drop (64 * block_nb) shifted_message)),
                  sc_h = h\<rparr>)"

definition sha256_final :: "sha256_ctx \<Rightarrow> bytes" where
  "sha256_final ctx =
     (let len = sc_len ctx;
          block_nb = 1 + (if 64 - 9 < len mod 64 then 1 else 0);
          len_b = wrap32 (8 * wrap32 (sc_tot_len ctx + len));
          pm_len = 64 * block_nb;
          block = mem_write (sc_block ctx) len (replicate (pm_len - len) 0);
          block = block[len := 0x80];
          block = mem_write block (pm_len - 4) (UNPACK32 (word_of_nat len_b))
      in concat (map UNPACK32 (sha256_transf (sc_h ctx) block block_nb)))"

definition sha256 :: "bytes \<Rightarrow> bytes \<Rightarrow> bytes" where
  "sha256 junk message = sha256_final (sha256_update (sha256_init junk) message)"

definition gen_hash :: "bytes \<Rightarrow> bytes \<Rightarrow> bytes" where
  "gen_hash junk data = (let hash1 = sha256 junk data in sha256 junk hash1)"

section \<open>The precomputation for the OpenCL kernels\<close>

definition SHA256_K :: "u32 list" where
  "SHA256_K =
     concat
     [[0x428a2f98, 0x71374491, 0xb5c0fbcf, 0xe9b5dba5],
      [0x3956c25b, 0x59f111f1, 0x923f82a4, 0xab1c5ed5],
      [0xd807aa98, 0x12835b01, 0x243185be, 0x550c7dc3],
      [0x72be5d74, 0x80deb1fe, 0x9bdc06a7, 0xc19bf174],
      [0xe49b69c1, 0xefbe4786, 0x0fc19dc6, 0x240ca1cc],
      [0x2de92c6f, 0x4a7484aa, 0x5cb0a9dc, 0x76f988da],
      [0x983e5152, 0xa831c66d, 0xb00327c8, 0xbf597fc7],
      [0xc6e00bf3, 0xd5a79147, 0x06ca6351, 0x14292967],
      [0x27b70a85, 0x2e1b2138, 0x4d2c6dfc, 0x53380d13],
      [0x650a7354, 0x766a0abb, 0x81c2c92e, 0x92722c85],
      [0xa2bfe8a1, 0xa81a664b, 0xc24b8b70, 0xc76c51a3],
      [0xd192e819, 0xd6990624, 0xf40e3585, 0x106aa070],
      [0x19a4c116, 0x1e376c08, 0x2748774c, 0x34b0bcb5],
      [0x391c0cb3, 0x4ed8aa4a, 0x5b9cca4f, 0x682e6ff3],
      [0x748f82ee, 0x78a5636f, 0x84c87814, 0x8cc70208],
      [0x90befffa, 0xa4506ceb, 0xbef9a3f7, 0xc67178f2]]"

definition rotate_left :: "u32 \<Rightarrow> nat \<Rightarrow> u32" where
  "rotate_left x y = push_bit y x OR drop_bit (32 - y) x"

definition rotr :: "u32 \<Rightarrow> nat \<Rightarrow> u32" where
  "rotr x y = drop_bit y x OR push_bit (32 - y) x"

text \<open>The macro \<^verbatim>\<open>R\<close> updates \<open>h\<close> and \<open>d\<close> in place; the result is the new \<open>d\<close> and the new \<open>h\<close>.\<close>

definition R_macro :: "u32 \<Rightarrow> u32 \<Rightarrow> u32 \<Rightarrow> u32 \<Rightarrow> u32 \<Rightarrow> u32 \<Rightarrow> u32 \<Rightarrow> u32 \<Rightarrow> u32 \<Rightarrow> u32 \<Rightarrow> u32 \<times> u32" where
  "R_macro a b c d e f g h w k =
     (let h = h + (rotate_left e 26 XOR rotate_left e 21 XOR rotate_left e 7) + (g XOR (e AND (f XOR g))) + k + w;
          d = d + h;
          h = h + (rotate_left a 30 XOR rotate_left a 19 XOR rotate_left a 10) + ((a AND b) OR (c AND (a OR b)))
      in (d, h))"

record opencl_work_data =
  blk_ctx_a :: u32
  blk_ctx_b :: u32
  blk_ctx_c :: u32
  blk_ctx_d :: u32
  blk_ctx_e :: u32
  blk_ctx_f :: u32
  blk_ctx_g :: u32
  blk_ctx_h :: u32
  blk_cty_a :: u32
  blk_cty_b :: u32
  blk_cty_c :: u32
  blk_cty_d :: u32
  blk_cty_e :: u32
  blk_cty_f :: u32
  blk_cty_g :: u32
  blk_cty_h :: u32
  blk_merkle :: u32
  blk_ntime :: u32
  blk_nbits :: u32
  blk_fW0 :: u32
  blk_fW1 :: u32
  blk_fW2 :: u32
  blk_fW3 :: u32
  blk_fW15 :: u32
  blk_fW01r :: u32
  blk_fcty_e :: u32
  blk_fcty_e2 :: u32
  blk_W16 :: u32
  blk_W17 :: u32
  blk_W2 :: u32
  blk_PreVal4 :: u32
  blk_T1 :: u32
  blk_C1addK5 :: u32
  blk_D1A :: u32
  blk_W2A :: u32
  blk_W17_2 :: u32
  blk_PreVal4addT1 :: u32
  blk_T1substate0 :: u32
  blk_PreVal4_2 :: u32
  blk_PreVal0 :: u32
  blk_PreW18 :: u32
  blk_PreW19 :: u32
  blk_PreW31 :: u32
  blk_PreW32 :: u32
  blk_B1addK6 :: u32
  blk_PreVal0addK7 :: u32
  blk_W16addK16 :: u32
  blk_W17addK17 :: u32
  blk_zeroA :: u32
  blk_zeroB :: u32
  blk_oneA :: u32
  blk_twoA :: u32
  blk_threeA :: u32
  blk_fourA :: u32
  blk_fiveA :: u32
  blk_sixA :: u32
  blk_sevenA :: u32

text \<open>The steps of \<^verbatim>\<open>precalc_hash\<close> in their order; a variable \<open>vX\<close> is the member \<^verbatim>\<open>blk->X\<close> being filled.\<close>

definition precalc_hash :: "u32 list \<Rightarrow> u32 list \<Rightarrow> opencl_work_data" where
  "precalc_hash state data =
     (let a = state ! 0; b = state ! 1; c = state ! 2; d = state ! 3;
          e = state ! 4; f = state ! 5; g = state ! 6; h = state ! 7;
          (d, h) = R_macro a b c d e f g h (data ! 0) (SHA256_K ! 0);
          (c, g) = R_macro h a b c d e f g (data ! 1) (SHA256_K ! 1);
          (b, f) = R_macro g h a b c d e f (data ! 2) (SHA256_K ! 2);
          vcty_a = a;
          vcty_b = b;
          vcty_c = c;
          vcty_d = d;
          vD1A = d + 0xb956c25b;
          vcty_e = e;
          vcty_f = f;
          vcty_g = g;
          vcty_h = h;
          vctx_a = state ! 0;
          vctx_b = state ! 1;
          vctx_c = state ! 2;
          vctx_d = state ! 3;
          vctx_e = state ! 4;
          vctx_f = state ! 5;
          vctx_g = state ! 6;
          vctx_h = state ! 7;
          vmerkle = data ! 0;
          vntime = data ! 1;
          vnbits = data ! 2;
          vfW0 = (data ! 0) + (rotr (data ! 1) 7 XOR rotr (data ! 1) 18 XOR (drop_bit 3 (data ! 1)));
          vW16 = vfW0;
          vfW1 = (data ! 1) + (rotr (data ! 2) 7 XOR rotr (data ! 2) 18 XOR (drop_bit 3 (data ! 2))) + 0x01100000;
          vW17 = vfW1;
          vfcty_e = vctx_e + (rotr b 6 XOR rotr b 11 XOR rotr b 25) + (d XOR (b AND (c XOR d))) + 0xe9b5dba5;
          vPreVal4 = vfcty_e;
          vfcty_e2 = (rotr f 2 XOR rotr f 13 XOR rotr f 22) + ((f AND g) OR (h AND (f OR g)));
          vT1 = vfcty_e2;
          vPreVal4_2 = vPreVal4 + vT1;
          vPreVal0 = vPreVal4 + vctx_a;
          vPreW31 = 0x00000280 + (rotr vW16 7 XOR rotr vW16 18 XOR (drop_bit 3 vW16));
          vPreW32 = vW16 + (rotr vW17 7 XOR rotr vW17 18 XOR (drop_bit 3 vW17));
          vPreW18 = (data ! 2) + (rotr vW16 17 XOR rotr vW16 19 XOR (drop_bit 10 vW16));
          vPreW19 = 0x11002000 + (rotr vW17 17 XOR rotr vW17 19 XOR (drop_bit 10 vW17));
          vW2 = data ! 2;
          vW2A = vW2 + (rotr vW16 19 XOR rotr vW16 17 XOR (drop_bit 10 vW16));
          vW17_2 = 0x11002000 + (rotr vW17 19 XOR rotr vW17 17 XOR (drop_bit 10 vW17));
          vfW2 = (data ! 2) + (rotr vfW0 17 XOR rotr vfW0 19 XOR (drop_bit 10 vfW0));
          vfW3 = 0x11002000 + (rotr vfW1 17 XOR rotr vfW1 19 XOR (drop_bit 10 vfW1));
          vfW15 = 0x00000280 + (rotr vfW0 7 XOR rotr vfW0 18 XOR (drop_bit 3 vfW0));
          vfW01r = vfW0 + (rotr vfW1 7 XOR rotr vfW1 18 XOR (drop_bit 3 vfW1));
          vPreVal4addT1 = vPreVal4 + vT1;
          vT1substate0 = vctx_a - vT1;
          vC1addK5 = vcty_c + (SHA256_K ! 5);
          vB1addK6 = vcty_b + (SHA256_K ! 6);
          vPreVal0addK7 = vPreVal0 + (SHA256_K ! 7);
          vW16addK16 = vW16 + (SHA256_K ! 16);
          vW17addK17 = vW17 + (SHA256_K ! 17);
          vzeroA = vctx_a + 0x98c7e2a2;
          vzeroB = vctx_a + 0xfc08884d;
          voneA = vctx_b + 0x90bb1e3c;
          vtwoA = vctx_c + 0x50c6645b;
          vthreeA = vctx_d + 0x3ac42e24;
          vfourA = vctx_e + (SHA256_K ! 4);
          vfiveA = vctx_f + (SHA256_K ! 5);
          vsixA = vctx_g + (SHA256_K ! 6);
          vsevenA = vctx_h + (SHA256_K ! 7)
      in \<lparr>blk_ctx_a = vctx_a, blk_ctx_b = vctx_b, blk_ctx_c = vctx_c, blk_ctx_d = vctx_d, blk_ctx_e = vctx_e,
          blk_ctx_f = vctx_f, blk_ctx_g = vctx_g, blk_ctx_h = vctx_h, blk_cty_a = vcty_a, blk_cty_b = vcty_b,
          blk_cty_c = vcty_c, blk_cty_d = vcty_d, blk_cty_e = vcty_e, blk_cty_f = vcty_f, blk_cty_g = vcty_g,
          blk_cty_h = vcty_h, blk_merkle = vmerkle, blk_ntime = vntime, blk_nbits = vnbits, blk_fW0 = vfW0,
          blk_fW1 = vfW1, blk_fW2 = vfW2, blk_fW3 = vfW3, blk_fW15 = vfW15, blk_fW01r = vfW01r,
          blk_fcty_e = vfcty_e, blk_fcty_e2 = vfcty_e2, blk_W16 = vW16, blk_W17 = vW17, blk_W2 = vW2,
          blk_PreVal4 = vPreVal4, blk_T1 = vT1, blk_C1addK5 = vC1addK5, blk_D1A = vD1A, blk_W2A = vW2A,
          blk_W17_2 = vW17_2, blk_PreVal4addT1 = vPreVal4addT1, blk_T1substate0 = vT1substate0, blk_PreVal4_2 = vPreVal4_2, blk_PreVal0 = vPreVal0,
          blk_PreW18 = vPreW18, blk_PreW19 = vPreW19, blk_PreW31 = vPreW31, blk_PreW32 = vPreW32, blk_B1addK6 = vB1addK6,
          blk_PreVal0addK7 = vPreVal0addK7, blk_W16addK16 = vW16addK16, blk_W17addK17 = vW17addK17, blk_zeroA = vzeroA, blk_zeroB = vzeroB,
          blk_oneA = voneA, blk_twoA = vtwoA, blk_threeA = vthreeA, blk_fourA = vfourA, blk_fiveA = vfiveA,
          blk_sixA = vsixA, blk_sevenA = vsevenA\<rparr>)"

section \<open>The buffered hash is the hash of the padded message\<close>

lemma wrap32_mod: "wrap32 n = n mod 2 ^ 32"
  by (simp add: wrap32_def unsigned_of_nat take_bit_eq_mod)

lemma wrap32_id [simp]: "n < 2 ^ 32 \<Longrightarrow> wrap32 n = n"
  by (simp add: wrap32_mod)

lemma length_UNPACK32 [simp]: "length (UNPACK32 x) = 4"
  by (simp add: UNPACK32_def)

lemma sha256_transf_0 [simp]: "sha256_transf h m 0 = h"
  by (simp add: sha256_transf_def)

lemma sha256_transf_Suc: "sha256_transf h m (Suc n) = sha256_block m (64 * n) (sha256_transf h m n)"
  by (simp add: sha256_transf_def)

lemma PACK32_cong:
  assumes "\<And>k. k < 4 \<Longrightarrow> m ! (i + k) = m' ! (i' + k)"
  shows "PACK32 m i = PACK32 m' i'"
  unfolding PACK32_def using assms [of 0] assms [of 1] assms [of 2] assms [of 3] by simp

lemma sha256_block_cong:
  assumes "\<And>k. k < 64 \<Longrightarrow> m ! (i + k) = m' ! (i' + k)"
  shows "sha256_block m i h = sha256_block m' i' h"
proof -
  have "PACK32 m (i + 4 * j) = PACK32 m' (i' + 4 * j)" if "j < 16" for j
    using assms [of "4 * j + k" for k] that by (intro PACK32_cong) (simp add: add.assoc)
  then have "map (\<lambda>j. PACK32 m (i + 4 * j)) [0..<16] = map (\<lambda>j. PACK32 m' (i' + 4 * j)) [0..<16]"
    by (intro map_cong) simp_all
  then show ?thesis by (simp only: sha256_block_def)
qed

lemma sha256_transf_cong:
  "(\<And>k. k < 64 * n \<Longrightarrow> m ! k = m' ! k) \<Longrightarrow> sha256_transf h m n = sha256_transf h m' n"
proof (induction n)
  case (Suc n)
  then have "sha256_block m (64 * n) g = sha256_block m' (64 * n) g" for g
    by (intro sha256_block_cong) simp
  with Suc show ?case by (simp add: sha256_transf_Suc)
qed simp

lemma sha256_transf_append:
  assumes "64 * n \<le> length m"
  shows "sha256_transf h (m @ r) n = sha256_transf h m n"
  using assms by (intro sha256_transf_cong) (simp add: nth_append)

lemma sha256_transf_join:
  assumes "length m = 64 * n"
  shows "sha256_transf h (m @ r) (n + k) = sha256_transf (sha256_transf h m n) r k"
proof (induction k)
  case 0
  then show ?case using assms by (simp add: sha256_transf_append)
next
  case (Suc k)
  have "sha256_block (m @ r) (64 * (n + k)) g = sha256_block r (64 * k) g" for g
    using assms by (intro sha256_block_cong) (simp add: nth_append algebra_simps)
  with Suc show ?case by (simp add: sha256_transf_Suc)
qed

text \<open>The definition of the standard: pad with a one bit, zeros and the 64-bit length in bits.\<close>

definition sha256_zeros :: "bytes \<Rightarrow> nat" where
  "sha256_zeros m = (119 - length m mod 64) mod 64"

definition sha256_pad :: "bytes \<Rightarrow> bytes" where
  "sha256_pad m =
     m @ [0x80] @ replicate (sha256_zeros m) 0 @ map (\<lambda>i. word_of_nat (8 * length m div 256 ^ (7 - i))) [0..<8]"

definition sha256_spec :: "bytes \<Rightarrow> bytes" where
  "sha256_spec m = concat (map UNPACK32 (sha256_transf sha256_h0 (sha256_pad m) (length (sha256_pad m) div 64)))"

text \<open>What a context stands for: the bytes fed so far, \<open>n\<close> blocks already hashed and a rest.\<close>

definition ctx_split :: "nat \<Rightarrow> bytes \<Rightarrow> bytes \<Rightarrow> sha256_ctx \<Rightarrow> bool" where
  "ctx_split n p r ctx \<longleftrightarrow>
     length p = 64 * n \<and> length r < 64 \<and> sc_len ctx = length r \<and> sc_tot_len ctx = 64 * n \<and>
     length (sc_block ctx) = 128 \<and> take (length r) (sc_block ctx) = r \<and>
     sc_h ctx = sha256_transf sha256_h0 p n"

definition ctx_of :: "bytes \<Rightarrow> sha256_ctx \<Rightarrow> bool" where
  "ctx_of m ctx \<longleftrightarrow> (\<exists>n p r. m = p @ r \<and> ctx_split n p r ctx)"

lemma ctx_of_init: "length junk = 128 \<Longrightarrow> ctx_of [] (sha256_init junk)"
  by (simp add: ctx_of_def ctx_split_def sha256_init_def)

lemma ctx_split_short:
  assumes "ctx_split n p r ctx" "length r + length c < 64"
  shows "ctx_split n p (r @ c) (sha256_update ctx c)"
proof -
  have "length c < 64 - length r" using assms(2) by simp
  then show ?thesis
    using assms by (simp add: ctx_split_def sha256_update_def Let_def len_simps take_mem_write)
qed

lemma mem_write_0: "mem_write buf 0 src = src @ drop (length src) buf"
  by (simp add: mem_write_def)

lemma ctx_split_long:
  assumes ctx: "ctx_split n p r ctx" and c: "c = c1 @ q @ s" "length r + length c1 = 64"
    and q: "length q = 64 * k" "length s < 64"
    and small: "length p + length r + length c < 2 ^ 32"
  shows "ctx_split (n + Suc k) (p @ (r @ c1) @ q) s (sha256_update ctx c)"
proof -
  define block where "block = mem_write (sc_block ctx) (length r) c1"
  have t: "take 64 block = r @ c1"
    unfolding block_def using ctx c(2) take_mem_write [of "length r" "sc_block ctx" c1]
    by (simp add: ctx_split_def)
  have lb: "length block = 128"
    unfolding block_def using ctx c(2) by (simp add: ctx_split_def len_simps)
  have len: "length (p @ (r @ c1) @ q) = 64 * (n + Suc k)"
    using ctx c q by (simp add: ctx_split_def)
  have "sha256_transf sha256_h0 (p @ (r @ c1) @ q) (n + Suc k)
          = sha256_transf (sha256_transf (sc_h ctx) (r @ c1) 1) q k"
    using ctx c(2) sha256_transf_join [of p n sha256_h0 "(r @ c1) @ q" "Suc k"]
      sha256_transf_join [of "r @ c1" 1 "sc_h ctx" q k]
    by (simp add: ctx_split_def)
  also have "sha256_transf (sc_h ctx) (r @ c1) 1 = sha256_transf (sc_h ctx) block 1"
    using t c(2) lb by (intro sha256_transf_cong) (metis mult_1_right nth_take)
  also have "sha256_transf (sha256_transf (sc_h ctx) block 1) q k
               = sha256_transf (sha256_transf (sc_h ctx) block 1) (q @ s) k"
    using q by (simp add: sha256_transf_append)
  finally have h: "sha256_transf (sha256_transf (sc_h ctx) block 1) (q @ s) k
      = sha256_transf sha256_h0 (p @ (r @ c1) @ q) (n + Suc k)" ..
  have "sha256_update ctx c =
      \<lparr>sc_tot_len = 64 * (n + Suc k), sc_len = length s, sc_block = s @ drop (length s) block,
       sc_h = sha256_transf (sha256_transf (sc_h ctx) block 1) (q @ s) k\<rparr>"
  proof -
    have "64 - length r = length c1" using c(2) by simp
    moreover have "\<not> length r + length c < 64" "\<not> length c < length c1"
      using c by simp_all
    moreover have "length r + length c < 2 ^ 32" "64 * n + 64 * (k + 1) < 2 ^ 32"
      using small c q ctx by (simp_all add: ctx_split_def)
    moreover have "(length c - length c1) div 64 = k" "(length c - length c1) mod 64 = length s"
      using c(1) q by simp_all
    moreover have "take (length c1) c = c1" "drop (length c1) c = q @ s" "drop (64 * k) (q @ s) = s"
      using c(1) q by simp_all
    ultimately show ?thesis
      using ctx unfolding sha256_update_def Let_def ctx_split_def block_def
      by (simp add: mem_write_0)
  qed
  then show ?thesis
    unfolding h using len q(2) lb by (simp add: ctx_split_def)
qed

lemma ctx_of_update:
  assumes "ctx_of m ctx" and small: "length m + length c < 2 ^ 32"
  shows "ctx_of (m @ c) (sha256_update ctx c)"
proof -
  obtain n p r where m: "m = p @ r" and ctx: "ctx_split n p r ctx"
    using assms(1) by (auto simp: ctx_of_def)
  show ?thesis
  proof (cases "length r + length c < 64")
    case True
    then show ?thesis
      using ctx_split_short [OF ctx] m by (auto simp: ctx_of_def)
  next
    case False
    let ?c1 = "take (64 - length r) c" and ?d = "drop (64 - length r) c"
    let ?k = "length ?d div 64"
    let ?q = "take (64 * ?k) ?d" and ?s = "drop (64 * ?k) ?d"
    have kd: "64 * ?k \<le> length ?d" "length ?d - 64 * ?k < 64"
      by (simp, metis minus_mult_div_eq_mod mod_less_divisor zero_less_numeral)
    have "c = ?c1 @ ?q @ ?s" by (simp only: append_take_drop_id)
    then have "ctx_split (n + Suc ?k) (p @ (r @ ?c1) @ ?q) ?s (sha256_update ctx c)"
      using False ctx kd small m
      by (intro ctx_split_long) (auto simp: ctx_split_def min_absorb2)
    moreover have "m @ c = (p @ (r @ ?c1) @ ?q) @ ?s" by (simp only: m append_assoc append_take_drop_id)
    ultimately show ?thesis unfolding ctx_of_def by blast
  qed
qed

lemma byte_of_nat: "(ucast (drop_bit j (word_of_nat L :: u32)) :: u8) = word_of_nat (L div 2 ^ j)" if "j \<le> 24"
  by (rule bit_word_eqI) (use that in \<open>auto simp: bit_simps simp flip: drop_bit_eq_div\<close>)

lemma pad_split:
  assumes "length p = 64 * n" "length r < 64" "length p + length r < 2 ^ 29"
    and k: "k = 1 + (if 64 - 9 < length r mod 64 then 1 else (0::nat))"
  shows "sha256_pad (p @ r) = p @ r @ [0x80] @ replicate (64 * k - length r - 5) 0 @
           UNPACK32 (word_of_nat (8 * (length p + length r)))"
proof -
  let ?L = "8 * (length p + length r)"
  have mod: "length (p @ r) mod 64 = length r" using assms(1,2) by simp
  have L: "?L < 2 ^ 32" using assms(3) by simp
  have z: "64 * k - length r - 5 = sha256_zeros (p @ r) + 4"
  proof (cases "length r \<le> 55")
    case True
    then have s: "119 - length r = 64 + (55 - length r)" by simp
    have "(119 - length r) mod 64 = 55 - length r" unfolding s by simp
    with True show ?thesis using k unfolding sha256_zeros_def mod by simp
  next
    case False
    then show ?thesis using k assms(2) unfolding sha256_zeros_def mod by simp
  qed
  have "map (\<lambda>i. word_of_nat (?L div 256 ^ (7 - i)) :: u8) [0..<8]
        = replicate 4 0 @ map (\<lambda>i. word_of_nat (?L div 256 ^ (7 - i))) [4..<8]"
  proof -
    have "(word_of_nat (?L div 256 ^ (7 - i)) :: u8) = 0" if "i < 4" for i
    proof -
      have "(2 ^ 32 :: nat) \<le> 256 ^ (7 - i)" using that power_increasing [of 4 "7 - i" "256 :: nat"] by simp
      with L have "?L div 256 ^ (7 - i) = 0" by simp
      then show ?thesis by simp
    qed
    then have "map (\<lambda>i. word_of_nat (?L div 256 ^ (7 - i)) :: u8) [0..<4] = map (\<lambda>_. 0) [0..<4]"
      by (intro map_cong) simp_all
    moreover have "[0..<8] = [0..<4] @ [4..<8]" by (simp add: upt_conv_Cons)
    ultimately show ?thesis by (simp only: map_append map_replicate_const length_upt minus_nat.diff_0)
  qed
  also have "map (\<lambda>i. word_of_nat (?L div 256 ^ (7 - i)) :: u8) [4..<8] = UNPACK32 (word_of_nat ?L)"
    using byte_of_nat [of 24 ?L] byte_of_nat [of 16 ?L] byte_of_nat [of 8 ?L] byte_of_nat [of 0 ?L]
    by (simp add: UNPACK32_def upt_conv_Cons)
  finally show ?thesis
    unfolding sha256_pad_def z by (simp add: replicate_add)
qed

lemma mem_write_tail:
  "length A = N - 4 \<Longrightarrow> 4 \<le> N \<Longrightarrow> take N (mem_write (A @ B) (N - 4) (UNPACK32 l)) = A @ UNPACK32 l"
  by (simp add: mem_write_def)

lemma final_block:
  assumes "length block = 128" "take (length r) block = r" "length r < 64" and k: "k = 1 \<or> k = (2::nat)" "length r + 9 \<le> 64 * k"
  shows "take (64 * k) (mem_write ((mem_write block (length r) (replicate (64 * k - length r) 0))[length r := 0x80])
           (64 * k - 4) (UNPACK32 l)) = r @ [0x80] @ replicate (64 * k - length r - 5) 0 @ UNPACK32 l"
proof -
  have "mem_write block (length r) (replicate (64 * k - length r) 0) = r @ replicate (64 * k - length r) 0 @ drop (64 * k) block"
    using assms by (auto simp: mem_write_def)
  moreover have "replicate (64 * k - length r) (0 :: u8) = 0 # replicate (64 * k - length r - 5) 0 @ replicate 4 0"
    using k by (simp flip: replicate_add replicate_Suc)
  ultimately have "(mem_write block (length r) (replicate (64 * k - length r) 0))[length r := 0x80]
      = (r @ [0x80] @ replicate (64 * k - length r - 5) 0) @ replicate 4 0 @ drop (64 * k) block"
    by (simp add: list_update_append)
  moreover have "length (r @ [0x80 :: u8] @ replicate (64 * k - length r - 5) 0) = 64 * k - 4"
    using k by auto
  ultimately show ?thesis
    using k mem_write_tail [of "r @ [0x80] @ replicate (64 * k - length r - 5) 0" "64 * k"] by auto
qed

lemma sha256_final_spec:
  assumes "ctx_of m ctx" "length m < 2 ^ 29"
  shows "sha256_final ctx = sha256_spec m"
proof -
  obtain n p r where m: "m = p @ r" and ctx: "ctx_split n p r ctx"
    using assms(1) by (auto simp: ctx_of_def)
  define k where "k = 1 + (if 64 - 9 < length r mod 64 then 1 else (0::nat))"
  define t where "t = r @ [0x80] @ replicate (64 * k - length r - 5) 0 @
                        UNPACK32 (word_of_nat (8 * (length p + length r)))"
  have r: "length r < 64" and p: "length p = 64 * n" using ctx by (simp_all add: ctx_split_def)
  have k: "k = 1 \<or> k = 2" "length r + 9 \<le> 64 * k" using r by (auto simp: k_def)
  have lt: "length t = 64 * k" using k(2) by (simp add: t_def)
  have pad: "sha256_pad m = p @ t"
    unfolding m t_def using pad_split [OF p r _ k_def] assms(2) m by simp
  have len: "wrap32 (8 * wrap32 (64 * n + length r)) = 8 * (length p + length r)"
    using assms(2) m p by simp
  define block where "block = mem_write ((mem_write (sc_block ctx) (length r) (replicate (64 * k - length r) 0))[length r := 0x80])
           (64 * k - 4) (UNPACK32 (word_of_nat (8 * (length p + length r))))"
  have "take (64 * k) block = t"
    unfolding block_def t_def using ctx k by (intro final_block) (simp_all add: ctx_split_def)
  then have "sha256_transf (sc_h ctx) block k = sha256_transf (sc_h ctx) t k"
    using lt by (intro sha256_transf_cong) (metis nth_take)
  also have "\<dots> = sha256_transf sha256_h0 (p @ t) (n + k)"
    using ctx p by (simp add: ctx_split_def sha256_transf_join)
  finally have "sha256_final ctx = concat (map UNPACK32 (sha256_transf sha256_h0 (p @ t) (n + k)))"
    unfolding sha256_final_def Let_def block_def k_def using ctx len by (simp add: ctx_split_def)
  then show ?thesis
    unfolding sha256_spec_def pad using p lt by simp
qed

text \<open>C36: Feeding a message of less than 2 to the 29 bytes to \<^verbatim>\<open>sha256_update\<close> in any pieces and finishing with
  \<^verbatim>\<open>sha256_final\<close> gives the SHA-256 digest of the whole message as the standard defines it by padding.\<close>

lemma sha256_streaming:
  assumes "length junk = 128" "length (concat chunks) < 2 ^ 29"
  shows "sha256_final (fold (\<lambda>c ctx. sha256_update ctx c) chunks (sha256_init junk)) = sha256_spec (concat chunks)"
proof -
  have "ctx_of (concat chunks) (fold (\<lambda>c ctx. sha256_update ctx c) chunks (sha256_init junk))"
    using assms(2)
  proof (induction chunks rule: rev_induct)
    case Nil
    then show ?case using ctx_of_init [OF assms(1)] by simp
  next
    case (snoc c cs)
    then show ?case using ctx_of_update [of "concat cs" _ c] by simp
  qed
  then show ?thesis using assms(2) by (rule sha256_final_spec)
qed

lemma sha256_streaming_witness:
  "sha256_final (fold (\<lambda>c ctx. sha256_update ctx c) [[0x61], [], [0x62, 0x63]] (sha256_init (replicate 128 0)))
     = sha256_spec [0x61, 0x62, 0x63]"
  using sha256_streaming [of "replicate 128 0" "[[0x61], [], [0x62, 0x63]]"] by simp

lemma sha256_is_spec:
  "length junk = 128 \<Longrightarrow> length m < 2 ^ 29 \<Longrightarrow> sha256 junk m = sha256_spec m"
  using sha256_final_spec [of m "sha256_update (sha256_init junk) m"] ctx_of_update [OF ctx_of_init, of junk m]
  by (simp add: sha256_def)

lemma length_sha256_block: "length h = 8 \<Longrightarrow> length (sha256_block m i h) = 8"
proof -
  have "length (sha256_rounds w wv js) = 8" if "length wv = 8" for w wv js
    using that unfolding sha256_rounds_def by (induction js arbitrary: wv) (auto simp: sha256_round_def Let_def)
  then show "length h = 8 \<Longrightarrow> length (sha256_block m i h) = 8"
    by (simp add: sha256_block_def)
qed

lemma length_sha256_transf [len_simps]: "length h = 8 \<Longrightarrow> length (sha256_transf h m n) = 8"
  by (induction n) (auto simp: sha256_transf_Suc length_sha256_block)

lemma length_sha256_spec [len_simps]: "length (sha256_spec m) = 32"
  by (simp add: sha256_spec_def length_concat sum_list_triv o_def len_simps sha256_h0_def)

lemma gen_hash_spec:
  "length junk = 128 \<Longrightarrow> length data < 2 ^ 29 \<Longrightarrow> gen_hash junk data = sha256_spec (sha256_spec data)"
  by (simp add: gen_hash_def sha256_is_spec len_simps)

section \<open>The precomputation is right\<close>

lemma SHA256_K_sha256_k: "SHA256_K = sha256_k"
  by (simp add: SHA256_K_def sha256_k_def)

lemma rotr_ROTR: "rotr x n = ROTR x n"
  by (simp add: rotr_def ROTR_def)

lemma rotate_left_ROTR: "n \<le> 32 \<Longrightarrow> rotate_left x n = ROTR x (32 - n)"
  by (simp add: rotate_left_def ROTR_def or.commute)

lemma CH_alt: "z XOR (x AND (y XOR z)) = CH x y z"
  unfolding CH_def by (rule bit_word_eqI) (auto simp: bit_simps)

lemma MAJ_alt: "(x AND y) OR (z AND (x OR y)) = MAJ x y z"
  unfolding MAJ_def by (rule bit_word_eqI) (auto simp: bit_simps)

lemma R_macro_round:
  "R_macro a b c d e f g h w k = (d', h') \<Longrightarrow> sha256_round k w [a, b, c, d, e, f, g, h] = [h', a, b, c, d', e, f, g]"
  unfolding R_macro_def Let_def CH_alt MAJ_alt
  by (simp add: sha256_round_def Let_def rotate_left_ROTR SHA256_F1_def SHA256_F2_def ac_simps xor.left_commute xor.commute)

text \<open>The second block of a header with this nonce: three words of data, the nonce, the padding and the length.\<close>

definition header_tail :: "u32 list \<Rightarrow> u32 \<Rightarrow> u32 list" where
  "header_tail data nonce = [data ! 0, data ! 1, data ! 2, nonce, 0x80000000] @ replicate 10 0 @ [0x280]"

lemma schedule_facts:
  assumes "length w = 16"
  shows "16 + n = N \<Longrightarrow>
    length (fold SHA256_SCR [16..<N] w) = N \<and>
    (\<forall>i<16. fold SHA256_SCR [16..<N] w ! i = w ! i) \<and>
    (\<forall>i. 16 \<le> i \<and> i < N \<longrightarrow> (let W = fold SHA256_SCR [16..<N] w in
       W ! i = SHA256_F4 (W ! (i - 2)) + W ! (i - 7) + SHA256_F3 (W ! (i - 15)) + W ! (i - 16)))"
proof (induction n arbitrary: N)
  case 0
  then have "N = 16" by simp
  then show ?case using assms by (auto simp del: One_nat_def)
next
  case (Suc n)
  define V where "V = fold SHA256_SCR [16..<16 + n] w"
  have V: "length V = 16 + n" "\<forall>i<16. V ! i = w ! i"
    "\<forall>i. 16 \<le> i \<and> i < 16 + n \<longrightarrow> V ! i = SHA256_F4 (V ! (i - 2)) + V ! (i - 7) + SHA256_F3 (V ! (i - 15)) + V ! (i - 16)"
    using Suc.IH [of "16 + n"] by (simp_all add: V_def Let_def)
  have N: "[16..<N] = [16..<16 + n] @ [16 + n]" 
    using upt_Suc_append [of 16 "16 + n"] Suc.prems by simp
  define U where "U = fold SHA256_SCR [16..<N] w"
  have U: "U = V @ [SHA256_F4 (V ! (14 + n)) + V ! (9 + n) + SHA256_F3 (V ! (1 + n)) + V ! n]"
    unfolding U_def N fold_append o_apply V_def [symmetric] by (simp add: SHA256_SCR_def)
  have l: "length U = N" using U V(1) Suc.prems by simp
  have lo: "U ! j = V ! j" if "j < 16 + n" for j using that V(1) by (simp add: U nth_append)
  have "U ! i = SHA256_F4 (U ! (i - 2)) + U ! (i - 7) + SHA256_F3 (U ! (i - 15)) + U ! (i - 16)"
    if "16 \<le> i" "i < N" for i
  proof (cases "i < 16 + n")
    case True
    then show ?thesis using V(3) that by (simp add: lo)
  next
    case False
    then have "i = 16 + n" using that Suc.prems by simp
    then show ?thesis by (simp add: lo) (simp add: U V(1) nth_append)
  qed
  then show ?case
    unfolding U_def [symmetric] Let_def using l lo V(2) by simp
qed

lemma length_sha256_schedule: "length w = 16 \<Longrightarrow> length (sha256_schedule w) = 64"
  using schedule_facts [of w 48 64] by (simp add: sha256_schedule_def)

lemma sha256_schedule_low: "length w = 16 \<Longrightarrow> i < 16 \<Longrightarrow> sha256_schedule w ! i = w ! i"
  using schedule_facts [of w 48 64] by (simp add: sha256_schedule_def)

lemma sha256_schedule_high:
  "length w = 16 \<Longrightarrow> 16 \<le> i \<Longrightarrow> i < 64 \<Longrightarrow>
   sha256_schedule w ! i = SHA256_F4 (sha256_schedule w ! (i - 2)) + sha256_schedule w ! (i - 7)
     + SHA256_F3 (sha256_schedule w ! (i - 15)) + sha256_schedule w ! (i - 16)"
  using schedule_facts [of w 48 64] by (simp add: sha256_schedule_def Let_def)

lemma length_header_tail [simp]: "length (header_tail data nonce) = 16"
  by (simp add: header_tail_def)

lemma F_constants: "SHA256_F3 0x80000000 = 0x11002000" "SHA256_F4 0x280 = 0x01100000" "SHA256_F3 0 = 0" "SHA256_F4 0 = 0"
  by code_simp+

lemma header_tail_nth:
  "header_tail data nonce ! 0 = data ! 0" "header_tail data nonce ! Suc 0 = data ! Suc 0"
  "header_tail data nonce ! 2 = data ! 2" "header_tail data nonce ! 3 = nonce"
  "header_tail data nonce ! 4 = 0x80000000" "header_tail data nonce ! 9 = 0"
  "header_tail data nonce ! 10 = 0" "header_tail data nonce ! 11 = 0"
  "header_tail data nonce ! 12 = 0" "header_tail data nonce ! 14 = 0" "header_tail data nonce ! 15 = 0x280"
  by (simp_all add: header_tail_def nth_append)

lemma upt_0_3: "[0..<3] = [0, 1, 2 :: nat]" and upt_0_4: "[0..<4] = [0..<3] @ [3 :: nat]"
  by code_simp+

lemma sha256_rounds_append: "sha256_rounds w wv (a @ b) = sha256_rounds w (sha256_rounds w wv a) b"
  by (simp add: sha256_rounds_def)

lemma precalc_state:
  assumes "length state = 8"
  shows "\<exists>d h c g b f.
    R_macro (state ! 0) (state ! 1) (state ! 2) (state ! 3) (state ! 4) (state ! 5) (state ! 6) (state ! 7) (data ! 0) (sha256_k ! 0) = (d, h) \<and>
    R_macro h (state ! 0) (state ! 1) (state ! 2) d (state ! 4) (state ! 5) (state ! 6) (data ! 1) (sha256_k ! 1) = (c, g) \<and>
    R_macro g h (state ! 0) (state ! 1) c d (state ! 4) (state ! 5) (data ! 2) (sha256_k ! 2) = (b, f) \<and>
    sha256_rounds (sha256_schedule (header_tail data nonce)) state [0..<3] = [f, g, h, state ! 0, b, c, d, state ! 4]"
proof -
  obtain s0 s1 s2 s3 s4 s5 s6 s7 where s: "state = [s0, s1, s2, s3, s4, s5, s6, s7]"
    using assms by (auto simp: length_Suc_conv numeral_eq_Suc)
  obtain d h where 1: "R_macro s0 s1 s2 s3 s4 s5 s6 s7 (data ! 0) (sha256_k ! 0) = (d, h)" by fastforce
  obtain c g where 2: "R_macro h s0 s1 s2 d s4 s5 s6 (data ! 1) (sha256_k ! 1) = (c, g)" by fastforce
  obtain b f where 3: "R_macro g h s0 s1 c d s4 s5 (data ! 2) (sha256_k ! 2) = (b, f)" by fastforce
  have "sha256_rounds (sha256_schedule (header_tail data nonce)) state [0..<3] = [f, g, h, s0, b, c, d, s4]"
    using R_macro_round [OF 1] R_macro_round [OF 2] R_macro_round [OF 3]
    by (simp add: sha256_rounds_def upt_0_3 s sha256_schedule_low header_tail_nth)
  then show ?thesis using 1 2 3 unfolding s by simp
qed

text \<open>What \<^verbatim>\<open>precalc_hash\<close> hands to the OpenCL kernels is right for every nonce: the working variables
  after three rounds and, with the nonce added, after four rounds of the second header block, and
  the words 16 to 19, 31 and 32 of its schedule without the parts the nonce decides.\<close>

lemma precalc_hash_correct:
  assumes "length state = 8"
  shows "let blk = precalc_hash state data; W = sha256_schedule (header_tail data nonce) in
    sha256_rounds W state [0..<3] =
      [blk_cty_f blk, blk_cty_g blk, blk_cty_h blk, blk_ctx_a blk, blk_cty_b blk, blk_cty_c blk, blk_cty_d blk, blk_ctx_e blk] \<and>
    sha256_rounds W state [0..<4] =
      [blk_PreVal4addT1 blk + nonce, blk_cty_f blk, blk_cty_g blk, blk_cty_h blk,
       blk_PreVal0 blk + nonce, blk_cty_b blk, blk_cty_c blk, blk_cty_d blk] \<and>
    W ! 16 = blk_W16 blk \<and> W ! 17 = blk_W17 blk \<and>
    W ! 18 = blk_PreW18 blk + SHA256_F3 nonce \<and> W ! 19 = blk_PreW19 blk + nonce \<and>
    W ! 31 = SHA256_F4 (W ! 29) + W ! 24 + blk_PreW31 blk \<and>
    W ! 32 = SHA256_F4 (W ! 30) + W ! 25 + blk_PreW32 blk"
proof -
  obtain d h c g b f where
    R: "R_macro (state ! 0) (state ! 1) (state ! 2) (state ! 3) (state ! 4) (state ! 5) (state ! 6) (state ! 7) (data ! 0) (sha256_k ! 0) = (d, h)"
    "R_macro h (state ! 0) (state ! 1) (state ! 2) d (state ! 4) (state ! 5) (state ! 6) (data ! 1) (sha256_k ! 1) = (c, g)"
    "R_macro g h (state ! 0) (state ! 1) c d (state ! 4) (state ! 5) (data ! 2) (sha256_k ! 2) = (b, f)"
    and r3: "sha256_rounds (sha256_schedule (header_tail data nonce)) state [0..<3] = [f, g, h, state ! 0, b, c, d, state ! 4]"
    using precalc_state [OF assms] by blast
  let ?W = "sha256_schedule (header_tail data nonce)"
  have W: "?W ! i = header_tail data nonce ! i" if "i < 16" for i
    using that by (simp add: sha256_schedule_low)
  have r4: "sha256_rounds ?W state [0..<4] = sha256_round (sha256_k ! 3) (?W ! 3) [f, g, h, state ! 0, b, c, d, state ! 4]"
    unfolding upt_0_4 sha256_rounds_append r3 by (simp add: sha256_rounds_def)
  have k3: "sha256_k ! 3 = 0xe9b5dba5" by (simp add: sha256_k_def)
  let ?B = "precalc_hash state data"
  note P = precalc_hash_def Let_def SHA256_K_sha256_k R prod.case opencl_work_data.simps CH_alt MAJ_alt rotr_ROTR
    SHFR_def [symmetric] SHA256_F1_def [symmetric] SHA256_F2_def [symmetric] SHA256_F3_def [symmetric] SHA256_F4_def [symmetric]
  have cty: "blk_cty_f ?B = f" "blk_cty_g ?B = g" "blk_cty_h ?B = h" "blk_cty_b ?B = b" "blk_cty_c ?B = c" "blk_cty_d ?B = d"
    "blk_ctx_a ?B = state ! 0" "blk_ctx_e ?B = state ! 4"
    by (simp_all only: P)
  have pre: "blk_PreVal4 ?B = state ! 4 + SHA256_F2 b + CH b c d + sha256_k ! 3"
    "blk_PreVal0 ?B = blk_PreVal4 ?B + state ! 0"
    "blk_PreVal4addT1 ?B = blk_PreVal4 ?B + (SHA256_F1 f + MAJ f g h)"
    by (simp_all only: P k3)
  have w: "blk_W16 ?B = data ! 0 + SHA256_F3 (data ! 1)"
    "blk_W17 ?B = data ! 1 + SHA256_F3 (data ! 2) + 0x01100000"
    "blk_PreW18 ?B = data ! 2 + SHA256_F4 (blk_W16 ?B)"
    "blk_PreW19 ?B = 0x11002000 + SHA256_F4 (blk_W17 ?B)"
    "blk_PreW31 ?B = 0x280 + SHA256_F3 (blk_W16 ?B)"
    "blk_PreW32 ?B = blk_W16 ?B + SHA256_F3 (blk_W17 ?B)"
    by (simp_all only: P)
  note H = sha256_schedule_high [of "header_tail data nonce", OF length_header_tail]
  have W16: "?W ! 16 = blk_W16 ?B" and W17: "?W ! 17 = blk_W17 ?B"
    using H [of 16] H [of 17] by (simp_all add: W w header_tail_nth F_constants ac_simps)
  have "?W ! 18 = blk_PreW18 ?B + SHA256_F3 nonce" "?W ! 19 = blk_PreW19 ?B + nonce"
    "?W ! 31 = SHA256_F4 (?W ! 29) + ?W ! 24 + blk_PreW31 ?B" "?W ! 32 = SHA256_F4 (?W ! 30) + ?W ! 25 + blk_PreW32 ?B"
    using H [of 18] H [of 19] H [of 31] H [of 32] W16 W17
    by (simp_all add: W w(3-6) header_tail_nth F_constants ac_simps)
  moreover have "sha256_rounds ?W state [0..<4] =
      [blk_PreVal4addT1 ?B + nonce, f, g, h, blk_PreVal0 ?B + nonce, b, c, d]"
    unfolding r4 by (simp add: W sha256_round_def Let_def pre header_tail_nth ac_simps)
  ultimately show ?thesis
    using r3 W16 W17 unfolding Let_def cty by (intro conjI)
qed

lemma precalc_hash_correct_witness:
  "let blk = precalc_hash sha256_h0 [1, 2, 3]; W = sha256_schedule (header_tail [1, 2, 3] 7) in
    sha256_rounds W sha256_h0 [0..<3] =
      [blk_cty_f blk, blk_cty_g blk, blk_cty_h blk, blk_ctx_a blk, blk_cty_b blk, blk_cty_c blk, blk_cty_d blk, blk_ctx_e blk] \<and>
    sha256_rounds W sha256_h0 [0..<4] =
      [blk_PreVal4addT1 blk + 7, blk_cty_f blk, blk_cty_g blk, blk_cty_h blk,
       blk_PreVal0 blk + 7, blk_cty_b blk, blk_cty_c blk, blk_cty_d blk] \<and>
    W ! 16 = blk_W16 blk \<and> W ! 17 = blk_W17 blk \<and>
    W ! 18 = blk_PreW18 blk + SHA256_F3 7 \<and> W ! 19 = blk_PreW19 blk + 7 \<and>
    W ! 31 = SHA256_F4 (W ! 29) + W ! 24 + blk_PreW31 blk \<and>
    W ! 32 = SHA256_F4 (W ! 30) + W ! 25 + blk_PreW32 blk"
  by (rule precalc_hash_correct) (simp add: sha256_h0_def)

end
