(* ===== verification/Targets.thy ===== *)
theory Targets
  imports Bytes Timers Sha256
begin

text \<open>
  256-bit hashes and targets, the byte-swapping helpers they go through (\<^verbatim>\<open>util.c\<close>, \<^verbatim>\<open>miner.h\<close>), the
  midstate, the limits on rolling the time of a header and the test of a found hash (\<^verbatim>\<open>miner.c\<close>).
  Memory is a list of bytes; the host stores a 32-bit word with its least byte first, so that
  \<^verbatim>\<open>le32toh\<close> is the identity and \<^verbatim>\<open>htobe32\<close> swaps.
\<close>

section \<open>Swapping words\<close>

definition word_bytes :: "u32 \<Rightarrow> bytes" where
  "word_bytes v = pk_u32le (replicate 4 0) 0 v"

definition swab32 :: "u32 \<Rightarrow> u32" where
  "swab32 v = push_bit 24 (v AND 0xff) OR push_bit 8 (v AND 0xff00) OR (drop_bit 8 v AND 0xff00) OR drop_bit 24 v"

definition swap256 :: "bytes \<Rightarrow> bytes" where
  "swap256 src = concat (map (\<lambda>i. word_bytes (upk_u32le src (4 * (7 - i)))) [0..<8])"

definition swap32yes :: "bytes \<Rightarrow> nat \<Rightarrow> bytes" where
  "swap32yes src sz = concat (map (\<lambda>i. word_bytes (swab32 (upk_u32le src (4 * i)))) [0..<sz])"

definition swab256 :: "bytes \<Rightarrow> bytes" where
  "swab256 src = concat (map (\<lambda>i. word_bytes (swab32 (upk_u32le src (4 * (7 - i))))) [0..<8])"

definition bswap_96p :: "bytes \<Rightarrow> bytes" where
  "bswap_96p src = concat (map (\<lambda>i. word_bytes (swab32 (upk_u32le src (4 * (2 - i))))) [0..<3])"

definition bswap_32mult :: "bytes \<Rightarrow> nat \<Rightarrow> bytes" where
  "bswap_32mult src sz = concat (map (\<lambda>i. word_bytes (swab32 (upk_u32le src (4 * (sz - 1 - i))))) [0..<sz])"

definition calc_midstate :: "bytes \<Rightarrow> bytes \<Rightarrow> bytes" where
  "calc_midstate junk data =
     (let ctx = sha256_update (sha256_init junk) (swap32yes data 16)
      in concat (map word_bytes (sc_h ctx)))"

section \<open>Targets\<close>

definition real_block_target :: "bytes \<Rightarrow> bytes" where
  "real_block_target data =
     (if data ! 72 < 3 \<or> data ! 72 > 0x20 then replicate 32 0xff
      else let targetshift = unat (data ! 72 - 3)
           in replicate targetshift 0 @ [data ! 75, data ! 74, data ! 73] @ replicate (0x20 - (targetshift + 3)) 0)"

text \<open>The loop from word \<open>i - 1\<close> down to word 0.\<close>

fun hash_target_check_from :: "nat \<Rightarrow> bytes \<Rightarrow> bytes \<Rightarrow> bool" where
  "hash_target_check_from 0 hash target = True"
| "hash_target_check_from (Suc i) hash target =
     (let h32i = upk_u32le hash (4 * i); t32i = upk_u32le target (4 * i)
      in if h32i > t32i then False
         else if h32i < t32i then True
         else hash_target_check_from i hash target)"

definition hash_target_check :: "bytes \<Rightarrow> bytes \<Rightarrow> bool" where
  "hash_target_check hash target = hash_target_check_from 8 hash target"

definition hash_target_check_v :: "bytes \<Rightarrow> bytes \<Rightarrow> bool" where
  "hash_target_check_v hash target = (let rc = hash_target_check hash target in rc)"

text \<open>
  The floating point part of \<^verbatim>\<open>test_hash\<close> is given: whether the difficulty is at least 1, and the
  bound \<^verbatim>\<open>Htarg\<close> it computes otherwise.
\<close>

definition test_hash :: "bool \<Rightarrow> u32 \<Rightarrow> bytes \<Rightarrow> bool" where
  "test_hash diff_ge_1 Htarg hash =
     (if diff_ge_1 then upk_u32le hash 28 = 0 else upk_u32le hash 28 \<le> Htarg)"

section \<open>Rolling the time of a header\<close>

record ntime_roll_limits =
  nrl_min :: u32
  nrl_max :: u32
  nrl_tv_ref :: timeval
  nrl_minoff :: int
  nrl_maxoff :: int

definition int16 :: "int \<Rightarrow> int" where
  "int16 n = (n + 2 ^ 15) mod 2 ^ 16 - 2 ^ 15"

definition set_simple_ntime_roll_limit :: "u32 \<Rightarrow> int \<Rightarrow> timeval \<Rightarrow> ntime_roll_limits" where
  "set_simple_ntime_roll_limit ntime_base ntime_roll tv_ref =
     (let offsets = (if ntime_roll > 60 then ntime_roll else 60)
      in \<lparr>nrl_min = ntime_base, nrl_max = ntime_base + word_of_int ntime_roll, nrl_tv_ref = tv_ref,
          nrl_minoff = int16 (- offsets), nrl_maxoff = int16 offsets\<rparr>)"

definition work_get_ntime :: "bytes \<Rightarrow> u32" where
  "work_get_ntime data = upk_u32be data 0x44"

definition work_set_ntime :: "bytes \<Rightarrow> u32 \<Rightarrow> bytes" where
  "work_set_ntime data ntime = pk_u32be data 0x44 ntime"

definition work_set_simple_ntime_roll_limit :: "bytes \<Rightarrow> int \<Rightarrow> timeval \<Rightarrow> ntime_roll_limits" where
  "work_set_simple_ntime_roll_limit data ntime_roll tv_ref =
     set_simple_ntime_roll_limit (upk_u32be data 0x44) ntime_roll tv_ref"

text \<open>The result is what the code returns and the header with its time set.\<close>

definition work_ntime_range :: "ntime_roll_limits \<Rightarrow> bytes \<Rightarrow> timeval \<Rightarrow> timeval \<Rightarrow> int \<Rightarrow> int \<times> bytes" where
  "work_ntime_range nrl data earliest latest desired_roll =
     (let ref_ntime = work_get_ntime data;
          earliest_elapsed = timer_elapsed (nrl_tv_ref nrl) earliest;
          latest_elapsed = timer_elapsed (nrl_tv_ref nrl) latest;
          low = ref_ntime + word_of_int latest_elapsed + 1 + word_of_int (nrl_minoff nrl);
          min_ntime = (if nrl_min nrl > low then nrl_min nrl else low);
          high = ref_ntime + word_of_int earliest_elapsed + word_of_int (nrl_maxoff nrl);
          max_ntime = (if nrl_max nrl < high then nrl_max nrl else high)
      in if max_ntime < min_ntime then (- 1, data)
         else let min_ntime =
                (if max_ntime - min_ntime > word_of_int desired_roll then
                   let mid_elapsed = (latest_elapsed - earliest_elapsed) sdiv 2 + earliest_elapsed;
                       ideal_ntime = ref_ntime + word_of_int mid_elapsed
                   in if ideal_ntime > min_ntime
                      then (if ideal_ntime < max_ntime - word_of_int desired_roll then ideal_ntime
                            else max_ntime - word_of_int desired_roll)
                      else min_ntime
                 else min_ntime)
              in (int_of_long (uint (max_ntime - min_ntime)), work_set_ntime data min_ntime))"

section \<open>Hashes as numbers\<close>

definition le_value :: "bytes \<Rightarrow> nat" where
  "le_value bs = (\<Sum>i<length bs. unat (bs ! i) * 256 ^ i)"

lemma le_value_Nil [simp]: "le_value [] = 0"
  by (simp add: le_value_def)

lemma le_value_append: "le_value (xs @ ys) = le_value xs + 256 ^ length xs * le_value ys"
proof (induction ys rule: rev_induct)
  case (snoc y ys)
  have "le_value (zs @ [y]) = le_value zs + unat y * 256 ^ length zs" for zs
    by (simp add: le_value_def nth_append)
  from this [of "xs @ ys"] this [of ys] snoc show ?case
    by (simp add: algebra_simps power_add)
qed simp

lemma le_value_single [simp]: "le_value [b] = unat b"
  by (simp add: le_value_def)

lemma le_value_Cons: "le_value (b # bs) = unat b + 256 * le_value bs"
  using le_value_append [of "[b]" bs] by simp

lemma le_value_zeros [simp]: "le_value (replicate n 0) = 0"
  by (simp add: le_value_def)

lemma nat_push_or: "n < 256 \<Longrightarrow> push_bit 8 m OR n = 256 * m + (n :: nat)"
proof -
  assume "n < 256"
  then have t: "take_bit 8 n = n" by (simp add: take_bit_nat_eq_self_iff)
  have "push_bit 8 m AND n = 0"
    by (rule bit_eqI, subst t [symmetric]) (auto simp: bit_simps)
  then have "push_bit 8 m OR n = push_bit 8 m + n"
    by (simp add: disjunctive_add_eq_or)
  then show ?thesis by (simp add: push_bit_eq_mult)
qed

lemma unat_ucast_byte [simp]: "unat (ucast (b :: u8) :: u32) = unat b"
  using u8_less_256 [of b] by (simp add: unsigned_ucast_eq take_bit_nat_eq_self_iff)

lemma unat_push_or_byte:
  "unat (w :: u32) < 2 ^ 24 \<Longrightarrow> unat (push_bit 8 w OR ucast (b :: u8)) = unat b + 256 * unat w"
proof -
  assume "unat w < 2 ^ 24"
  then have "unat (push_bit 8 w) = push_bit 8 (unat w)"
    by (subst unsigned_push_bit_eq) (simp add: take_bit_nat_eq_self_iff push_bit_eq_mult)
  moreover note unat_ucast_byte [of b]
  ultimately show ?thesis
    using nat_push_or [OF u8_less_256 [of b]] by (simp add: unsigned_or_eq)
qed

lemma unat_upk_u32le:
  "unat (upk_u32le buf off) =
     unat (buf ! off) + 256 * (unat (buf ! (off + 1)) + 256 * (unat (buf ! (off + 2)) + 256 * unat (buf ! (off + 3))))"
proof -
  define a b c d where "a = buf ! off" "b = buf ! (off + 1)" "c = buf ! (off + 2)" "d = buf ! (off + 3)"
  note D = this
  have h: "upk_u32le buf off = push_bit 8 (push_bit 8 (push_bit 8 (ucast d) OR ucast c) OR ucast b) OR ucast a"
    unfolding D upk_u32le_def by (simp add: push_bit_or or.assoc or.commute or.left_commute)
  have 1: "unat (push_bit 8 (ucast d :: u32) OR ucast c) = unat c + 256 * unat d"
    using u8_less_256 [of d] by (subst unat_push_or_byte) simp_all
  have 2: "unat (push_bit 8 (push_bit 8 (ucast d :: u32) OR ucast c) OR ucast b) = unat b + 256 * (unat c + 256 * unat d)"
    using u8_less_256 [of d] u8_less_256 [of c] by (subst unat_push_or_byte) (simp_all only: 1, simp_all)
  show ?thesis
    using u8_less_256 [of d] u8_less_256 [of c] u8_less_256 [of b]
    unfolding h by (subst unat_push_or_byte) (simp_all only: 2, simp_all add: D)
qed

lemma le_value_words:
  "length bs = 4 * n \<Longrightarrow> le_value bs = (\<Sum>i<n. unat (upk_u32le bs (4 * i)) * 2 ^ (32 * i))"
proof (induction n arbitrary: bs)
  case (Suc n)
  define c where "c = drop (4 * n) bs"
  have c: "bs = take (4 * n) bs @ c" and len: "length (take (4 * n) bs) = 4 * n" "length c = 4"
    using Suc.prems by (simp_all add: c_def)
  have u: "upk_u32le bs (4 * i) = upk_u32le (take (4 * n) bs) (4 * i)" if "i < n" for i
    using that Suc.prems by (intro f32le.upk_local) simp
  have v: "unat (upk_u32le bs (4 * n)) = le_value c"
  proof -
    obtain c0 c1 c2 c3 where "c = [c0, c1, c2, c3]"
      using len(2) by (auto simp: numeral_eq_Suc length_Suc_conv)
    moreover have "upk_u32le bs (4 * n) = upk_u32le c 0"
      using Suc.prems by (simp add: upk_u32le_def c_def)
    ultimately show ?thesis by (simp add: unat_upk_u32le le_value_Cons)
  qed
  have "le_value bs = le_value (take (4 * n) bs) + 256 ^ (4 * n) * le_value c"
    by (subst c, subst le_value_append) (simp only: len)
  also have "(256 :: nat) ^ (4 * n) = 2 ^ (32 * n)"
    by (simp add: power_mult)
  finally show ?case
    using Suc.IH [OF len(1)] u v by simp
qed simp

lemma sum_words_bound: "(\<Sum>i<n. unat (f i :: u32) * 2 ^ (32 * i)) < (2 ^ (32 * n) :: nat)"
proof (induction n)
  case (Suc n)
  have "unat (f n) < 2 ^ 32" using unsigned_less [of "f n"] by simp
  then have b: "unat (f n) + 1 \<le> 2 ^ 32" by simp
  have "(\<Sum>i<Suc n. unat (f i) * 2 ^ (32 * i)) < (unat (f n) + 1) * 2 ^ (32 * n)"
    using Suc by simp
  also have "\<dots> \<le> 2 ^ 32 * 2 ^ (32 * n)" using b by (rule mult_le_mono1)
  also have "\<dots> = 2 ^ (32 * Suc n)" by (simp add: power_add)
  finally show ?case .
qed simp

lemma hash_target_check_from_value:
  "hash_target_check_from n hash target \<longleftrightarrow>
     (\<Sum>i<n. unat (upk_u32le hash (4 * i)) * 2 ^ (32 * i)) \<le> (\<Sum>i<n. unat (upk_u32le target (4 * i)) * 2 ^ (32 * i))"
proof (induction n)
  case (Suc n)
  have lex: "a + x * B \<le> b + y * B \<longleftrightarrow> x < y \<or> x = y \<and> a \<le> b" if "a < B" "b < B" for a b x y B :: nat
  proof -
    have "a + x * B < b + y * B" if "x < y" "a < B" for a b x y
    proof -
      have "(x + 1) * B \<le> y * B" using that by (intro mult_le_mono1) simp
      with that show ?thesis by simp
    qed
    from this [of x y a b] this [of y x b a] that show ?thesis by (cases x y rule: linorder_cases) auto
  qed
  show ?case
    using lex [OF sum_words_bound sum_words_bound] Suc
    by (auto simp: Let_def word_less_nat_alt word_unat_eq_iff)
qed simp

text \<open>C37: A hash passes the target check exactly when its value as a 256-bit little-endian number is at most
  the target's.\<close>

lemma hash_target_check_value:
  assumes "length hash = 32" "length target = 32"
  shows "hash_target_check hash target \<longleftrightarrow> le_value hash \<le> le_value target"
  using assms by (simp add: hash_target_check_def hash_target_check_from_value le_value_words [of _ 8])

lemma hash_target_check_value_witness:
  "hash_target_check (replicate 31 0 @ [7]) (replicate 31 9 @ [7]) \<longleftrightarrow>
     le_value (replicate 31 0 @ [7]) \<le> le_value (replicate 31 9 @ [7])"
  by (rule hash_target_check_value) simp_all

lemma le_value_ff: "le_value (replicate n 0xff) = 256 ^ n - 1"
proof (induction n)
  case (Suc n)
  have "(1 :: nat) \<le> 256 ^ n" by simp
  then obtain k where "(256 :: nat) ^ n = Suc k" by (cases "(256 :: nat) ^ n") auto
  with Suc show ?case by (simp add: le_value_Cons)
qed simp

text \<open>For a compact difficulty with exponent \<open>e\<close> from 3 to 32 the block target is the 24-bit mantissa times 256
  to the power \<open>e - 3\<close>, in 32 bytes; any other exponent gives the largest target.\<close>

lemma real_block_target_value:
  "length (real_block_target data) = 32 \<and>
   le_value (real_block_target data) =
     (if 3 \<le> unat (data ! 72) \<and> unat (data ! 72) \<le> 32
      then (unat (data ! 75) + 256 * unat (data ! 74) + 65536 * unat (data ! 73)) * 256 ^ (unat (data ! 72) - 3)
      else 2 ^ 256 - 1)"
proof (cases "data ! 72 < 3 \<or> data ! 72 > 0x20")
  case True
  then have out: "\<not> (3 \<le> unat (data ! 72) \<and> unat (data ! 72) \<le> 32)"
    by (auto simp: word_less_nat_alt)
  have ff: "le_value (replicate 32 0xff) = 2 ^ 256 - 1"
    using le_value_ff [of 32] by simp
  have "real_block_target data = replicate 32 0xff" using True by (simp add: real_block_target_def)
  then show ?thesis by (simp only: ff out if_False length_replicate simp_thms)
next
  case False
  then have e: "3 \<le> unat (data ! 72)" "unat (data ! 72) \<le> 32"
    by (auto simp: word_less_nat_alt not_less)
  have "unat (data ! 72 - 3) = unat (data ! 72) - 3"
    using False by (subst unat_sub) (auto simp: not_less)
  then show ?thesis
    using False e by (simp add: real_block_target_def Let_def le_value_append le_value_Cons algebra_simps)
qed

section \<open>What the swaps do to the bytes\<close>

lemma word_bytes_explicit:
  "word_bytes v = [ucast v, ucast (drop_bit 8 v), ucast (drop_bit 16 v), ucast (drop_bit 24 v)]"
  by (simp add: word_bytes_def pk_u32le_def numeral_eq_Suc)

lemma word_bytes_upk: "word_bytes (upk_u32le src i) = [src ! i, src ! (i + 1), src ! (i + 2), src ! (i + 3)]"
  unfolding word_bytes_explicit upk_u32le_def
  by (intro list.inject [THEN iffD2] conjI refl; rule bit_word_eqI) (auto simp: bit_simps dest: bit_imp_le_length)

lemma swab32_masks: "(0xff :: u32) = mask 8" "(0xff00 :: u32) = push_bit 8 (mask 8)"
  by (simp_all add: mask_eq_exp_minus_1 push_bit_eq_mult)

lemma word_bytes_swab32: "word_bytes (swab32 v) = rev (word_bytes v)"
  unfolding word_bytes_explicit swab32_def swab32_masks rev.simps append.simps
  by (intro list.inject [THEN iffD2] conjI refl; rule bit_word_eqI) (auto simp: bit_simps)

lemma swab32_swab32 [simp]: "swab32 (swab32 v) = v"
proof -
  have inj: "v = upk_u32le (word_bytes v) 0" for v
    unfolding word_bytes_def by (simp add: f32le.upk_pk)
  have "upk_u32le (word_bytes (swab32 (swab32 v))) 0 = upk_u32le (word_bytes v) 0"
    by (simp add: word_bytes_swab32)
  then show ?thesis by (simp flip: inj)
qed

text \<open>On 32 bytes \<^verbatim>\<open>swab256\<close> reverses the bytes, so that a target in print order becomes one in memory order.\<close>

lemma list_32: "length src = 32 \<Longrightarrow> src = map (\<lambda>i. src ! i) [0..<32]"
  by (metis map_nth)

lemma upt_0_8: "[0..<8] = [0, 1, 2, 3, 4, 5, 6, 7 :: nat]"
  by code_simp

lemma rev_upt_32: "rev [0..<32] = [31, 30, 29, 28, 27, 26, 25, 24, 23, 22, 21, 20, 19, 18, 17, 16, 15, 14, 13, 12, 11, 10, 9, 8, 7, 6, 5, 4, 3, 2, 1, 0 :: nat]"
  by code_simp

lemma swab256_rev:
  assumes "length src = 32"
  shows "swab256 src = rev src"
proof -
  have "swab256 src = map (\<lambda>i. src ! i) (rev [0..<32])"
    by (simp add: swab256_def upt_0_8 word_bytes_swab32 word_bytes_upk)
      (simp add: rev_upt_32 numeral_2_eq_2)
  also have "\<dots> = rev src" using list_32 [OF assms] by (metis rev_map)
  finally show ?thesis .
qed

lemma swap32yes_groups:
  "swap32yes src sz = concat (map (\<lambda>i. [src ! (4 * i + 3), src ! (4 * i + 2), src ! (4 * i + 1), src ! (4 * i)]) [0..<sz])"
  by (simp add: swap32yes_def word_bytes_swab32 word_bytes_upk)

lemma length_swap32yes [len_simps]: "length (swap32yes src sz) = 4 * sz"
  by (simp add: swap32yes_groups length_concat o_def sum_list_triv)

lemma length_swab256 [len_simps]: "length (swab256 src) = 32"
  by (simp add: swab256_def upt_0_8 word_bytes_explicit)

lemma swap256_swap32yes:
  assumes "length src = 32"
  shows "swap32yes (swab256 src) 8 = swap256 src"
proof -
  have s: "swab256 src ! i = src ! (31 - i)" if "i < 32" for i
    using that assms by (simp add: swab256_rev rev_nth)
  show ?thesis
    by (simp add: swap32yes_groups swap256_def upt_0_8 word_bytes_upk s numeral_2_eq_2)
qed

lemma length_concat_groups:
  "(\<And>i. i < n \<Longrightarrow> length (f i) = 4) \<Longrightarrow> length (concat (map f [0..<n])) = 4 * n"
  by (induction n) auto

lemma nth_concat_groups:
  "(\<And>i. i < n \<Longrightarrow> length (f i) = 4) \<Longrightarrow> j < 4 * n \<Longrightarrow> concat (map f [0..<n]) ! j = f (j div 4) ! (j mod 4)"
proof (induction n)
  case (Suc n)
  have len: "length (concat (map f [0..<n])) = 4 * n"
    using Suc.prems(1) by (simp add: length_concat_groups)
  show ?case
  proof (cases "j < 4 * n")
    case True
    then show ?thesis using Suc by (simp add: nth_append len)
  next
    case False
    then have "j div 4 = n" using Suc.prems(2) by simp
    moreover from this have "j - 4 * n = j mod 4" using minus_mult_div_eq_mod [of j 4] by simp
    moreover note False
    ultimately show ?thesis by (simp add: nth_append len)
  qed
qed simp

lemma mod_4_cases: "k mod 4 = 0 \<or> k mod 4 = 1 \<or> k mod 4 = 2 \<or> k mod 4 = (3 :: nat)"
  by linarith

lemma swap32yes_nth: "k < 4 * sz \<Longrightarrow> swap32yes a sz ! k = a ! (4 * (k div 4) + (3 - k mod 4))"
  unfolding swap32yes_groups
  using mod_4_cases [of k] by (subst nth_concat_groups) (simp_all, elim disjE, simp_all add: numeral_2_eq_2)

lemma swap32yes_twice:
  assumes "length src = 4 * sz"
  shows "swap32yes (swap32yes src sz) sz = src"
proof (rule nth_equalityI)
  fix j assume "j < length (swap32yes (swap32yes src sz) sz)"
  then have j: "j < 4 * sz" by (simp add: len_simps)
  define s where "s = 3 - j mod 4"
  define k where "k = 4 * (j div 4) + s"
  have q: "j div 4 < sz" using j by simp
  have s: "s < 4" "3 - s = j mod 4" using mod_4_cases [of j] by (auto simp: s_def)
  have "k div 4 = j div 4" "k mod 4 = s" "k < 4 * sz"
    using s q by (simp_all add: k_def)
  then show "swap32yes (swap32yes src sz) sz ! j = src ! j"
    using j s by (simp add: swap32yes_nth s_def [symmetric] k_def [symmetric])
qed (simp add: len_simps assms)

lemma calc_midstate_spec:
  assumes "length junk = 128" "length data = 128"
  shows "calc_midstate junk data = concat (map word_bytes (sha256_transf sha256_h0 (swap32yes data 16) 1))"
proof -
  have "ctx_of ([] @ swap32yes data 16) (sha256_update (sha256_init junk) (swap32yes data 16))"
    by (rule ctx_of_update) (simp_all add: ctx_of_init assms len_simps)
  then obtain n p r where pr: "swap32yes data 16 = p @ r"
    and ctx: "ctx_split n p r (sha256_update (sha256_init junk) (swap32yes data 16))"
    by (auto simp: ctx_of_def)
  have "64 * n + length r = 64" "length r < 64"
    using ctx arg_cong [OF pr, of length] by (simp_all add: ctx_split_def len_simps)
  then have "n = 1" by linarith
  moreover from this have "r = []" using \<open>64 * n + length r = 64\<close> by simp
  moreover note pr
  ultimately show ?thesis
    using ctx by (simp add: ctx_split_def calc_midstate_def)
qed

section \<open>The chosen time stays within its limits\<close>

lemma word_diff_le: "a \<le> b \<Longrightarrow> uint (b - a :: u32) = uint b - uint a"
  by (simp add: word_le_def uint_sub_lem [THEN iffD1])

lemma int_of_long_nonneg: "0 \<le> int_of_long (uint (d :: u32)) \<Longrightarrow> int_of_long (uint d) = uint d"
proof -
  assume a: "0 \<le> int_of_long (uint d)"
  have lt: "uint d < 2 ^ 32" using uint_lt2p [of d] by simp
  have "(uint d + 2 ^ 31) mod 2 ^ 32 = (if uint d < 2 ^ 31 then uint d + 2 ^ 31 else uint d - 2 ^ 31)"
  proof (cases "uint d < 2 ^ 31")
    case False
    then have e: "uint d + 2 ^ 31 = (uint d - 2 ^ 31) + 2 ^ 32" by simp
    show ?thesis unfolding e mod_add_self2 using False lt by simp
  qed simp
  then show ?thesis
    using a lt unfolding int_of_long_def by (simp split: if_splits)
qed

text \<open>When a range of times is found, the time put into the header is not below the least allowed one, the
  time at the far end of the range is not above the greatest allowed one, and nothing else of the
  header changes.\<close>

lemma work_ntime_range_within:
  assumes "work_ntime_range nrl data earliest latest desired = (r, data')" "0 \<le> r" "length data = 128"
  shows "uint (nrl_min nrl) \<le> uint (work_get_ntime data') \<and>
         uint (work_get_ntime data') + r \<le> uint (nrl_max nrl) \<and>
         length data' = 128 \<and> (\<forall>i<128. i \<notin> {0x44..<0x48} \<longrightarrow> data' ! i = data ! i)"
proof -
  define ref where "ref = work_get_ntime data"
  define low where "low = ref + word_of_int (timer_elapsed (nrl_tv_ref nrl) latest) + 1 + word_of_int (nrl_minoff nrl)"
  define high where "high = ref + word_of_int (timer_elapsed (nrl_tv_ref nrl) earliest) + word_of_int (nrl_maxoff nrl)"
  define mn where "mn = (if nrl_min nrl > low then nrl_min nrl else low)"
  define mx where "mx = (if nrl_max nrl < high then nrl_max nrl else high)"
  define ideal where "ideal = ref + word_of_int ((timer_elapsed (nrl_tv_ref nrl) latest - timer_elapsed (nrl_tv_ref nrl) earliest) sdiv 2
        + timer_elapsed (nrl_tv_ref nrl) earliest)"
  define des where "des = (word_of_int desired :: u32)"
  define sel where "sel = (if mx - mn > des then if ideal > mn then if ideal < mx - des then ideal else mx - des else mn else mn)"
  have u: "work_ntime_range nrl data earliest latest desired =
      (if mx < mn then (- 1, data) else (int_of_long (uint (mx - sel)), work_set_ntime data sel))"
    unfolding work_ntime_range_def Let_def sel_def mx_def mn_def ideal_def low_def high_def des_def ref_def by simp
  have le: "mn \<le> mx" and r: "r = int_of_long (uint (mx - sel))" and d: "data' = work_set_ntime data sel"
    using assms(1,2) unfolding u by (auto split: if_splits)
  have span: "uint (mx - mn) = uint mx - uint mn" using le by (rule word_diff_le)
  have sel: "mn \<le> sel \<and> sel \<le> mx"
  proof (cases "mx - mn > des")
    case True
    then have "uint des < uint mx - uint mn" by (simp add: word_less_def span)
    moreover from this have "uint (mx - des) = uint mx - uint des"
      by (intro word_diff_le) (use uint_ge_0 [of mn] in \<open>unfold word_le_def, linarith\<close>)
    ultimately have "uint mn \<le> uint (mx - des)" "uint (mx - des) \<le> uint mx"
      using uint_ge_0 [of des] by linarith+
    then show ?thesis
      using le by (auto simp: sel_def word_less_def word_le_def)
  qed (use le in \<open>simp add: sel_def\<close>)
  have n: "work_get_ntime data' = sel"
    using assms(3) by (simp add: d work_get_ntime_def work_set_ntime_def f32be.upk_pk)
  have "r = uint mx - uint sel"
    using assms(2) int_of_long_nonneg [of "mx - sel"] word_diff_le [of sel mx] sel unfolding r by simp
  moreover have "uint (nrl_min nrl) \<le> uint mn" "uint mx \<le> uint (nrl_max nrl)"
    by (auto simp: mn_def mx_def word_less_def)
  moreover have "length data' = 128" "\<forall>i<128. i \<notin> {0x44..<0x48} \<longrightarrow> data' ! i = data ! i"
    using assms(3) by (auto simp: d work_set_ntime_def f32be.pk_length intro!: f32be.pk_frame)
  ultimately show ?thesis using sel n by (simp add: word_le_def)
qed


lemma work_ntime_range_within_witness:
  "let nrl = set_simple_ntime_roll_limit 1000 600 (tv 50 0);
       data = work_set_ntime (replicate 128 0) 1000;
       (r, data') = work_ntime_range nrl data (tv 50 0) (tv 52 0) 100
   in r = 599 \<and> uint (nrl_min nrl) \<le> uint (work_get_ntime data') \<and>
      uint (work_get_ntime data') + r \<le> uint (nrl_max nrl)"
proof -
  let ?nrl = "set_simple_ntime_roll_limit 1000 600 (tv 50 0)"
  let ?w = "work_ntime_range ?nrl (work_set_ntime (replicate 128 0) 1000) (tv 50 0) (tv 52 0) 100"
  have "fst ?w = 599" by code_simp
  then obtain d' where w: "?w = (599, d')" by (metis prod.collapse)
  have "length (work_set_ntime (replicate 128 0) 1000) = 128"
    by (simp add: work_set_ntime_def f32be.pk_length)
  then show ?thesis using work_ntime_range_within [OF w] by (simp add: Let_def w)
qed

end
