(* ===== verification/MinerState.thy ===== *)
theory MinerState
  imports Complex_Main Targets UriParams
begin

text \<open>
  The state of the program as the work and pool code of \<^verbatim>\<open>miner.c\<close> sees it: the structures of
  \<^verbatim>\<open>miner.h\<close> and the globals of \<^verbatim>\<open>miner.c\<close>. A field \<open>p_x\<close>, \<open>w_x\<close>, \<open>g_x\<close>, \<open>sw_x\<close>, \<open>bi_x\<close> is the member
  \<open>x\<close> of a pool, a work item, a mining goal, a stratum job or a block. Pools, goals and mining
  algorithms are shared objects: they live in stores and are referred to by address, so that two
  pointers to one pool see each other's changes. A work item has one owner at a time (the staged
  list or the caller) and is a value; \<open>staged_work\<close> lists the staged ones in the order in which the
  hash table iterates. Locks and condition variables are left out: an operation is one step.
  A \<^verbatim>\<open>double\<close> or \<^verbatim>\<open>float\<close> that is only compared is a rational number.
\<close>

section \<open>Enumerations\<close>

datatype pool_strategy = POOL_FAILOVER | POOL_ROUNDROBIN | POOL_ROTATE | POOL_LOADBALANCE | POOL_BALANCE

datatype pool_enable = POOL_DISABLED | POOL_ENABLED | POOL_REJECTING | POOL_MISBEHAVING

section \<open>Structures\<close>

record block_info =
  bi_block_id :: u32
  bi_prevblkhash :: bytes
  bi_block_seen_order :: nat
  bi_height :: u32
  bi_first_seen_time :: int

text \<open>\<open>currentblk\<close> points to a block of the table: it is the key of that block.\<close>

record blockchain_info =
  bc_blocks :: "block_info list"
  bc_currentblk :: bytes
  bc_currentblk_subsidy :: u64

record mining_algorithm =
  ma_aliases :: string
  ma_goal_refs :: int
  ma_staged :: int

record mining_goal_info =
  g_is_default :: bool
  g_blkchain :: blockchain_info
  g_malgo :: nat
  g_current_diff :: rat
  g_have_longpoll :: bool
  g_diff_accepted :: rat

record work =
  w_data :: bytes
  w_midstate :: bytes
  w_target :: bytes
  w_hash :: bytes
  w_rolls :: int
  w_ntime_roll_limits :: ntime_roll_limits
  w_blk_nonce :: u32
  w_thr_id :: int
  w_pool :: nat
  w_tv_staged :: timeval
  w_mined :: bool
  w_clone :: bool
  w_rolltime :: int
  w_longpoll :: bool
  w_mandatory :: bool
  w_spare :: bool
  w_block :: bool
  w_stratum :: bool
  w_job_id :: "string option"
  w_nonce2 :: bytes_t
  w_nonce1 :: "string option"
  w_work_restart_id :: u8
  w_id :: int
  w_work_difficulty :: rat
  w_nonce_diff :: rat
  w_tr :: "nat option"
  w_dataid :: u32
  w_tv_cloned :: timeval
  w_getwork_mode :: char
  w_share_diff :: rat
  w_stale :: bool
  w_do_foreign_submit :: bool
  w_tv_work_found :: timeval

record stratum_work =
  sw_nonce1 :: "string option"
  sw_tr :: "nat option"
  sw_job_id :: "string option"
  sw_clean :: bool
  sw_coinbase :: bytes_t
  sw_nonce2_offset :: nat
  sw_n2size :: nat
  sw_merkles :: nat
  sw_merkle_bin :: bytes_t
  sw_header1 :: bytes
  sw_diffbits :: bytes
  sw_ntime :: u32
  sw_tv_received :: timeval
  sw_ntime_roll_limits :: ntime_roll_limits
  sw_target :: bytes
  sw_work_restart_id :: u8

text \<open>
  What the connection to a stratum pool keeps between messages: members of \<^verbatim>\<open>struct pool\<close>, and the last three of its
  \<^verbatim>\<open>struct stratum_work\<close>. \<open>ss_next_goalname\<close> is the new name the next job brings: it is \<open>None\<close> while the
  pointers \<^verbatim>\<open>goalname\<close> and \<^verbatim>\<open>next_goalname\<close> are the same.
\<close>

record stratum_session =
  ss_n1_len :: nat
  ss_sessionid :: "string option"
  ss_goalname :: "string option"
  ss_next_goalname :: "string option option"
  ss_next_goal_malgo :: "nat option"
  ss_next_nonce1 :: "string option"
  ss_next_n2size :: int
  ss_admin_msg :: "string option"
  ss_probed :: bool
  ss_getwork_requested :: u32
  ss_opaque :: bool
  ss_transparency_probed :: bool
  ss_tv_transparency :: timeval

text \<open>What is asked of the coinbase of a pool: the keys of the table of scripts, the least total and share.\<close>

record coinbase_param =
  cb_testnet :: bool
  cb_scripts :: "bytes list"
  cb_total :: int
  cb_perc :: rat

text \<open>
  The statistics of a pool, of a processor (\<^verbatim>\<open>cgpu_info\<close>) and of the whole program. Those of a pool are members
  of \<^verbatim>\<open>struct pool\<close> and of its \<^verbatim>\<open>cgminer_pool_stats\<close>; they form one record here.
\<close>

record pool_stats =
  ps_accepted :: int
  ps_rejected :: int
  ps_stale_shares :: nat
  ps_diff1 :: rat
  ps_diff_accepted :: rat
  ps_diff_rejected :: rat
  ps_diff_stale :: rat
  ps_best_diff :: rat
  ps_submit_fail :: bool
  ps_remotefail_occasions :: nat
  ps_last_share_time :: int
  ps_last_share_diff :: rat
  ps_last_diff :: rat
  ps_min_diff :: rat
  ps_max_diff :: rat
  ps_min_diff_count :: u32
  ps_max_diff_count :: u32

record cgpu_info =
  c_accepted :: int
  c_rejected :: int
  c_stale :: int
  c_hw_errors :: int
  c_bad_diff1 :: rat
  c_diff1 :: rat
  c_diff_accepted :: rat
  c_diff_rejected :: rat
  c_diff_stale :: rat
  c_last_share_pool :: int
  c_last_share_pool_time :: int
  c_last_share_diff :: rat
  c_last_device_valid_work :: int

record global_stats =
  total_accepted :: int
  total_rejected :: int
  total_stale :: int
  hw_errors :: int
  total_bad_diff1 :: rat
  total_diff1 :: rat
  total_diff_accepted :: rat
  total_diff_rejected :: rat
  total_diff_stale :: rat
  best_diff :: rat
  total_ro :: nat
  total_secs :: rat

text \<open>
  \<open>p_getwork_delay\<close> is the unsigned value of \<^verbatim>\<open>getwork_wait_rolling * 5 + 1\<close>.
\<close>

record pool =
  p_pool_no :: int
  p_prio :: int
  p_quota :: int
  p_quota_gcd :: int
  p_quota_used :: int
  p_works :: int
  p_shares :: int
  p_solved :: int
  p_idle :: bool
  p_lagging :: bool
  p_enabled :: pool_enable
  p_failover_only :: bool
  p_submit_old :: bool
  p_removed :: bool
  p_work_restart_id :: u8
  p_work_restart_time :: int
  p_block_id :: u32
  p_goal :: nat
  p_diff_effective_retroactively :: bfg_tristate
  p_hdr_path :: "string option"
  p_lp_url :: "string option"
  p_lp_active :: bool
  p_discarded_work :: nat
  p_tv_idle :: timeval
  p_rpc_url :: string
  p_rpc_user :: string
  p_rpc_pass :: string
  p_sockaddr_url :: string
  p_stratum_port :: string
  p_stratum_url :: string
  p_testing :: bool
  p_seq_rejects :: int
  p_last_work_time :: int
  p_tv_last_work_time :: timeval
  p_getwork_delay :: int
  p_nonce2 :: u64
  p_nonce2sz :: nat
  p_has_stratum :: bool
  p_stratum_active :: bool
  p_stratum_notify :: bool
  p_swork :: stratum_work
  p_next_target :: bytes
  p_last_work_copy :: "work option"
  p_stats :: pool_stats
  p_session :: stratum_session
  p_cb_param :: coinbase_param

section \<open>The globals\<close>

text \<open>
  \<open>pstore\<close>, \<open>gstore\<close>, \<open>astore\<close> are the memory of the pools, goals and algorithms; \<open>pools\<close> is the array
  of pool addresses, of length \<^verbatim>\<open>total_pools\<close>, and \<open>fresh_pool\<close> an address not yet in use.
  \<open>tmpl_refs\<close> counts the references to each block template; the templates themselves belong to
  libblkmaker and are known by their state \<open>tmpl_state\<close>.
\<close>

record miner =
  pstore :: "nat \<Rightarrow> pool"
  gstore :: "nat \<Rightarrow> mining_goal_info"
  astore :: "nat \<Rightarrow> mining_algorithm"
  pools :: "nat list"
  currentpool :: "nat option"
  fresh_pool :: nat
  enabled_pools :: int
  global_quota_gcd :: int
  rotating_pool :: nat
  pool_strategy :: pool_strategy
  opt_fail_only :: bool
  opt_benchmark :: bool
  opt_scantime :: int
  opt_expiry :: int
  opt_expiry_lp :: int
  opt_queue :: int
  mining_threads :: int
  staged_work :: "work list"
  staged_rollable :: int
  staged_spare :: int
  staged_full :: bool
  getq_frozen :: bool
  no_work :: bool
  total_work :: int
  local_work :: int
  total_discarded :: int
  new_blocks :: nat
  found_blocks :: int
  thr_work_restart :: "bool list"
  tmpl_refs :: "nat \<Rightarrow> int"
  tmpl_state :: "nat \<Rightarrow> nat"
  now :: timeval
  gstats :: global_stats
  cgpus :: "nat \<Rightarrow> cgpu_info"
  submit_waiting :: "work list"
  total_submitting :: int
  stratum_shares :: "(int \<times> work) list"
  swork_id :: int
  opt_submit_stale :: bool
  opt_retries :: int
  opt_disable_pool :: bool
  opt_shares :: rat
  shutting_down :: bool
  dupe_hashes :: "(bytes \<times> timeval) list"
  total_getworks :: int
  opt_skip_checks :: int
  opt_disable_client_reconnect :: bool

section \<open>Access to the stores\<close>

abbreviation the_pool :: "miner \<Rightarrow> nat \<Rightarrow> pool" where
  "the_pool s a \<equiv> pstore s a"

definition upd_pool :: "nat \<Rightarrow> (pool \<Rightarrow> pool) \<Rightarrow> miner \<Rightarrow> miner" where
  "upd_pool a f s = s\<lparr>pstore := (pstore s)(a := f (pstore s a))\<rparr>"

definition upd_goal :: "nat \<Rightarrow> (mining_goal_info \<Rightarrow> mining_goal_info) \<Rightarrow> miner \<Rightarrow> miner" where
  "upd_goal a f s = s\<lparr>gstore := (gstore s)(a := f (gstore s a))\<rparr>"

definition upd_algo :: "nat \<Rightarrow> (mining_algorithm \<Rightarrow> mining_algorithm) \<Rightarrow> miner \<Rightarrow> miner" where
  "upd_algo a f s = s\<lparr>astore := (astore s)(a := f (astore s a))\<rparr>"

abbreviation total_pools :: "miner \<Rightarrow> nat" where
  "total_pools s \<equiv> length (pools s)"

abbreviation current_pool :: "miner \<Rightarrow> nat" where
  "current_pool s \<equiv> the (currentpool s)"

text \<open>The goal and the algorithm of a pool, and the algorithm of a work item.\<close>

abbreviation pool_goal :: "miner \<Rightarrow> nat \<Rightarrow> mining_goal_info" where
  "pool_goal s a \<equiv> gstore s (p_goal (the_pool s a))"

abbreviation pool_malgo :: "miner \<Rightarrow> nat \<Rightarrow> nat" where
  "pool_malgo s a \<equiv> g_malgo (pool_goal s a)"

definition work_mining_algorithm :: "miner \<Rightarrow> work \<Rightarrow> nat" where
  "work_mining_algorithm s w = pool_malgo s (w_pool w)"

lemma pstore_upd_pool [simp]: "pstore (upd_pool a f s) = (pstore s)(a := f (pstore s a))"
  by (simp add: upd_pool_def)

lemma upd_pool_frame [simp, frame_simps]:
  "gstore (upd_pool a f s) = gstore s" "astore (upd_pool a f s) = astore s"
  "pools (upd_pool a f s) = pools s" "currentpool (upd_pool a f s) = currentpool s"
  "fresh_pool (upd_pool a f s) = fresh_pool s" "enabled_pools (upd_pool a f s) = enabled_pools s"
  "global_quota_gcd (upd_pool a f s) = global_quota_gcd s" "rotating_pool (upd_pool a f s) = rotating_pool s"
  "pool_strategy (upd_pool a f s) = pool_strategy s" "opt_fail_only (upd_pool a f s) = opt_fail_only s"
  "staged_work (upd_pool a f s) = staged_work s" "staged_rollable (upd_pool a f s) = staged_rollable s"
  "staged_spare (upd_pool a f s) = staged_spare s" "total_work (upd_pool a f s) = total_work s"
  "opt_benchmark (upd_pool a f s) = opt_benchmark s" "getq_frozen (upd_pool a f s) = getq_frozen s"
  "now (upd_pool a f s) = now s" "new_blocks (upd_pool a f s) = new_blocks s"
  by (simp_all add: upd_pool_def)

lemma upd_algo_frame [simp, frame_simps]:
  "astore (upd_algo a h s) = (astore s)(a := h (astore s a))"
  "pstore (upd_algo a h s) = pstore s" "gstore (upd_algo a h s) = gstore s"
  "pools (upd_algo a h s) = pools s" "currentpool (upd_algo a h s) = currentpool s"
  "staged_work (upd_algo a h s) = staged_work s" "staged_rollable (upd_algo a h s) = staged_rollable s"
  "staged_spare (upd_algo a h s) = staged_spare s" "total_work (upd_algo a h s) = total_work s"
  "pool_strategy (upd_algo a h s) = pool_strategy s" "opt_fail_only (upd_algo a h s) = opt_fail_only s"
  by (simp_all add: upd_algo_def)

section \<open>Work items\<close>

text \<open>A zeroed structure, as \<^verbatim>\<open>calloc\<close> and \<^verbatim>\<open>memset\<close> leave it.\<close>

definition zero_work :: work where
  "zero_work = \<lparr>w_data = replicate 128 0, w_midstate = replicate 32 0, w_target = replicate 32 0,
     w_hash = replicate 32 0, w_rolls = 0, w_ntime_roll_limits =
       \<lparr>nrl_min = 0, nrl_max = 0, nrl_tv_ref = tv 0 0, nrl_minoff = 0, nrl_maxoff = 0\<rparr>,
     w_blk_nonce = 0, w_thr_id = 0, w_pool = 0, w_tv_staged = tv 0 0, w_mined = False, w_clone = False,
     w_rolltime = 0, w_longpoll = False, w_mandatory = False, w_spare = False, w_block = False,
     w_stratum = False, w_job_id = None, w_nonce2 = bytes_init, w_nonce1 = None, w_work_restart_id = 0,
     w_id = 0, w_work_difficulty = 0, w_nonce_diff = 0, w_tr = None, w_dataid = 0,
     w_tv_cloned = tv 0 0, w_getwork_mode = CHR 0x00, w_share_diff = 0, w_stale = False,
     w_do_foreign_submit = False, w_tv_work_found = tv 0 0\<rparr>"

definition tmpl_incref :: "nat \<Rightarrow> miner \<Rightarrow> miner" where
  "tmpl_incref t s = s\<lparr>tmpl_refs := (tmpl_refs s)(t := tmpl_refs s t + 1)\<rparr>"

definition tmpl_decref :: "nat \<Rightarrow> miner \<Rightarrow> miner" where
  "tmpl_decref t s = s\<lparr>tmpl_refs := (tmpl_refs s)(t := tmpl_refs s t - 1)\<rparr>"

definition make_work :: "miner \<Rightarrow> miner \<times> work" where
  "make_work s = (s\<lparr>total_work := total_work s + 1\<rparr>, zero_work\<lparr>w_id := total_work s\<rparr>)"

definition clean_work :: "work \<Rightarrow> miner \<Rightarrow> miner \<times> work" where
  "clean_work w s = ((case w_tr w of None \<Rightarrow> s | Some t \<Rightarrow> tmpl_decref t s), zero_work)"

definition free_work :: "work \<Rightarrow> miner \<Rightarrow> miner" where
  "free_work w s = fst (clean_work w s)"

lemma free_work_frame [simp, frame_simps]:
  "pstore (free_work w s) = pstore s" "gstore (free_work w s) = gstore s" "astore (free_work w s) = astore s"
  "pools (free_work w s) = pools s" "currentpool (free_work w s) = currentpool s"
  "pool_strategy (free_work w s) = pool_strategy s" "opt_fail_only (free_work w s) = opt_fail_only s"
  "staged_work (free_work w s) = staged_work s" "staged_rollable (free_work w s) = staged_rollable s"
  "staged_spare (free_work w s) = staged_spare s" "total_work (free_work w s) = total_work s"
  "enabled_pools (free_work w s) = enabled_pools s" "fresh_pool (free_work w s) = fresh_pool s"
  by (simp_all add: free_work_def clean_work_def tmpl_decref_def split: option.split)

end
