(* ===== verification/Staged.thy ===== *)
theory Staged
  imports MinerState "HOL-Library.Multiset"
begin

text \<open>
  The staged work (\<^verbatim>\<open>staged_work\<close> and its counters in \<^verbatim>\<open>miner.c\<close>): pushing, unstaging, discarding.
  The hash table belongs to uthash, which keeps its items in the order of insertion: the table is
  the list in that order, an item is added at the end, and the sort is a parameter, \<^verbatim>\<open>HASH_SORT\<close>,
  of which the code needs that it permutes the items into the order of the comparison.
\<close>

section \<open>Code outside the repository\<close>

text \<open>
  \<open>hash_sort\<close> and \<open>block_hash_sort\<close> are uthash's \<^verbatim>\<open>HASH_SORT\<close> on work items and on blocks, \<open>work_left\<close>, \<open>time_left\<close>
  and \<open>get_data\<close> are \<^verbatim>\<open>blkmk_work_left\<close>, \<^verbatim>\<open>blkmk_time_left\<close> and \<^verbatim>\<open>blkmk_get_data\<close> of libblkmaker on the state of a template:
  the latter takes the time and the header and gives the header, the data id, the size and the new
  state. \<open>sha_junk\<close> is what an uninitialised SHA-256 context holds in its block and \<open>resize_junk\<close> what memory
  got from \<^verbatim>\<open>realloc\<close> holds. \<open>hash_data_f\<close> is the hash of a header by the algorithm at an address, \<open>rnd_double\<close> the
  rounding of a result to a \<^verbatim>\<open>double\<close>, and \<open>get_thr_cgpu\<close> the processor of a mining thread.
\<close>

record env =
  hash_sort :: "(work \<Rightarrow> work \<Rightarrow> int) \<Rightarrow> work list \<Rightarrow> work list"
  block_hash_sort :: "(block_info \<Rightarrow> block_info \<Rightarrow> int) \<Rightarrow> block_info list \<Rightarrow> block_info list"
  work_left :: "nat \<Rightarrow> bool"
  time_left :: "nat \<Rightarrow> int \<Rightarrow> int"
  get_data :: "nat \<Rightarrow> int \<Rightarrow> bytes \<Rightarrow> bytes \<times> u32 \<times> nat \<times> nat"
  sha_junk :: bytes
  resize_junk :: "nat \<Rightarrow> u8"
  hash_data_f :: "nat \<Rightarrow> bytes \<Rightarrow> bytes"
  rnd_double :: "rat \<Rightarrow> rat"
  get_thr_cgpu :: "int \<Rightarrow> nat"

text \<open>
  What the documentation of uthash says of \<^verbatim>\<open>HASH_SORT\<close>: the items are permuted, into the order of the
  comparison where that is a total preorder on them.
\<close>

definition consistent_on :: "('a \<Rightarrow> 'a \<Rightarrow> int) \<Rightarrow> 'a set \<Rightarrow> bool" where
  "consistent_on cmp A \<longleftrightarrow> (\<forall>x\<in>A. \<forall>y\<in>A. cmp x y \<le> 0 \<or> cmp y x \<le> 0) \<and>
     (\<forall>x\<in>A. \<forall>y\<in>A. \<forall>z\<in>A. cmp x y \<le> 0 \<longrightarrow> cmp y z \<le> 0 \<longrightarrow> cmp x z \<le> 0)"

definition sorts :: "(('a \<Rightarrow> 'a \<Rightarrow> int) \<Rightarrow> 'a list \<Rightarrow> 'a list) \<Rightarrow> ('a \<Rightarrow> 'a \<Rightarrow> int) \<Rightarrow> bool" where
  "sorts srt cmp \<longleftrightarrow> (\<forall>xs. mset (srt cmp xs) = mset xs \<and>
     (consistent_on cmp (set xs) \<longrightarrow> sorted_wrt (\<lambda>x y. cmp x y \<le> 0) (srt cmp xs)))"

section \<open>Operations\<close>

definition total_staged :: "bool \<Rightarrow> miner \<Rightarrow> int" where
  "total_staged include_spares s =
     (let tot = int (length (staged_work s))
      in if \<not> include_spares then tot - staged_spare s else tot)"

definition work_rollable :: "work \<Rightarrow> bool" where
  "work_rollable w \<longleftrightarrow> \<not> w_clone w \<and> w_rolltime w \<noteq> 0"

text \<open>The code subtracts two \<^verbatim>\<open>time_t\<close> and returns the low 32 bits.\<close>

definition tv_sort :: "work \<Rightarrow> work \<Rightarrow> int" where
  "tv_sort a b = int_of_long (tv_sec (w_tv_staged a) - tv_sec (w_tv_staged b))"

text \<open>An item is found in the list by its value: the ids of staged items are different.\<close>

definition unstage_work :: "work \<Rightarrow> miner \<Rightarrow> miner" where
  "unstage_work w s =
     (let s = s\<lparr>staged_work := remove1 w (staged_work s)\<rparr>;
          s = upd_algo (work_mining_algorithm s w) (\<lambda>a. a\<lparr>ma_staged := ma_staged a - 1\<rparr>) s;
          s = (if work_rollable w then s\<lparr>staged_rollable := staged_rollable s - 1\<rparr> else s);
          s = (if w_spare w then s\<lparr>staged_spare := staged_spare s - 1\<rparr> else s)
      in s\<lparr>staged_full := False\<rparr>)"

definition hash_push :: "env \<Rightarrow> work \<Rightarrow> miner \<Rightarrow> miner \<times> bool" where
  "hash_push E w s =
     (let s = (if work_rollable w then s\<lparr>staged_rollable := staged_rollable s + 1\<rparr> else s);
          s = upd_algo (work_mining_algorithm s w) (\<lambda>a. a\<lparr>ma_staged := ma_staged a + 1\<rparr>) s;
          s = (if w_spare w then s\<lparr>staged_spare := staged_spare s + 1\<rparr> else s)
      in if \<not> getq_frozen s then (s\<lparr>staged_work := hash_sort E tv_sort (staged_work s @ [w])\<rparr>, True)
         else (s, False))"

text \<open>A null pool is address 0; the addresses of pools are at least 1.\<close>

definition discard_work :: "work \<Rightarrow> miner \<Rightarrow> miner" where
  "discard_work w s =
     (let s = (if \<not> w_clone w \<and> w_rolls w = 0 \<and> \<not> w_mined w then
                 (let s = (if w_pool w \<noteq> 0 then
                             upd_pool (w_pool w) (\<lambda>p. p\<lparr>p_discarded_work := p_discarded_work p + 1,
                               p_quota_used := p_quota_used p - 1, p_works := p_works p - 1\<rparr>) s
                           else s)
                  in s\<lparr>total_discarded := total_discarded s + 1\<rparr>)
               else s)
      in free_work w s)"

text \<open>The loop takes the items of the table as it was when it started, each once.\<close>

definition clear_pool_work :: "nat \<Rightarrow> miner \<Rightarrow> miner" where
  "clear_pool_work pool s =
     fold (\<lambda>w s. if w_pool w = pool then free_work w (unstage_work w s) else s) (staged_work s) s"

section \<open>The counters count\<close>

definition count_if :: "('a \<Rightarrow> bool) \<Rightarrow> 'a list \<Rightarrow> int" where
  "count_if P xs = int (length (List.filter P xs))"

lemma count_if_simps [simp]:
  "count_if P [] = 0" "count_if P (x # xs) = (if P x then 1 else 0) + count_if P xs"
  "count_if P (xs @ ys) = count_if P xs + count_if P ys"
  by (simp_all add: count_if_def)

lemma count_if_remove1: "x \<in> set xs \<Longrightarrow> count_if P (remove1 x xs) = count_if P xs - (if P x then 1 else 0)"
  by (induction xs) auto

lemma count_if_mset: "mset xs = mset ys \<Longrightarrow> count_if P xs = count_if P ys"
  unfolding count_if_def by (metis mset_filter size_mset)

text \<open>The invariant: each counter is the number of staged items it stands for, and the ids differ.\<close>

definition staged_ok :: "miner \<Rightarrow> bool" where
  "staged_ok s \<longleftrightarrow>
     staged_rollable s = count_if work_rollable (staged_work s) \<and>
     staged_spare s = count_if w_spare (staged_work s) \<and>
     (\<forall>a. ma_staged (astore s a) = count_if (\<lambda>w. work_mining_algorithm s w = a) (staged_work s)) \<and>
     distinct (map w_id (staged_work s)) \<and> (\<forall>w\<in>set (staged_work s). w_id w < total_work s)"

text \<open>What the invariant depends on.\<close>

lemma staged_ok_cong:
  assumes "staged_work s' = staged_work s" "staged_rollable s' = staged_rollable s" "staged_spare s' = staged_spare s"
    "astore s' = astore s" "gstore s' = gstore s" "total_work s \<le> total_work s'"
    "\<And>a. p_goal (pstore s' a) = p_goal (pstore s a)" "staged_ok s"
  shows "staged_ok s'"
proof -
  have "work_mining_algorithm s' = work_mining_algorithm s"
    using assms(5,7) by (auto simp: work_mining_algorithm_def)
  then show ?thesis using assms by (auto simp: staged_ok_def)
qed

lemma unstage_work_frame [simp, frame_simps]:
  "pstore (unstage_work w s) = pstore s" "gstore (unstage_work w s) = gstore s"
  "pools (unstage_work w s) = pools s" "currentpool (unstage_work w s) = currentpool s"
  "total_work (unstage_work w s) = total_work s" "pool_strategy (unstage_work w s) = pool_strategy s"
  "opt_fail_only (unstage_work w s) = opt_fail_only s" "enabled_pools (unstage_work w s) = enabled_pools s"
  "fresh_pool (unstage_work w s) = fresh_pool s"
  "staged_work (unstage_work w s) = remove1 w (staged_work s)"
  "staged_rollable (unstage_work w s) = staged_rollable s - (if work_rollable w then 1 else 0)"
  "staged_spare (unstage_work w s) = staged_spare s - (if w_spare w then 1 else 0)"
  "astore (unstage_work w s) = (astore s)(work_mining_algorithm s w :=
     (astore s (work_mining_algorithm s w))\<lparr>ma_staged := ma_staged (astore s (work_mining_algorithm s w)) - 1\<rparr>)"
  by (simp_all add: unstage_work_def Let_def work_mining_algorithm_def upd_algo_def)

lemma work_mining_algorithm_unstage [simp]:
  "work_mining_algorithm (unstage_work v s) w = work_mining_algorithm s w"
  by (simp add: work_mining_algorithm_def)

lemma unstage_work_ok [inv_intros]:
  assumes "staged_ok s" "w \<in> set (staged_work s)"
  shows "staged_ok (unstage_work w s)"
  using assms
  by (auto simp: staged_ok_def count_if_remove1 distinct_map inj_on_def dest: notin_set_remove1 in_set_remove1 [THEN iffD1, rotated])

lemma free_work_ok [inv_intros]: "staged_ok s \<Longrightarrow> staged_ok (free_work w s)"
  by (rule staged_ok_cong [of _ s]) simp_all

lemma hash_push_ok [inv_intros]:
  assumes "staged_ok s" "\<not> getq_frozen s" "sorts (hash_sort E) tv_sort"
    and "w_id w \<notin> w_id ` set (staged_work s)" "w_id w < total_work s"
  shows "staged_ok (fst (hash_push E w s)) \<and> mset (staged_work (fst (hash_push E w s))) = add_mset w (mset (staged_work s))"
proof -
  let ?t = "fst (hash_push E w s)" and ?l = "hash_sort E tv_sort (staged_work s @ [w])"
  have m: "mset ?l = mset (staged_work s @ [w])" using assms(3) by (simp add: sorts_def)
  have l: "staged_work ?t = ?l" and c: "staged_rollable ?t = staged_rollable s + (if work_rollable w then 1 else 0)"
    "staged_spare ?t = staged_spare s + (if w_spare w then 1 else 0)" "total_work ?t = total_work s"
    "astore ?t = (astore s)(work_mining_algorithm s w :=
       (astore s (work_mining_algorithm s w))\<lparr>ma_staged := ma_staged (astore s (work_mining_algorithm s w)) + 1\<rparr>)"
    "work_mining_algorithm ?t = work_mining_algorithm s"
    using assms(2) by (auto simp: hash_push_def Let_def work_mining_algorithm_def upd_algo_def fun_eq_iff)
  have "distinct (map w_id ?l)"
  proof -
    have "mset (map w_id ?l) = mset (map w_id (staged_work s @ [w]))" using m by (simp only: mset_map)
    from mset_eq_imp_distinct_iff [OF this] show ?thesis
      using assms(1,4) by (simp add: staged_ok_def)
  qed
  moreover have "set ?l = insert w (set (staged_work s))"
    using mset_eq_setD [OF m] by simp
  moreover have "count_if P ?l = count_if P (staged_work s) + (if P w then 1 else 0)" for P
    using count_if_mset [OF m, of P] by simp
  ultimately show ?thesis
    using assms(1,5) m unfolding staged_ok_def l c by simp
qed

lemma staged_distinct: "staged_ok s \<Longrightarrow> distinct (staged_work s)"
  by (simp add: staged_ok_def distinct_map)

text \<open>Taking the items of a pool off the list, one at a time, leaves the others in their order.\<close>

lemma clear_pool_work_fold:
  assumes "staged_ok s" "distinct ws" "set ws \<subseteq> set (staged_work s)"
  shows "staged_ok (fold (\<lambda>w s. if w_pool w = pool then free_work w (unstage_work w s) else s) ws s) \<and>
         staged_work (fold (\<lambda>w s. if w_pool w = pool then free_work w (unstage_work w s) else s) ws s) =
           List.filter (\<lambda>w. \<not> (w \<in> set ws \<and> w_pool w = pool)) (staged_work s)"
  using assms
proof (induction ws arbitrary: s)
  case (Cons w ws)
  define t where "t = (if w_pool w = pool then free_work w (unstage_work w s) else s)"
  have ok: "staged_ok t"
    using Cons.prems by (auto simp: t_def intro!: inv_intros)
  have l: "staged_work t = List.filter (\<lambda>v. \<not> (v = w \<and> w_pool w = pool)) (staged_work s)"
    using Cons.prems(1) by (simp add: t_def distinct_remove1_removeAll staged_distinct removeAll_filter_not_eq)
      (simp add: eq_commute)
  have sub: "set ws \<subseteq> set (staged_work t)" "distinct ws"
    using Cons.prems(2,3) by (auto simp: l)
  have e: "List.filter (\<lambda>v. \<not> (v \<in> set ws \<and> w_pool v = pool)) (staged_work t) =
        List.filter (\<lambda>v. \<not> (v \<in> set (w # ws) \<and> w_pool v = pool)) (staged_work s)"
    unfolding l filter_filter by (rule filter_cong) auto
  show ?case
    using Cons.IH [OF ok sub(2,1)] unfolding fold_simps(2) o_apply t_def [symmetric] e by simp
qed simp

lemma clear_pool_work_ok [inv_intros]: "staged_ok s \<Longrightarrow> staged_ok (clear_pool_work pool s)"
  using clear_pool_work_fold [of s "staged_work s"] by (simp add: clear_pool_work_def staged_distinct)

lemma staged_clear_pool_work:
  "staged_ok s \<Longrightarrow> staged_work (clear_pool_work pool s) = List.filter (\<lambda>w. w_pool w \<noteq> pool) (staged_work s)"
  using clear_pool_work_fold [of s "staged_work s"]
  by (simp add: clear_pool_work_def staged_distinct cong: filter_cong)

lemma clear_pool_work_frameI:
  assumes "\<And>w s. f (free_work w (unstage_work w s)) = f s"
  shows "f (clear_pool_work pool s) = f s"
proof -
  have "f (fold (\<lambda>w s. if w_pool w = pool then free_work w (unstage_work w s) else s) ws s) = f s" for ws
    by (induction ws arbitrary: s) (simp_all add: assms)
  then show ?thesis by (simp add: clear_pool_work_def)
qed

lemma clear_pool_work_frame [simp, frame_simps]:
  "pstore (clear_pool_work pool s) = pstore s" "gstore (clear_pool_work pool s) = gstore s"
  "pools (clear_pool_work pool s) = pools s" "currentpool (clear_pool_work pool s) = currentpool s"
  "pool_strategy (clear_pool_work pool s) = pool_strategy s" "opt_fail_only (clear_pool_work pool s) = opt_fail_only s"
  "total_work (clear_pool_work pool s) = total_work s" "enabled_pools (clear_pool_work pool s) = enabled_pools s"
  "fresh_pool (clear_pool_work pool s) = fresh_pool s"
  by (rule clear_pool_work_frameI; simp)+

lemma discard_work_ok [inv_intros]: "staged_ok s \<Longrightarrow> staged_ok (discard_work w s)"
  unfolding discard_work_def Let_def
  by (intro free_work_ok) (auto intro: staged_ok_cong [of _ s])

text \<open>A push while the queue is frozen counts an item that is not there.\<close>

lemma hash_push_frozen:
  "getq_frozen s \<Longrightarrow> work_rollable w \<Longrightarrow> staged_ok s \<Longrightarrow> \<not> staged_ok (fst (hash_push E w s))"
  by (simp add: hash_push_def Let_def staged_ok_def upd_algo_def)
end
