(* ===== verification/Pools.thy ===== *)
theory Pools
  imports Staged
begin

text \<open>
  Pool management of \<^verbatim>\<open>miner.c\<close>: the array of pools with its priorities and numbers, enabling,
  disabling, removing and adding a pool, the choice of the current pool, load balancing by quota and
  the choice of the pool for the next work item.
\<close>

section \<open>Judging a pool\<close>

definition pool_unworkable :: "pool \<Rightarrow> bool" where
  "pool_unworkable p =
     (if p_idle p then True
      else if p_enabled p \<noteq> POOL_ENABLED then True
      else if p_has_stratum p \<and> \<not> p_stratum_active p then True
      else False)"

definition pool_unusable :: "pool \<Rightarrow> bool" where
  "pool_unusable p = (if p_idle p then True else if p_enabled p \<noteq> POOL_ENABLED then True else False)"

definition pool_localgen :: "pool \<Rightarrow> bool" where
  "pool_localgen p \<longleftrightarrow> p_last_work_copy p \<noteq> None \<or> p_has_stratum p"

definition pool_supports_block_change_notification :: "pool \<Rightarrow> bool" where
  "pool_supports_block_change_notification p \<longleftrightarrow> p_has_stratum p \<or> p_lp_url p \<noteq> None"

definition pool_has_active_block_change_notification :: "pool \<Rightarrow> bool" where
  "pool_has_active_block_change_notification p \<longleftrightarrow> p_stratum_active p \<or> p_lp_active p"

definition pool_diff_effective_retroactively :: "pool \<Rightarrow> bool" where
  "pool_diff_effective_retroactively p =
     (if p_diff_effective_retroactively p \<noteq> BTS_UNKNOWN
      then p_diff_effective_retroactively p \<noteq> BTS_FALSE
      else p_stratum_active p)"

section \<open>Priorities\<close>

definition priority_pool :: "miner \<Rightarrow> nat \<Rightarrow> nat" where
  "priority_pool s choice =
     (case List.find (\<lambda>a. p_prio (the_pool s a) = int choice) (pools s) of
        Some a \<Rightarrow> a
      | None \<Rightarrow> pools s ! choice)"

text \<open>The loop from index \<open>i\<close> on; \<open>n\<close> iterations are left.\<close>

fun desired_from :: "miner \<Rightarrow> nat \<Rightarrow> nat \<Rightarrow> nat \<Rightarrow> bool" where
  "desired_from s pool i 0 = False"
| "desired_from s pool i (Suc n) =
     (let other_pool = priority_pool s i
      in if other_pool = pool then True
         else if pool_unusable (the_pool s other_pool) then desired_from s pool (i + 1) n
         else if pool_malgo s other_pool = pool_malgo s pool then False
         else desired_from s pool (i + 1) n)"

text \<open>\<open>cp\<close> is \<open>None\<close> where the caller passes a null pointer.\<close>

definition pool_actively_desired :: "miner \<Rightarrow> nat \<Rightarrow> nat option \<Rightarrow> bool" where
  "pool_actively_desired s pool cp =
     (if p_enabled (the_pool s pool) \<noteq> POOL_ENABLED then False
      else if pool_strategy s = POOL_LOADBALANCE \<and> p_quota (the_pool s pool) \<noteq> 0 then True
      else if pool_strategy s = POOL_BALANCE \<and> \<not> p_failover_only (the_pool s pool) then True
      else let cp = (case cp of None \<Rightarrow> current_pool s | Some c \<Rightarrow> c)
           in if pool = cp then True else desired_from s pool 0 (total_pools s))"

definition pool_actively_in_use :: "miner \<Rightarrow> nat \<Rightarrow> nat option \<Rightarrow> bool" where
  "pool_actively_in_use s pool cp \<longleftrightarrow> \<not> pool_unworkable (the_pool s pool) \<and> pool_actively_desired s pool cp"

section \<open>Switching pools\<close>

definition raise_below :: "nat \<Rightarrow> miner \<Rightarrow> miner" where
  "raise_below selected s =
     fold (\<lambda>a s. if p_prio (the_pool s a) < p_prio (the_pool s selected)
                 then upd_pool a (\<lambda>p. p\<lparr>p_prio := p_prio p + 1\<rparr>) s else s) (pools s) s"

definition make_first :: "nat \<Rightarrow> miner \<Rightarrow> miner" where
  "make_first selected s =
     (if p_prio (the_pool s selected) \<noteq> 0
      then upd_pool selected (\<lambda>p. p\<lparr>p_prio := 0\<rparr>) (raise_below selected s)
      else s)"

text \<open>The number of the usable pool of highest priority, or \<open>pool_no\<close> when there is none.\<close>

definition best_pool_no :: "miner \<Rightarrow> int \<Rightarrow> int" where
  "best_pool_no s pool_no =
     (case List.find (\<lambda>i. \<not> pool_unusable (the_pool s (priority_pool s i))) [0..<total_pools s] of
        None \<Rightarrow> pool_no
      | Some i \<Rightarrow> p_pool_no (the_pool s (priority_pool s i)))"

text \<open>The cycle after \<open>next_pool\<close>, \<open>n\<close> iterations; the result is the number and the failover pool.\<close>

fun cycle_pool_no :: "miner \<Rightarrow> nat \<Rightarrow> int \<Rightarrow> int \<Rightarrow> nat option \<Rightarrow> int \<times> nat option" where
  "cycle_pool_no s 0 next_pool pool_no failover_pool = (pool_no, failover_pool)"
| "cycle_pool_no s (Suc n) next_pool pool_no failover_pool =
     (let next_pool = (if next_pool + 1 \<ge> int (total_pools s) then 0 else next_pool + 1);
          pool = pools s ! nat next_pool
      in if pool_unusable (the_pool s pool) then cycle_pool_no s n next_pool pool_no failover_pool
         else if p_failover_only (the_pool s pool)
         then cycle_pool_no s n next_pool pool_no (if failover_pool = None then Some pool else failover_pool)
         else (next_pool, failover_pool))"

definition choose_pool :: "miner \<Rightarrow> nat option \<Rightarrow> nat" where
  "choose_pool s selected =
     (let pool_no = p_pool_no (the_pool s (current_pool s));
          (pool_no, failover_pool) =
            (case pool_strategy s of
               POOL_ROUNDROBIN \<Rightarrow>
                 (case selected of
                    Some a \<Rightarrow> if \<not> p_idle (the_pool s a) then (p_pool_no (the_pool s a), None)
                              else cycle_pool_no s (total_pools s - 1) pool_no pool_no None
                  | None \<Rightarrow> cycle_pool_no s (total_pools s - 1) pool_no pool_no None)
             | POOL_ROTATE \<Rightarrow>
                 (case selected of
                    Some a \<Rightarrow> if \<not> p_idle (the_pool s a) then (p_pool_no (the_pool s a), None)
                              else cycle_pool_no s (total_pools s - 1) pool_no pool_no None
                  | None \<Rightarrow> cycle_pool_no s (total_pools s - 1) pool_no pool_no None)
             | _ \<Rightarrow> (best_pool_no s pool_no, None));
          pool = pools s ! nat pool_no
      in case failover_pool of
           Some f \<Rightarrow> if pool_unusable (the_pool s pool) then f else pool
         | None \<Rightarrow> pool)"

text \<open>
  \<^verbatim>\<open>switch_pools\<close> behind its call of \<^verbatim>\<open>enable_pool\<close>. \<^verbatim>\<open>enable_pool\<close> and \<^verbatim>\<open>switch_pools\<close> call each other, but a
  pool is enabled before the inner call, in which \<^verbatim>\<open>enable_pool\<close> then does nothing.
\<close>

definition switch_pools_enabled :: "nat option \<Rightarrow> miner \<Rightarrow> miner" where
  "switch_pools_enabled selected s =
     (let last_pool = current_pool s;
          s = (case selected of None \<Rightarrow> s | Some a \<Rightarrow> make_first a s);
          pool = choose_pool s selected;
          s = s\<lparr>currentpool := Some pool\<rparr>;
          s = (if opt_fail_only s then upd_pool pool (\<lambda>p. p\<lparr>p_lagging := True\<rparr>) s else s)
      in if pool \<noteq> last_pool then
           (let s = upd_pool pool (\<lambda>p. p\<lparr>p_block_id := 0\<rparr>) s
            in if pool_strategy s \<noteq> POOL_LOADBALANCE \<and> pool_strategy s \<noteq> POOL_BALANCE
                  \<and> (pool_localgen (the_pool s pool) \<or> opt_fail_only s)
               then clear_pool_work last_pool s else s)
         else s)"

definition enable_pool :: "nat \<Rightarrow> miner \<Rightarrow> miner" where
  "enable_pool pool s =
     (if p_enabled (the_pool s pool) \<noteq> POOL_ENABLED then
        (let s = s\<lparr>enabled_pools := enabled_pools s + 1\<rparr>;
             s = upd_pool pool (\<lambda>p. p\<lparr>p_enabled := POOL_ENABLED\<rparr>) s
         in if p_prio (the_pool s pool) < p_prio (the_pool s (current_pool s))
            then switch_pools_enabled (Some pool) s else s)
      else s)"

definition switch_pools :: "nat option \<Rightarrow> miner \<Rightarrow> miner" where
  "switch_pools selected s =
     switch_pools_enabled selected (case selected of None \<Rightarrow> s | Some a \<Rightarrow> enable_pool a s)"

definition manual_enable_pool :: "nat \<Rightarrow> miner \<Rightarrow> miner" where
  "manual_enable_pool pool s =
     enable_pool pool (upd_pool pool (\<lambda>p. p\<lparr>p_failover_only := False,
       p_quota := (if p_quota p = 0 then 1 else p_quota p)\<rparr>) s)"

definition disable_pool :: "nat \<Rightarrow> pool_enable \<Rightarrow> miner \<Rightarrow> miner" where
  "disable_pool pool enable_status s =
     (if p_enabled (the_pool s pool) = POOL_DISABLED then s
      else if p_enabled (the_pool s pool) \<noteq> POOL_ENABLED
      then upd_pool pool (\<lambda>p. p\<lparr>p_enabled := enable_status\<rparr>) s
      else let s = s\<lparr>enabled_pools := enabled_pools s - 1\<rparr>;
               s = upd_pool pool (\<lambda>p. p\<lparr>p_enabled := enable_status\<rparr>) s
           in if pool = current_pool s then switch_pools None s else s)"

definition pool_died :: "nat \<Rightarrow> miner \<Rightarrow> miner" where
  "pool_died pool s =
     (if \<not> p_idle (the_pool s pool) then
        (let s = upd_pool pool (\<lambda>p. p\<lparr>p_idle := True, p_tv_idle := now s\<rparr>) s
         in if pool = current_pool s then switch_pools None s else s)
      else s)"

section \<open>Adding and removing\<close>

definition lower_above :: "nat \<Rightarrow> miner \<Rightarrow> miner" where
  "lower_above pool s =
     fold (\<lambda>other s. if p_prio (the_pool s other) > p_prio (the_pool s pool)
                     then upd_pool other (\<lambda>p. p\<lparr>p_prio := p_prio p - 1\<rparr>) s else s) (pools s) s"

definition remove_pool :: "nat \<Rightarrow> miner \<Rightarrow> miner" where
  "remove_pool pool s =
     (let last_pool = total_pools s - 1;
          s = disable_pool pool POOL_DISABLED s;
          s = lower_above pool s;
          no = p_pool_no (the_pool s pool);
          s = (if no < int last_pool then
                 (let s = upd_pool (pools s ! last_pool) (\<lambda>p. p\<lparr>p_pool_no := no\<rparr>) s
                  in s\<lparr>pools := (pools s)[nat no := pools s ! last_pool]\<rparr>)
               else s);
          s = upd_pool pool (\<lambda>p. p\<lparr>p_pool_no := int (total_pools s), p_removed := True, p_has_stratum := False\<rparr>) s
      in s\<lparr>pools := take last_pool (pools s)\<rparr>)"

section \<open>Quotas\<close>

text \<open>The search for a divisor goes down one by one; 1 divides every quota, so 0 is never reached.\<close>

function lower_gcd :: "int \<Rightarrow> int \<Rightarrow> int" where
  "lower_gcd quota g = (if 0 < g \<and> quota mod g \<noteq> 0 then lower_gcd quota (g - 1) else g)"
  by pat_completeness auto
termination by (relation "measure (\<lambda>(q, g). nat g)") auto

declare lower_gcd.simps [simp del]

definition ULONG_MAX :: int where
  "ULONG_MAX = 2 ^ 64 - 1"

definition quota_gcd_of :: "int list \<Rightarrow> int" where
  "quota_gcd_of quotas =
     (let lowest_quota = fold (\<lambda>q low. if q \<noteq> 0 \<and> q < low then q else low) quotas ULONG_MAX
      in if lowest_quota < ULONG_MAX
         then fold (\<lambda>q g. if q = 0 then g else lower_gcd q g) quotas lowest_quota
         else 1)"

text \<open>The members are \<^verbatim>\<open>int\<close>, the divisors \<^verbatim>\<open>unsigned long\<close>: the code converts both ways.\<close>

definition adjust_quota_gcd :: "miner \<Rightarrow> miner" where
  "adjust_quota_gcd s =
     (let g = quota_gcd_of (map (\<lambda>a. ulong_of_int (p_quota (the_pool s a))) (pools s));
          s = fold (\<lambda>a s. upd_pool a (\<lambda>p.
                let used = int_of_long (ulong_of_int (ulong_of_int (p_quota_used p) * global_quota_gcd s));
                    used = int_of_long (ulong_of_int used div g)
                in p\<lparr>p_quota_used := used, p_quota_gcd := int_of_long (ulong_of_int (p_quota p) div g)\<rparr>) s)
              (pools s) s
      in s\<lparr>global_quota_gcd := g\<rparr>)"

section \<open>Choosing the pool for the next work item\<close>

text \<open>The result of \<^verbatim>\<open>select_balanced\<close> is the pool, \<open>None\<close> for a null pointer; \<open>malgo\<close> may be null as well.\<close>

definition select_balanced :: "nat \<Rightarrow> nat option \<Rightarrow> miner \<Rightarrow> miner \<times> nat option" where
  "select_balanced cp malgo s =
     (let (lowest, ret, failover_pool) =
            fold (\<lambda>pool (lowest, ret, failover_pool).
                if malgo \<noteq> None \<and> Some (pool_malgo s pool) \<noteq> malgo then (lowest, ret, failover_pool)
                else if pool_unworkable (the_pool s pool) then (lowest, ret, failover_pool)
                else if p_failover_only (the_pool s pool)
                then (lowest, ret, if failover_pool = None then Some pool else failover_pool)
                else if p_shares (the_pool s pool) < lowest
                then (p_shares (the_pool s pool), pool, failover_pool)
                else (lowest, ret, failover_pool))
              (pools s) (p_shares (the_pool s cp), cp, None);
          ret = (if malgo \<noteq> None \<and> Some (pool_malgo s ret) \<noteq> malgo then failover_pool
                 else if pool_unworkable (the_pool s ret) \<and> failover_pool \<noteq> None then failover_pool
                 else Some ret)
      in case ret of
           Some r \<Rightarrow> (upd_pool r (\<lambda>p. p\<lparr>p_shares := p_shares p + 1\<rparr>) s, ret)
         | None \<Rightarrow> (s, None))"

definition next_rotation :: "miner \<Rightarrow> miner" where
  "next_rotation s =
     s\<lparr>rotating_pool := (if rotating_pool s + 1 \<ge> total_pools s then 0 else rotating_pool s + 1)\<rparr>"

text \<open>
  The loop of \<^verbatim>\<open>select_loadbalance\<close> with \<open>n\<close> iterations left. \<open>None\<close> is the division by a zero
  \<^verbatim>\<open>quota_gcd\<close>, which ends the program, or the read of the slot behind the last pool: nothing resets
  \<^verbatim>\<open>rotating_pool\<close> when a pool is removed.
\<close>

fun loadbalance_loop :: "nat option \<Rightarrow> nat \<Rightarrow> nat option \<Rightarrow> int \<Rightarrow> miner \<Rightarrow> (miner \<times> nat option) option" where
  "loadbalance_loop malgo 0 pool_lowest lowest s = Some (s, pool_lowest)"
| "loadbalance_loop malgo (Suc n) pool_lowest lowest s =
     (let pool = pools s ! rotating_pool s
      in if rotating_pool s \<ge> total_pools s then None
         else if malgo \<noteq> None \<and> Some (pool_malgo s pool) \<noteq> malgo
         then loadbalance_loop malgo n pool_lowest lowest (next_rotation s)
         else let quota_left = (p_quota_used (the_pool s pool) < p_quota_gcd (the_pool s pool));
                  s = (if quota_left then upd_pool pool (\<lambda>p. p\<lparr>p_quota_used := p_quota_used p + 1\<rparr>) s else s)
              in if quota_left \<and> \<not> pool_unworkable (the_pool s pool) then Some (s, Some pool)
                 else let s = (if quota_left \<and> opt_fail_only s
                               then upd_pool (priority_pool s 0) (\<lambda>p. p\<lparr>p_quota_used := p_quota_used p - 1\<rparr>) s
                               else s)
                      in if malgo = None then loadbalance_loop malgo n pool_lowest lowest (next_rotation s)
                         else if p_quota_gcd (the_pool s pool) = 0 then None
                         else let count = p_quota_used (the_pool s pool) sdiv p_quota_gcd (the_pool s pool)
                              in if count < lowest
                                 then loadbalance_loop malgo n (Some pool) count (next_rotation s)
                                 else loadbalance_loop malgo n pool_lowest lowest (next_rotation s))"

definition select_loadbalance :: "nat option \<Rightarrow> miner \<Rightarrow> (miner \<times> nat option) option" where
  "select_loadbalance malgo s =
     (let avail = list_ex (\<lambda>a. p_quota_used (the_pool s a) < p_quota_gcd (the_pool s a)) (pools s);
          s = (if \<not> avail
               then next_rotation (fold (\<lambda>a s. upd_pool a (\<lambda>p. p\<lparr>p_quota_used := p_quota_used p - p_quota_gcd p\<rparr>) s) (pools s) s)
               else s);
          rpsave = rotating_pool s
      in case loadbalance_loop malgo (total_pools s) None (2 ^ 31 - 1) s of
           None \<Rightarrow> None
         | Some (s, pool) \<Rightarrow> Some (if malgo \<noteq> None then s\<lparr>rotating_pool := rpsave\<rparr> else s, pool))"

definition select_failover :: "nat option \<Rightarrow> miner \<Rightarrow> nat option" where
  "select_failover malgo s =
     List.find (\<lambda>tp. \<not> (malgo \<noteq> None \<and> Some (pool_malgo s tp) \<noteq> malgo) \<and> \<not> pool_unusable (the_pool s tp))
       (map (priority_pool s) [0..<total_pools s])"

text \<open>
  From the label \<^verbatim>\<open>retry\<close> to the label \<^verbatim>\<open>out\<close>. \<open>pool\<close> is the variable as the last round left it: it is
  null in the first round only.
\<close>

definition select_candidate :: "bool \<Rightarrow> nat option \<Rightarrow> nat option \<Rightarrow> miner \<Rightarrow> (miner \<times> nat option) option" where
  "select_candidate lagging malgo pool s =
     (let cp = current_pool s;
          simple_failover = (\<lambda>(s, pool).
            let pool = (if pool = None then select_failover malgo s else pool)
            in if pool = None
               then if malgo \<noteq> None \<and> Some (pool_malgo s cp) \<noteq> malgo then (s, None) else (s, Some cp)
               else (s, pool))
      in if pool_strategy s = POOL_BALANCE
         then let (s, pool) = select_balanced cp malgo s
              in (case pool of
                    None \<Rightarrow> Some (simple_failover (s, None))
                  | Some p \<Rightarrow> if pool_unworkable (the_pool s p) then Some (simple_failover (s, pool)) else Some (s, pool))
         else if pool_strategy s \<noteq> POOL_LOADBALANCE \<and> (\<not> lagging \<or> opt_fail_only s)
         then if malgo \<noteq> None \<and> Some (pool_malgo s cp) \<noteq> malgo then Some (simple_failover (s, pool))
              else Some (s, Some cp)
         else map_option simple_failover (select_loadbalance malgo s))"

text \<open>
  \<open>pool_active\<close> asks the pool over the network and is given, with the state it leaves. Each round
  of the \<^verbatim>\<open>retry\<close> loop that gets no answer kills a pool and tries again, for as long as it takes;
  \<open>fuel\<close> bounds the rounds. The outer \<open>None\<close> is the end of the fuel or the division by zero.
\<close>

fun select_pool_from ::
  "(nat \<Rightarrow> miner \<Rightarrow> miner \<times> bool) \<Rightarrow> nat \<Rightarrow> bool \<Rightarrow> nat option \<Rightarrow> nat option \<Rightarrow> miner \<Rightarrow> (miner \<times> nat option) option"
where
  "select_pool_from pool_active 0 lagging malgo pool s = None"
| "select_pool_from pool_active (Suc fuel) lagging malgo pool s =
     (let cp = current_pool s
      in case select_candidate lagging malgo pool s of
           None \<Rightarrow> None
         | Some (s, None) \<Rightarrow> Some (s, None)
         | Some (s, Some pool) \<Rightarrow>
             if \<not> pool_actively_in_use s pool (Some cp)
             then let (s, active) = pool_active pool s
                  in if \<not> active then select_pool_from pool_active fuel lagging malgo (Some pool) (pool_died pool s)
                     else Some (upd_pool pool (\<lambda>p. p\<lparr>p_idle := False\<rparr>) s, Some pool)
             else Some (s, Some pool))"

definition select_pool ::
  "(nat \<Rightarrow> miner \<Rightarrow> miner \<times> bool) \<Rightarrow> nat \<Rightarrow> bool \<Rightarrow> nat option \<Rightarrow> miner \<Rightarrow> (miner \<times> nat option) option"
where
  "select_pool pool_active fuel lagging malgo s = select_pool_from pool_active fuel lagging malgo None s"

section \<open>Connections\<close>

definition select_longpoll_pool_by :: "(pool \<Rightarrow> bool) \<Rightarrow> nat \<Rightarrow> miner \<Rightarrow> nat option" where
  "select_longpoll_pool_by func cp s =
     (if func (the_pool s cp) then Some cp
      else List.find (\<lambda>a. p_goal (the_pool s cp) = p_goal (the_pool s a) \<and> func (the_pool s a)) (pools s))"

definition select_longpoll_pool :: "nat \<Rightarrow> miner \<Rightarrow> nat option" where
  "select_longpoll_pool = select_longpoll_pool_by pool_supports_block_change_notification"

definition pool_active_lp_pool :: "nat \<Rightarrow> miner \<Rightarrow> nat option" where
  "pool_active_lp_pool = select_longpoll_pool_by pool_has_active_block_change_notification"

definition cp_prio :: "miner \<Rightarrow> int" where
  "cp_prio s = p_prio (the_pool s (current_pool s))"

definition cnx_needed :: "nat \<Rightarrow> miner \<Rightarrow> bool" where
  "cnx_needed pool s =
     (let p = the_pool s pool; cp = current_pool s in
      if p_enabled p = POOL_DISABLED then False
      else if p_has_stratum p \<and> p_idle p then True
      else if pool_actively_desired s pool (Some cp) then True
      else if \<not> pool_localgen (the_pool s cp) \<and> (\<not> opt_fail_only s \<or> p_hdr_path (the_pool s cp) = None) then True
      else if timer_elapsed (p_tv_last_work_time p) (now s) < 120 then True
      else if pool_strategy s = POOL_FAILOVER \<and> p_prio p < cp_prio s then True
      else if pool_unworkable (the_pool s cp) then True
      else if no_work s then True
      else if pool_active_lp_pool cp s = Some pool then True
      else False)"

section \<open>The user's order of priorities\<close>

text \<open>The pieces the loop looks at: it stops at the end of the string, so a last comma adds none.\<close>

function prio_items :: "string \<Rightarrow> string list" where
  "prio_items s =
     (if s = [] then []
      else case dropWhile (\<lambda>c. c \<noteq> CHR '','') s of
             [] \<Rightarrow> [s]
           | c # rest \<Rightarrow> takeWhile (\<lambda>c. c \<noteq> CHR '','') s # prio_items rest)"
  by pat_completeness auto
termination
  by (relation "measure length") (auto dest!: arg_cong [where f = length] intro: le_imp_less_Suc length_dropWhile_le
      simp: less_eq_Suc_le, metis length_dropWhile_le Suc_le_eq length_Cons)

declare prio_items.simps [simp del]

text \<open>The replies of the pool commands of the API, with the number or the string they print.\<close>

datatype api_message =
  MSG_NOPOOL | MSG_MISPID | MSG_INVPID int | MSG_SWITCHP int | MSG_ENAPOOL int | MSG_DISPOOL int | MSG_ALRENAP int
| MSG_ALRDISP int | MSG_DISLASTP int | MSG_MISPDP | MSG_INVPDP string | MSG_ADDPOOL string | MSG_REMLASTP int
| MSG_ACTPOOL int | MSG_REMPOOL int string | MSG_POOLPRIO | MSG_DUPPID int | MSG_CONVAL string
| MSG_INVNEG int string | MSG_SETQUOTA int string | MSG_MISBOOL | MSG_INVBOOL | MSG_FOO bool

text \<open>The loop over the pieces: the error, or the pools named so far in the order given.\<close>

fun prio_parse :: "nat \<Rightarrow> nat list \<Rightarrow> string list \<Rightarrow> api_message + nat list" where
  "prio_parse n named [] = Inr named"
| "prio_parse n named (ptr # rest) =
     (let i = atoi ptr
      in if i < 0 \<or> i \<ge> int n then Inl (MSG_INVPID i)
         else if nat i \<in> set named then Inl (MSG_DUPPID i)
         else prio_parse n (named @ [nat i]) rest)"

text \<open>
  The error of the parse with nothing changed; otherwise the pools named, in that order, get the
  first priorities. Then, in the order of their old priorities, the other pools: for each \<open>pr\<close> the
  first pool not yet changed that has it.
\<close>

definition append_unchanged :: "nat list \<Rightarrow> miner \<Rightarrow> miner" where
  "append_unchanged named s =
     fst (fold (\<lambda>pr (s, changed, prio).
        case List.find (\<lambda>i. i \<notin> set changed \<and> p_prio (the_pool s (pools s ! i)) = int pr) [0..<total_pools s] of
          None \<Rightarrow> (s, changed, prio)
        | Some i \<Rightarrow> (upd_pool (pools s ! i) (\<lambda>p. p\<lparr>p_prio := int prio\<rparr>) s, i # changed, prio + 1))
      [0..<total_pools s] (s, named, length named))"

definition prioritize_pools :: "string option \<Rightarrow> miner \<Rightarrow> miner \<times> api_message" where
  "prioritize_pools param s =
     (if pools s = [] then (s, MSG_NOPOOL)
      else case param of
        None \<Rightarrow> (s, MSG_MISPID)
      | Some str \<Rightarrow>
          if str = [] then (s, MSG_MISPID)
          else case prio_parse (total_pools s) [] (prio_items str) of
            Inl err \<Rightarrow> (s, err)
          | Inr named \<Rightarrow>
              let s = fold (\<lambda>k s. upd_pool (pools s ! (named ! k)) (\<lambda>p. p\<lparr>p_prio := int k\<rparr>) s) [0..<length named] s;
                  s = append_unchanged named s
              in (if p_prio (the_pool s (current_pool s)) \<noteq> 0 then switch_pools None s else s, MSG_POOLPRIO))"

text \<open>\<^verbatim>\<open>validate_pool_priorities\<close>: the first pass marks the pools whose priority is in range and not yet used.\<close>

definition valid_priorities :: "miner \<Rightarrow> int list \<times> nat list" where
  "valid_priorities s =
     fold (\<lambda>i (used, valid).
        let pr = p_prio (the_pool s (pools s ! i))
        in if pr \<ge> 0 \<and> pr < int (total_pools s) \<and> pr \<notin> set used then (pr # used, i # valid) else (used, valid))
      [0..<total_pools s] ([], [])"

definition validate_pool_priorities :: "miner \<Rightarrow> miner" where
  "validate_pool_priorities s =
     (let (used, valid) = valid_priorities s
      in fst (fold (\<lambda>i (s, used).
          if i \<in> set valid then (s, used)
          else case List.find (\<lambda>j. int j \<notin> set used) [0..<total_pools s] of
                 None \<Rightarrow> (s, used)
               | Some j \<Rightarrow> (upd_pool (pools s ! i) (\<lambda>p. p\<lparr>p_prio := int j\<rparr>) s, int j # used))
        [0..<total_pools s] (s, used)))"

section \<open>Adding a pool\<close>

definition zero_stratum_work :: stratum_work where
  "zero_stratum_work = \<lparr>sw_nonce1 = None, sw_tr = None, sw_job_id = None, sw_clean = False, sw_coinbase = bytes_init,
     sw_nonce2_offset = 0, sw_n2size = 0, sw_merkles = 0, sw_merkle_bin = bytes_init, sw_header1 = replicate 36 0,
     sw_diffbits = replicate 4 0, sw_ntime = 0, sw_tv_received = tv 0 0, sw_ntime_roll_limits = w_ntime_roll_limits zero_work,
     sw_target = replicate 32 0, sw_work_restart_id = 0\<rparr>"

definition zero_pool_stats :: pool_stats where
  "zero_pool_stats = \<lparr>ps_accepted = 0, ps_rejected = 0, ps_stale_shares = 0, ps_diff1 = 0, ps_diff_accepted = 0,
     ps_diff_rejected = 0, ps_diff_stale = 0, ps_best_diff = 0, ps_submit_fail = False, ps_remotefail_occasions = 0,
     ps_last_share_time = 0, ps_last_share_diff = 0, ps_last_diff = 0, ps_min_diff = 0, ps_max_diff = 0,
     ps_min_diff_count = 0, ps_max_diff_count = 0\<rparr>"

definition zero_session :: stratum_session where
  "zero_session = \<lparr>ss_n1_len = 0, ss_sessionid = None, ss_goalname = None, ss_next_goalname = None, ss_next_goal_malgo = None,
     ss_next_nonce1 = None, ss_next_n2size = 0, ss_admin_msg = None, ss_probed = False, ss_getwork_requested = 0,
     ss_opaque = False, ss_transparency_probed = False, ss_tv_transparency = tv 0 0\<rparr>"

definition zero_pool :: pool where
  "zero_pool = \<lparr>p_pool_no = 0, p_prio = 0, p_quota = 0, p_quota_gcd = 0, p_quota_used = 0, p_works = 0, p_shares = 0,
     p_solved = 0, p_idle = False, p_lagging = False, p_enabled = POOL_DISABLED, p_failover_only = False,
     p_submit_old = False, p_removed = False, p_work_restart_id = 0, p_work_restart_time = 0, p_block_id = 0,
     p_goal = 0, p_diff_effective_retroactively = BTS_FALSE, p_hdr_path = None, p_lp_url = None, p_lp_active = False,
     p_discarded_work = 0, p_tv_idle = tv 0 0, p_rpc_url = [], p_rpc_user = [], p_rpc_pass = [], p_sockaddr_url = [],
     p_stratum_port = [], p_stratum_url = [], p_testing = False, p_seq_rejects = 0, p_last_work_time = 0, p_tv_last_work_time = tv 0 0,
     p_getwork_delay = 1, p_nonce2 = 0, p_nonce2sz = 0, p_has_stratum = False, p_stratum_active = False,
     p_stratum_notify = False, p_swork = zero_stratum_work, p_next_target = replicate 32 0, p_last_work_copy = None,
     p_stats = zero_pool_stats, p_session = zero_session,
     p_cb_param = \<lparr>cb_testnet = False, cb_scripts = [], cb_total = 0, cb_perc = 0\<rparr>\<rparr>"

definition add_pool2 :: "nat \<Rightarrow> miner \<Rightarrow> miner \<times> nat" where
  "add_pool2 goal s =
     (let pool = fresh_pool s;
          n = int (total_pools s);
          s = upd_pool pool (\<lambda>_. zero_pool\<lparr>p_pool_no := n, p_prio := n, p_goal := goal, p_idle := True,
                p_tv_idle := tv (- 1) 0, p_quota := 1,
                p_session := zero_session\<lparr>ss_tv_transparency := timer_unset (tv 0 0)\<rparr>\<rparr>) s;
          s = s\<lparr>fresh_pool := pool + 1, pools := pools s @ [pool]\<rparr>
      in if opt_benchmark s then (remove_pool pool s, pool)
         else let s = adjust_quota_gcd s;
                  s = (if currentpool s = None then s\<lparr>currentpool := Some pool\<rparr> else s)
              in (enable_pool pool s, pool))"

end
