(* ===== verification/PoolFacts.thy ===== *)
theory PoolFacts
  imports Pools
begin

text \<open>
  What holds of the pool array: its invariant and every operation that keeps it, the pool that
  switching chooses, removing, adding and quotas, and the repair of the priorities.
\<close>

section \<open>The invariant of the pool array\<close>

definition prios :: "miner \<Rightarrow> int list" where
  "prios s = map (\<lambda>a. p_prio (the_pool s a)) (pools s)"

text \<open>The priorities are the numbers below the number of pools, each once.\<close>

definition prios_ok :: "miner \<Rightarrow> bool" where
  "prios_ok s \<longleftrightarrow> distinct (prios s) \<and> set (prios s) = {0..<int (total_pools s)}"

text \<open>Each pool knows its place, is in the array once, the current pool is one of them, and the counter of
  enabled pools counts.\<close>

definition pools_inv :: "miner \<Rightarrow> bool" where
  "pools_inv s \<longleftrightarrow>
     distinct (pools s) \<and> prios_ok s \<and> (\<forall>i<total_pools s. p_pool_no (the_pool s (pools s ! i)) = int i) \<and>
     (\<exists>c\<in>set (pools s). currentpool s = Some c) \<and>
     enabled_pools s = count_if (\<lambda>a. p_enabled (the_pool s a) = POOL_ENABLED) (pools s)"

lemma length_prios [simp]: "length (prios s) = total_pools s"
  by (simp add: prios_def)

lemma prios_okI:
  assumes "distinct (prios s)" "set (prios s) \<subseteq> {0..<int (total_pools s)}"
  shows "prios_ok s"
proof -
  have "card (set (prios s)) = card {0..<int (total_pools s)}"
    using assms(1) by (simp add: distinct_card)
  then show ?thesis using assms by (simp add: prios_ok_def card_subset_eq)
qed

lemma prios_ok_iff:
  "distinct (pools s) \<Longrightarrow> prios_ok s \<longleftrightarrow>
     inj_on (\<lambda>a. p_prio (the_pool s a)) (set (pools s)) \<and>
     (\<forall>a\<in>set (pools s). 0 \<le> p_prio (the_pool s a) \<and> p_prio (the_pool s a) < int (total_pools s))"
proof (rule iffI, goal_cases)
  case 1
  then show ?case by (auto simp: prios_ok_def prios_def distinct_map)
next
  case 2
  then show ?case by (intro prios_okI) (auto simp: prios_def distinct_map)
qed

text \<open>A loop over the array that changes each pool by itself.\<close>

lemma fold_upd_pool:
  "distinct as \<Longrightarrow>
   fold (\<lambda>a. upd_pool a (f a)) as s = s\<lparr>pstore := (\<lambda>a. if a \<in> set as then f a (pstore s a) else pstore s a)\<rparr>"
proof (induction as arbitrary: s)
  case (Cons b as)
  then show ?case by (simp add: upd_pool_def) (rule arg_cong [where f = "\<lambda>g. s\<lparr>pstore := g\<rparr>"], auto)
qed simp

lemma if_upd_pool: "(if c (the_pool s a) then upd_pool a g s else s) = upd_pool a (\<lambda>p. if c p then g p else p) s"
  by (simp add: upd_pool_def)

lemma raise_below_eq:
  assumes "distinct (pools s)"
  shows "raise_below sel s = s\<lparr>pstore := (\<lambda>a.
    if a \<in> set (pools s) \<and> p_prio (the_pool s a) < p_prio (the_pool s sel)
    then (the_pool s a)\<lparr>p_prio := p_prio (the_pool s a) + 1\<rparr> else the_pool s a)\<rparr>"
proof -
  define k where "k = p_prio (the_pool s sel)"
  let ?g = "\<lambda>p :: pool. if p_prio p < k then p\<lparr>p_prio := p_prio p + 1\<rparr> else p"
  have "fold (\<lambda>a s. if p_prio (the_pool s a) < p_prio (the_pool s sel)
                 then upd_pool a (\<lambda>p. p\<lparr>p_prio := p_prio p + 1\<rparr>) s else s) as t = fold (\<lambda>a. upd_pool a ?g) as t"
    if "p_prio (the_pool t sel) = k" for as t
    using that
  proof (induction as arbitrary: t)
    case (Cons a as)
    have "(if p_prio (the_pool t a) < p_prio (the_pool t sel)
           then upd_pool a (\<lambda>p. p\<lparr>p_prio := p_prio p + 1\<rparr>) t else t) = upd_pool a ?g t"
      unfolding Cons.prems by (rule if_upd_pool)
    moreover have "p_prio (the_pool (upd_pool a ?g t) sel) = k"
      using Cons.prems by auto
    ultimately show ?case using Cons.IH [of "upd_pool a ?g t"] by simp
  qed simp
  then have "raise_below sel s = fold (\<lambda>a. upd_pool a ?g) (pools s) s"
    unfolding raise_below_def k_def by blast
  also have "\<dots> = s\<lparr>pstore := (\<lambda>a. if a \<in> set (pools s) then ?g (pstore s a) else pstore s a)\<rparr>"
    using assms by (rule fold_upd_pool)
  finally show ?thesis unfolding k_def by (auto intro!: arg_cong [where f = "\<lambda>g. s\<lparr>pstore := g\<rparr>"])
qed

text \<open>The priorities once a pool has been put first, and nothing else changed.\<close>

definition first_prio :: "miner \<Rightarrow> nat \<Rightarrow> nat \<Rightarrow> int" where
  "first_prio s sel a =
     (if p_prio (the_pool s sel) = 0 then p_prio (the_pool s a)
      else if a = sel then 0
      else if a \<in> set (pools s) \<and> p_prio (the_pool s a) < p_prio (the_pool s sel) then p_prio (the_pool s a) + 1
      else p_prio (the_pool s a))"

lemma make_first_eq:
  assumes "distinct (pools s)"
  shows "make_first sel s = s\<lparr>pstore := (\<lambda>a. (the_pool s a)\<lparr>p_prio := first_prio s sel a\<rparr>)\<rparr>"
  using assms unfolding make_first_def raise_below_eq [OF assms] first_prio_def upd_pool_def
  by (auto intro!: arg_cong [where f = "\<lambda>g. s\<lparr>pstore := g\<rparr>"])

lemma first_prio_inj:
  assumes "distinct (pools s)" "prios_ok s" "sel \<in> set (pools s)"
  shows "inj_on (first_prio s sel) (set (pools s))"
    and "\<And>a. a \<in> set (pools s) \<Longrightarrow> 0 \<le> first_prio s sel a \<and> first_prio s sel a < int (total_pools s)"
proof -
  have P: "inj_on (\<lambda>a. p_prio (the_pool s a)) (set (pools s))"
    "\<And>a. a \<in> set (pools s) \<Longrightarrow> 0 \<le> p_prio (the_pool s a) \<and> p_prio (the_pool s a) < int (total_pools s)"
    using assms by (auto simp: prios_ok_iff)
  show "inj_on (first_prio s sel) (set (pools s))"
  proof (rule inj_onI)
    fix a b assume ab: "a \<in> set (pools s)" "b \<in> set (pools s)" and e: "first_prio s sel a = first_prio s sel b"
    have "p_prio (the_pool s a) = p_prio (the_pool s b)"
      using e ab P(2) [OF ab(1)] P(2) [OF ab(2)] inj_onD [OF P(1) _ ab(1) assms(3)] inj_onD [OF P(1) _ ab(2) assms(3)]
      unfolding first_prio_def by (auto split: if_splits)
    then show "a = b" using inj_onD [OF P(1) _ ab] by blast
  qed
  show "0 \<le> first_prio s sel a \<and> first_prio s sel a < int (total_pools s)" if "a \<in> set (pools s)" for a
    using P(2) [OF that] P(2) [OF assms(3)] that unfolding first_prio_def by auto
qed


text \<open>What the invariant needs of an update of the store.\<close>

lemma pools_inv_cong:
  assumes "pools_inv s" "pools t = pools s" "enabled_pools t = enabled_pools s"
    "\<exists>c\<in>set (pools s). currentpool t = Some c"
    "\<And>a. a \<in> set (pools s) \<Longrightarrow> p_pool_no (the_pool t a) = p_pool_no (the_pool s a) \<and> p_enabled (the_pool t a) = p_enabled (the_pool s a)"
    "prios_ok t"
  shows "pools_inv t"
proof -
  have "count_if (\<lambda>a. p_enabled (the_pool t a) = POOL_ENABLED) (pools t) = count_if (\<lambda>a. p_enabled (the_pool s a) = POOL_ENABLED) (pools s)"
    using assms(2,5) by (simp add: count_if_def cong: filter_cong)
  then show ?thesis using assms by (simp add: pools_inv_def)
qed

lemma prios_ok_same:
  "prios_ok s \<Longrightarrow> pools t = pools s \<Longrightarrow> (\<And>a. a \<in> set (pools s) \<Longrightarrow> p_prio (the_pool t a) = p_prio (the_pool s a)) \<Longrightarrow> prios_ok t"
  by (simp add: prios_ok_def prios_def cong: map_cong)

lemma make_first_inv [inv_intros]:
  assumes "pools_inv s" "sel \<in> set (pools s)"
  shows "pools_inv (make_first sel s)"
proof -
  have d: "distinct (pools s)" "prios_ok s" using assms(1) by (simp_all add: pools_inv_def)
  note e = make_first_eq [OF d(1), of sel]
  show ?thesis
  proof (rule pools_inv_cong [OF assms(1)])
    show "prios_ok (make_first sel s)"
      using first_prio_inj [OF d assms(2)] d(1) by (simp add: e prios_ok_iff)
  qed (use assms in \<open>simp_all add: e pools_inv_def\<close>)
qed

lemma priority_pool_iff:
  assumes "pools_inv s" "i < total_pools s"
  shows "priority_pool s i = a \<longleftrightarrow> a \<in> set (pools s) \<and> p_prio (the_pool s a) = int i"
proof -
  have d: "distinct (pools s)" "prios_ok s" using assms(1) by (simp_all add: pools_inv_def)
  have "int i \<in> set (prios s)" using d(2) assms(2) by (simp add: prios_ok_def)
  then obtain b where b: "b \<in> set (pools s)" "p_prio (the_pool s b) = int i" by (auto simp: prios_def)
  then obtain c where c: "List.find (\<lambda>a. p_prio (the_pool s a) = int i) (pools s) = Some c"
    by (metis (mono_tags, lifting) find_None_iff not_Some_eq)
  then have "c \<in> set (pools s)" "p_prio (the_pool s c) = int i"
    by (auto simp: find_Some_iff)
  moreover have "inj_on (\<lambda>a. p_prio (the_pool s a)) (set (pools s))"
    using d by (simp add: prios_ok_iff)
  ultimately show ?thesis
    unfolding priority_pool_def c option.case by (metis (mono_tags, lifting) inj_onD)
qed

lemma pool_at_its_number:
  "pools_inv s \<Longrightarrow> a \<in> set (pools s) \<Longrightarrow>
   0 \<le> p_pool_no (the_pool s a) \<and> nat (p_pool_no (the_pool s a)) < total_pools s \<and> pools s ! nat (p_pool_no (the_pool s a)) = a"
  by (auto simp: pools_inv_def in_set_conv_nth)

lemma current_in_pools: "pools_inv s \<Longrightarrow> current_pool s \<in> set (pools s)"
  by (auto simp: pools_inv_def)

text \<open>The usable pool of highest priority, when there is one.\<close>

lemma best_pool_no_best:
  assumes inv: "pools_inv s" and ex: "\<exists>a\<in>set (pools s). \<not> pool_unusable (the_pool s a)"
  shows "\<exists>a\<in>set (pools s). best_pool_no s no = p_pool_no (the_pool s a) \<and> \<not> pool_unusable (the_pool s a) \<and>
           (\<forall>b\<in>set (pools s). \<not> pool_unusable (the_pool s b) \<longrightarrow> p_prio (the_pool s a) \<le> p_prio (the_pool s b))"
proof -
  have d: "distinct (pools s)" "prios_ok s" using inv by (simp_all add: pools_inv_def)
  have idx: "\<exists>i<total_pools s. priority_pool s i = b \<and> p_prio (the_pool s b) = int i" if "b \<in> set (pools s)" for b
  proof -
    have "0 \<le> p_prio (the_pool s b)" "p_prio (the_pool s b) < int (total_pools s)"
      using that d by (simp_all add: prios_ok_iff)
    then have "nat (p_prio (the_pool s b)) < total_pools s" "int (nat (p_prio (the_pool s b))) = p_prio (the_pool s b)"
      by simp_all
    then show ?thesis using priority_pool_iff [OF inv] that by metis
  qed
  obtain b where "b \<in> set (pools s)" "\<not> pool_unusable (the_pool s b)" using ex by blast
  then obtain i where "List.find (\<lambda>i. \<not> pool_unusable (the_pool s (priority_pool s i))) [0..<total_pools s] = Some i"
    using idx [of b] by (metis (mono_tags, lifting) atLeast0LessThan atLeast_upt find_None_iff lessThan_iff not_Some_eq)
  moreover from this have i: "i < total_pools s" "\<not> pool_unusable (the_pool s (priority_pool s i))"
    "\<forall>j<i. pool_unusable (the_pool s (priority_pool s j))"
    by (auto simp: find_Some_iff)
  ultimately have "best_pool_no s no = p_pool_no (the_pool s (priority_pool s i))"
    by (simp add: best_pool_no_def)
  moreover have "priority_pool s i \<in> set (pools s)" "p_prio (the_pool s (priority_pool s i)) = int i"
    using priority_pool_iff [OF inv i(1), of "priority_pool s i"] by simp_all
  moreover have "int i \<le> p_prio (the_pool s b)" if "b \<in> set (pools s)" "\<not> pool_unusable (the_pool s b)" for b
    using idx [OF that(1)] that(2) i(3) by (metis linorder_not_less of_nat_le_iff)
  ultimately show ?thesis using i(2) by metis
qed

lemma best_pool_no_none:
  assumes "pools_inv s" "\<forall>a\<in>set (pools s). pool_unusable (the_pool s a)"
  shows "best_pool_no s no = no"
proof -
  have "priority_pool s i \<in> set (pools s)" if "i < total_pools s" for i
    using priority_pool_iff [OF assms(1) that] by blast
  then have "List.find (\<lambda>i. \<not> pool_unusable (the_pool s (priority_pool s i))) [0..<total_pools s] = None"
    using assms(2) by (auto simp: find_None_iff)
  then show ?thesis by (simp add: best_pool_no_def)
qed

lemma cycle_pool_no_range:
  "0 < total_pools s \<Longrightarrow> -1 \<le> next \<Longrightarrow> next < int (total_pools s) \<Longrightarrow> cycle_pool_no s n next no fo = (no', fo') \<Longrightarrow>
   (no' = no \<or> 0 \<le> no' \<and> no' < int (total_pools s)) \<and> (fo' = fo \<or> (\<exists>f\<in>set (pools s). fo' = Some f))"
proof (induction n arbitrary: "next" fo)
  case (Suc n)
  define nx where "nx = (if next + 1 \<ge> int (total_pools s) then 0 else next + 1)"
  have nx: "0 \<le> nx" "nx < int (total_pools s)" using Suc.prems by (auto simp: nx_def)
  then have mem: "pools s ! nat nx \<in> set (pools s)" by simp
  show ?case
    using Suc.prems(4) Suc.IH [of nx] Suc.prems(1) nx mem
    by (auto simp: Let_def nx_def [symmetric] split: if_splits; fastforce)
qed simp

lemma choose_pool_in:
  assumes inv: "pools_inv s" and sel: "\<forall>a. selected = Some a \<longrightarrow> a \<in> set (pools s)"
  shows "choose_pool s selected \<in> set (pools s)"
proof -
  let ?no = "p_pool_no (the_pool s (current_pool s))"
  have n: "0 < total_pools s" using current_in_pools [OF inv] by (auto intro: length_pos_if_in_set)
  have no: "pools s ! nat ?no \<in> set (pools s)" "0 \<le> ?no" "?no < int (total_pools s)"
    using pool_at_its_number [OF inv current_in_pools [OF inv]] current_in_pools [OF inv] by auto
  have best: "pools s ! nat (best_pool_no s ?no) \<in> set (pools s)"
    using best_pool_no_best [OF inv, of ?no] best_pool_no_none [OF inv, of ?no] pool_at_its_number [OF inv] no
    by (metis nth_mem)
  have sel': "pools s ! nat (p_pool_no (the_pool s a)) \<in> set (pools s)" if "selected = Some a" for a
    using pool_at_its_number [OF inv, of a] sel that by auto
  obtain no' fo' where c: "cycle_pool_no s (total_pools s - 1) ?no ?no None = (no', fo')" by fastforce
  then have "pools s ! nat no' \<in> set (pools s)" "\<forall>f. fo' = Some f \<longrightarrow> f \<in> set (pools s)"
    using cycle_pool_no_range [OF n _ no(3) c] no by auto
  then show ?thesis
    using best sel'
    by (auto simp: choose_pool_def Let_def c c [unfolded One_nat_def] split: pool_strategy.split option.split)
qed

lemma switch_pools_enabled_inv [inv_intros]:
  assumes "pools_inv s" "\<forall>a. selected = Some a \<longrightarrow> a \<in> set (pools s)"
  shows "pools_inv (switch_pools_enabled selected s)"
proof -
  define t where "t = (case selected of None \<Rightarrow> s | Some a \<Rightarrow> make_first a s)"
  have "pools t = pools s"
    using assms(1) by (auto simp: t_def make_first_eq pools_inv_def split: option.split)
  moreover have t: "pools_inv t" using assms by (auto simp: t_def intro!: inv_intros split: option.split)
  ultimately have "choose_pool t selected \<in> set (pools t)" using assms(2) by (intro choose_pool_in) simp_all
  moreover have "prios_ok t" using t by (simp add: pools_inv_def)
  ultimately show ?thesis
    unfolding switch_pools_enabled_def Let_def t_def [symmetric]
    by (auto intro!: pools_inv_cong [OF t] prios_ok_same [of t])
qed

lemma make_first_pools: "distinct (pools s) \<Longrightarrow> pools (make_first a s) = pools s"
  by (simp add: make_first_eq)

lemma switch_pools_enabled_pools [simp]: "pools_inv s \<Longrightarrow> pools (switch_pools_enabled selected s) = pools s"
  by (auto simp: switch_pools_enabled_def Let_def make_first_pools pools_inv_def split: option.split)

lemma count_if_update:
  "distinct xs \<Longrightarrow> a \<in> set xs \<Longrightarrow> \<forall>x\<in>set xs. x \<noteq> a \<longrightarrow> P x = Q x \<Longrightarrow>
   count_if P xs = count_if Q xs + (if P a then 1 else 0) - (if Q a then 1 else 0)"
proof (induction xs)
  case (Cons x xs)
  show ?case
  proof (cases "x = a")
    case True
    then have "count_if P xs = count_if Q xs"
      using Cons.prems by (auto simp: count_if_def cong: filter_cong intro!: arg_cong [where f = length] filter_cong)
    then show ?thesis using True by simp
  next
    case False
    then show ?thesis using Cons by auto
  qed
qed simp

text \<open>Changing the state of one pool and the counter with it.\<close>

lemma set_enabled_inv:
  assumes "pools_inv s" "a \<in> set (pools s)"
    "d = (if e = POOL_ENABLED then 1 else 0) - (if p_enabled (the_pool s a) = POOL_ENABLED then 1 else 0)"
  shows "pools_inv (upd_pool a (\<lambda>p. p\<lparr>p_enabled := e\<rparr>) (s\<lparr>enabled_pools := enabled_pools s + d\<rparr>))"
    (is "pools_inv ?t")
proof -
  have "count_if (\<lambda>b. p_enabled (the_pool ?t b) = POOL_ENABLED) (pools s) =
      count_if (\<lambda>b. p_enabled (the_pool s b) = POOL_ENABLED) (pools s) + d"
    using assms by (subst count_if_update [where a = a]) (auto simp: pools_inv_def)
  moreover have "prios_ok ?t"
    using assms(1) by (intro prios_ok_same [of s ?t]) (auto simp: pools_inv_def)
  ultimately show ?thesis using assms(1) by (auto simp: pools_inv_def)
qed

lemma enable_pool_inv [inv_intros]:
  assumes "pools_inv s" "a \<in> set (pools s)"
  shows "pools_inv (enable_pool a s)"
  using set_enabled_inv [OF assms, of 1 POOL_ENABLED] assms
  by (auto simp: enable_pool_def Let_def intro!: inv_intros)

lemma enable_pool_pools [simp]: "pools_inv s \<Longrightarrow> a \<in> set (pools s) \<Longrightarrow> pools (enable_pool a s) = pools s"
  using set_enabled_inv [of s a 1 POOL_ENABLED] by (auto simp: enable_pool_def Let_def)

lemma switch_pools_inv [inv_intros]:
  assumes "pools_inv s" "\<forall>a. selected = Some a \<longrightarrow> a \<in> set (pools s)"
  shows "pools_inv (switch_pools selected s)"
  using assms by (auto simp: switch_pools_def intro!: inv_intros split: option.split)

lemma switch_pools_pools [simp]:
  "pools_inv s \<Longrightarrow> \<forall>a. selected = Some a \<longrightarrow> a \<in> set (pools s) \<Longrightarrow> pools (switch_pools selected s) = pools s"
  by (auto simp: switch_pools_def enable_pool_inv split: option.split)

lemma disable_pool_inv [inv_intros]:
  assumes "pools_inv s" "a \<in> set (pools s)" "e \<noteq> POOL_ENABLED"
  shows "pools_inv (disable_pool a e s)"
  using set_enabled_inv [OF assms(1,2), of "-1" e] set_enabled_inv [OF assms(1,2), of 0 e] assms
  by (auto simp: disable_pool_def Let_def intro!: inv_intros)

section \<open>The pool that is chosen\<close>

lemma switch_pools_enabled_current [simp]:
  "currentpool (switch_pools_enabled None s) = Some (choose_pool s None)"
  by (simp add: switch_pools_enabled_def Let_def)

lemma switch_pools_enabled_unusable [simp]:
  "pool_unusable (the_pool (switch_pools_enabled None s) a) = pool_unusable (the_pool s a)"
  by (auto simp: switch_pools_enabled_def Let_def pool_unusable_def)

lemma switch_pools_enabled_prio [simp]:
  "p_prio (the_pool (switch_pools_enabled None s) a) = p_prio (the_pool s a)"
  by (auto simp: switch_pools_enabled_def Let_def)

definition by_priority :: "pool_strategy \<Rightarrow> bool" where
  "by_priority st \<longleftrightarrow> st \<in> {POOL_BALANCE, POOL_FAILOVER, POOL_LOADBALANCE}"

lemma choose_pool_best:
  assumes inv: "pools_inv s" and st: "by_priority (pool_strategy s)"
    and ex: "\<exists>a\<in>set (pools s). \<not> pool_unusable (the_pool s a)"
  shows "choose_pool s sel \<in> set (pools s) \<and> \<not> pool_unusable (the_pool s (choose_pool s sel)) \<and>
    (\<forall>b\<in>set (pools s). \<not> pool_unusable (the_pool s b) \<longrightarrow> p_prio (the_pool s (choose_pool s sel)) \<le> p_prio (the_pool s b))"
proof -
  have "choose_pool s sel = pools s ! nat (best_pool_no s (p_pool_no (the_pool s (current_pool s))))"
    using st by (auto simp: choose_pool_def by_priority_def Let_def split: pool_strategy.split)
  then show ?thesis
    using best_pool_no_best [OF inv ex, of "p_pool_no (the_pool s (current_pool s))"] pool_at_its_number [OF inv]
    by auto
qed

text \<open>C23: With the failover, balance and load-balance strategies, switching without a choice of the user makes
  the usable pool of highest priority the current one, if any pool is usable, and keeps the current
  pool otherwise.\<close>

lemma switch_pools_picks_best:
  assumes "pools_inv s" "by_priority (pool_strategy s)"
  shows "let t = switch_pools None s in
    (if \<exists>a\<in>set (pools s). \<not> pool_unusable (the_pool s a)
     then current_pool t \<in> set (pools s) \<and> \<not> pool_unusable (the_pool s (current_pool t)) \<and>
       (\<forall>b\<in>set (pools s). \<not> pool_unusable (the_pool s b) \<longrightarrow> p_prio (the_pool s (current_pool t)) \<le> p_prio (the_pool s b))
     else current_pool t = current_pool s)"
proof (cases "\<exists>a\<in>set (pools s). \<not> pool_unusable (the_pool s a)")
  case True
  then show ?thesis using choose_pool_best [OF assms True] by (simp add: switch_pools_def Let_def)
next
  case False
  have "choose_pool s None = current_pool s"
    using best_pool_no_none [OF assms(1)] False pool_at_its_number [OF assms(1) current_in_pools [OF assms(1)]] assms(2)
    by (auto simp: choose_pool_def by_priority_def Let_def split: pool_strategy.split)
  with False show ?thesis by (simp add: switch_pools_def Let_def)
qed

lemma pool_unusable_iff: "pool_unusable p \<longleftrightarrow> p_idle p \<or> p_enabled p \<noteq> POOL_ENABLED"
  by (simp add: pool_unusable_def)

text \<open>The order of the other pools.\<close>

definition same_order :: "nat \<Rightarrow> miner \<Rightarrow> miner \<Rightarrow> bool" where
  "same_order sel s t \<longleftrightarrow> (\<forall>a\<in>set (pools s). \<forall>b\<in>set (pools s). a \<noteq> sel \<longrightarrow> b \<noteq> sel \<longrightarrow>
     (p_prio (the_pool t a) < p_prio (the_pool t b) \<longleftrightarrow> p_prio (the_pool s a) < p_prio (the_pool s b)))"

lemma make_first_selected:
  assumes "pools_inv s" "sel \<in> set (pools s)"
  shows "p_prio (the_pool (make_first sel s) sel) = 0" and "same_order sel s (make_first sel s)"
proof -
  have d: "distinct (pools s)" "inj_on (\<lambda>a. p_prio (the_pool s a)) (set (pools s))"
    using assms(1) by (auto simp: pools_inv_def prios_ok_iff)
  show "p_prio (the_pool (make_first sel s) sel) = 0"
    using d by (simp add: make_first_eq first_prio_def)
  have ne: "p_prio (the_pool s a) \<noteq> p_prio (the_pool s sel)" if "a \<in> set (pools s)" "a \<noteq> sel" for a
    using inj_onD [OF d(2) _ that(1) assms(2)] that(2) by blast
  show "same_order sel s (make_first sel s)"
    unfolding same_order_def
  proof (intro ballI impI)
    fix a b assume "a \<in> set (pools s)" "b \<in> set (pools s)" "a \<noteq> sel" "b \<noteq> sel"
    then show "p_prio (the_pool (make_first sel s) a) < p_prio (the_pool (make_first sel s) b) \<longleftrightarrow> p_prio (the_pool s a) < p_prio (the_pool s b)"
      using d(1) ne [of a] ne [of b] by (auto simp: make_first_eq first_prio_def)
  qed
qed

lemma switch_selected:
  assumes inv: "pools_inv s" "sel \<in> set (pools s)" and ok: "\<not> pool_unusable (the_pool s sel)"
  shows "current_pool (switch_pools_enabled (Some sel) s) = sel \<and>
    p_prio (the_pool (switch_pools_enabled (Some sel) s) sel) = 0 \<and>
    \<not> pool_unusable (the_pool (switch_pools_enabled (Some sel) s) sel) \<and>
    same_order sel s (switch_pools_enabled (Some sel) s)"
proof -
  let ?t = "make_first sel s"
  have d: "distinct (pools s)" using inv by (simp add: pools_inv_def)
  have t: "pools_inv ?t" "pools ?t = pools s" "\<not> pool_unusable (the_pool ?t sel)"
    using make_first_inv [OF inv] ok d by (simp_all add: make_first_eq pool_unusable_iff)
  note f = make_first_selected [OF inv]
  have n: "0 < total_pools ?t" using inv(2) t(2) by (auto intro: length_pos_if_in_set)
  have "priority_pool ?t 0 = sel" using priority_pool_iff [OF t(1) n] f(1) inv(2) t(2) by simp
  then have "best_pool_no ?t no = p_pool_no (the_pool ?t sel)" for no
    using n t(3) by (simp add: best_pool_no_def upt_rec)
  moreover have "\<not> p_idle (the_pool ?t sel)" using t(3) by (auto simp: pool_unusable_iff split: if_splits)
  moreover have "pools ?t ! nat (p_pool_no (the_pool ?t sel)) = sel"
    using pool_at_its_number [OF t(1), of sel] inv(2) t(2) by simp
  ultimately have "choose_pool ?t (Some sel) = sel"
    by (auto simp: choose_pool_def Let_def split: pool_strategy.split)
  then show ?thesis
    using f t(3) by (auto simp: switch_pools_enabled_def Let_def same_order_def pool_unusable_iff)
qed

text \<open>Choosing a pool that is alive makes it the current pool, the first in priority and enabled, whatever the
  strategy, and keeps the order of the priorities of the other pools.\<close>

lemma switch_pools_to:
  assumes inv: "pools_inv s" "sel \<in> set (pools s)" and alive: "\<not> p_idle (the_pool s sel)"
  shows "let t = switch_pools (Some sel) s in
    current_pool t = sel \<and> p_prio (the_pool t sel) = 0 \<and> p_enabled (the_pool t sel) = POOL_ENABLED \<and> same_order sel s t"
proof -
  let ?u = "enable_pool sel s"
  have u: "pools_inv ?u" "pools ?u = pools s" using inv by (auto intro!: inv_intros)
  let ?v = "upd_pool sel (\<lambda>p. p\<lparr>p_enabled := POOL_ENABLED\<rparr>) (s\<lparr>enabled_pools := enabled_pools s + 1\<rparr>)"
  have v: "same_order sel s ?v" by (auto simp: same_order_def)
  have "same_order sel s ?u \<and> \<not> pool_unusable (the_pool ?u sel)"
  proof (cases "p_enabled (the_pool s sel) = POOL_ENABLED")
    case True
    then show ?thesis using alive by (simp add: enable_pool_def same_order_def pool_unusable_iff)
  next
    case False
    then have "pools_inv ?v" using set_enabled_inv [OF inv, of 1 POOL_ENABLED] by simp
    then have "same_order sel ?v (switch_pools_enabled (Some sel) ?v) \<and> \<not> pool_unusable (the_pool (switch_pools_enabled (Some sel) ?v) sel)"
      using switch_selected [of ?v sel] inv(2) alive by (simp add: pool_unusable_iff)
    then show ?thesis
      using False v alive by (auto simp: enable_pool_def Let_def same_order_def pool_unusable_iff)
  qed
  then show ?thesis
    using switch_selected [OF u(1), of sel] inv(2) u(2)
    by (auto simp: switch_pools_def Let_def same_order_def pool_unusable_iff split: if_splits)
qed

section \<open>Removing and adding keep the invariant\<close>

lemma lower_above_eq:
  assumes "distinct (pools s)"
  shows "lower_above pool s = s\<lparr>pstore := (\<lambda>a.
    if a \<in> set (pools s) \<and> p_prio (the_pool s a) > p_prio (the_pool s pool)
    then (the_pool s a)\<lparr>p_prio := p_prio (the_pool s a) - 1\<rparr> else the_pool s a)\<rparr>"
proof -
  define k where "k = p_prio (the_pool s pool)"
  let ?g = "\<lambda>p :: pool. if p_prio p > k then p\<lparr>p_prio := p_prio p - 1\<rparr> else p"
  have "fold (\<lambda>other s. if p_prio (the_pool s other) > p_prio (the_pool s pool)
                 then upd_pool other (\<lambda>p. p\<lparr>p_prio := p_prio p - 1\<rparr>) s else s) as t = fold (\<lambda>a. upd_pool a ?g) as t"
    if "p_prio (the_pool t pool) = k" for as t
    using that
  proof (induction as arbitrary: t)
    case (Cons a as)
    have "(if p_prio (the_pool t a) > p_prio (the_pool t pool)
           then upd_pool a (\<lambda>p. p\<lparr>p_prio := p_prio p - 1\<rparr>) t else t) = upd_pool a ?g t"
      unfolding Cons.prems by (rule if_upd_pool)
    moreover have "p_prio (the_pool (upd_pool a ?g t) pool) = k"
      using Cons.prems by auto
    ultimately show ?case using Cons.IH [of "upd_pool a ?g t"] by simp
  qed simp
  then have "lower_above pool s = fold (\<lambda>a. upd_pool a ?g) (pools s) s"
    unfolding lower_above_def k_def by blast
  also have "\<dots> = s\<lparr>pstore := (\<lambda>a. if a \<in> set (pools s) then ?g (pstore s a) else pstore s a)\<rparr>"
    using assms by (rule fold_upd_pool)
  finally show ?thesis unfolding k_def by (auto intro!: arg_cong [where f = "\<lambda>g. s\<lparr>pstore := g\<rparr>"])
qed

lemma disable_pool_disabled:
  "p_enabled (the_pool (disable_pool a POOL_DISABLED s) a) = POOL_DISABLED"
  by (auto simp: disable_pool_def Let_def switch_pools_def switch_pools_enabled_def)

lemma disable_pool_pools [simp]: "pools (disable_pool a e s) = pools s"
  by (auto simp: disable_pool_def Let_def switch_pools_def switch_pools_enabled_def)

lemma disable_pool_prio [simp]: "p_prio (the_pool (disable_pool a e s) b) = p_prio (the_pool s b)"
  by (auto simp: disable_pool_def Let_def switch_pools_def)

lemma disable_pool_no [simp]: "p_pool_no (the_pool (disable_pool a e s) b) = p_pool_no (the_pool s b)"
  by (auto simp: disable_pool_def Let_def switch_pools_def switch_pools_enabled_def)

text \<open>The array with one entry replaced by the last one.\<close>

lemma swap_last:
  fixes xs :: "'a list"
  assumes "distinct xs" "i < length xs"
  defines "ys \<equiv> take (length xs - 1) (if i < length xs - 1 then xs[i := xs ! (length xs - 1)] else xs)"
  shows "length ys = length xs - 1" "distinct ys" "set ys = set xs - {xs ! i}"
    and "\<And>j. j < length ys \<Longrightarrow> ys ! j = (if j = i then xs ! (length xs - 1) else xs ! j)"
proof -
  show l: "length ys = length xs - 1" by (simp add: ys_def)
  show n: "ys ! j = (if j = i then xs ! (length xs - 1) else xs ! j)" if "j < length ys" for j
    using that l by (auto simp: ys_def)
  show d: "distinct ys"
    using assms(1,2) l n by (auto simp: distinct_conv_nth nth_eq_iff_index_eq split: if_splits)
  have "set ys \<subseteq> set xs - {xs ! i}"
  proof
    fix y assume "y \<in> set ys"
    then obtain j where j: "j < length ys" "y = ys ! j" by (auto simp: in_set_conv_nth)
    then have "y = xs ! (if j = i then length xs - 1 else j)" "(if j = i then length xs - 1 else j) \<noteq> i"
      "(if j = i then length xs - 1 else j) < length xs"
      using n [OF j(1)] l assms(2) by auto
    then show "y \<in> set xs - {xs ! i}"
      using assms(1,2) by (auto simp: nth_eq_iff_index_eq)
  qed
  moreover have "card (set ys) = card (set xs - {xs ! i})"
    using d l assms(1,2) by (simp add: distinct_card card_Diff_singleton)
  ultimately show "set ys = set xs - {xs ! i}" by (intro card_subset_eq) simp_all
qed

text \<open>Removing a pool that is not the current one, after it has been disabled, leaves the array with all the
  other pools, each at the place its number says, with the priorities again the numbers below the
  new count in the old order.\<close>

lemma remove_pool_inv:
  assumes inv: "pools_inv s" and mem: "pool \<in> set (pools s)"
    and other: "current_pool (disable_pool pool POOL_DISABLED s) \<noteq> pool"
  shows "pools_inv (remove_pool pool s) \<and> set (pools (remove_pool pool s)) = set (pools s) - {pool} \<and>
         same_order pool s (remove_pool pool s)"
proof -
  define u where "u = disable_pool pool POOL_DISABLED s"
  have u: "pools_inv u" "pools u = pools s" using inv mem by (auto simp: u_def intro!: inv_intros)
  have d: "distinct (pools u)" using u(1) by (simp add: pools_inv_def)
  define i where "i = nat (p_pool_no (the_pool u pool))"
  have i: "i < length (pools u)" "pools u ! i = pool" "p_pool_no (the_pool u pool) = int i"
    using pool_at_its_number [OF u(1), of pool] mem u(2) by (auto simp: i_def)
  define m where "m = length (pools u) - 1"
  define last where "last = pools u ! m"
  define L where "L = take m (if i < m then (pools u)[i := last] else pools u)"
  note L = swap_last [OF d i(1), folded m_def, folded last_def, folded L_def]
  have m: "m = total_pools s - 1" by (simp add: m_def u)
  let ?t = "remove_pool pool s"
  have no: "p_pool_no (the_pool (lower_above pool u) pool) = int i"
    using i(3) by (simp add: lower_above_eq [OF d])
  have t: "pools ?t = L"
    using i(1) unfolding remove_pool_def Let_def u_def [symmetric] no m [symmetric] L_def last_def
    by (simp add: lower_above_eq [OF d])
  have st: "p_prio (the_pool ?t b) = (if p_prio (the_pool u b) > p_prio (the_pool u pool) then p_prio (the_pool u b) - 1 else p_prio (the_pool u b))"
    "p_pool_no (the_pool ?t b) = (if i < m \<and> b = last then int i else p_pool_no (the_pool u b))"
    "p_enabled (the_pool ?t b) = p_enabled (the_pool u b)" if "b \<in> set L" for b
  proof -
    have b: "b \<in> set (pools u)" "b \<noteq> pool" using that L(3) i(2) by auto
    show "p_prio (the_pool ?t b) = (if p_prio (the_pool u b) > p_prio (the_pool u pool) then p_prio (the_pool u b) - 1 else p_prio (the_pool u b))"
      "p_pool_no (the_pool ?t b) = (if i < m \<and> b = last then int i else p_pool_no (the_pool u b))"
      "p_enabled (the_pool ?t b) = p_enabled (the_pool u b)"
      using b unfolding remove_pool_def Let_def u_def [symmetric] no m [symmetric]
      by (auto simp: lower_above_eq [OF d] last_def)
  qed
  have gl: "currentpool ?t = currentpool u" "enabled_pools ?t = enabled_pools u"
    unfolding remove_pool_def Let_def u_def [symmetric] by (simp_all add: lower_above_eq [OF d])
  have set: "set L = set (pools u) - {pool}" using L(3) i(2) by simp
  have inj: "inj_on (\<lambda>a. p_prio (the_pool u a)) (set (pools u))"
    and rng: "\<And>a. a \<in> set (pools u) \<Longrightarrow> 0 \<le> p_prio (the_pool u a) \<and> p_prio (the_pool u a) < int (total_pools u)"
    using u(1) d by (auto simp: pools_inv_def prios_ok_iff)
  have ne: "p_prio (the_pool u a) \<noteq> p_prio (the_pool u pool)" if "a \<in> set L" for a
    using inj_onD [OF inj, of a pool] that set mem u(2) by auto
  have "prios_ok ?t"
  proof (subst prios_ok_iff)
    show "distinct (pools ?t)" using L(2) by (simp add: t)
    have "inj_on (\<lambda>a. p_prio (the_pool ?t a)) (set L)"
    proof (rule inj_onI)
      fix a b assume ab: "a \<in> set L" "b \<in> set L" and e: "p_prio (the_pool ?t a) = p_prio (the_pool ?t b)"
      then have "p_prio (the_pool u a) = p_prio (the_pool u b)"
        using ne [OF ab(1)] ne [OF ab(2)] by (auto simp: st split: if_splits)
      then show "a = b" using inj_onD [OF inj] ab set by blast
    qed
    moreover have "0 \<le> p_prio (the_pool ?t a) \<and> p_prio (the_pool ?t a) < int (length L)" if "a \<in> set L" for a
      using rng [of a] rng [of pool] ne [OF that] that set mem u(2) L(1) m by (auto simp: st)
    ultimately show "inj_on (\<lambda>a. p_prio (the_pool ?t a)) (set (pools ?t)) \<and>
        (\<forall>a\<in>set (pools ?t). 0 \<le> p_prio (the_pool ?t a) \<and> p_prio (the_pool ?t a) < int (total_pools ?t))"
      by (simp add: t)
  qed
  moreover have "p_pool_no (the_pool ?t (L ! j)) = int j" if "j < length L" for j
  proof -
    have jm: "j < m" using that L(1) m_def by simp
    have nu: "p_pool_no (the_pool u (pools u ! k)) = int k" if "k < length (pools u)" for k
      using u(1) that by (simp add: pools_inv_def)
    show ?thesis
    proof (cases "j = i")
      case True
      then show ?thesis using that jm L(4) [OF that] st(2) [OF nth_mem [OF that]] by simp
    next
      case False
      then have "L ! j = pools u ! j" "L ! j \<noteq> last"
        using L(4) [OF that] d jm by (auto simp: last_def m_def nth_eq_iff_index_eq)
      then show ?thesis using that jm nu [of j] m_def st(2) [OF nth_mem [OF that]] by simp
    qed
  qed
  moreover have "count_if (\<lambda>a. p_enabled (the_pool ?t a) = POOL_ENABLED) L = count_if (\<lambda>a. p_enabled (the_pool u a) = POOL_ENABLED) (pools u)"
  proof -
    have "mset L = mset (remove1 pool (pools u))"
      using L(2) d set by (intro set_eq_iff_mset_eq_distinct [THEN iffD1]) simp_all
    then have "count_if P L = count_if P (pools u) - (if P pool then 1 else 0)" for P
      using count_if_mset [of L "remove1 pool (pools u)" P] count_if_remove1 [of pool "pools u" P] mem u(2) by simp
    moreover have "p_enabled (the_pool u pool) = POOL_DISABLED" by (simp add: u_def disable_pool_disabled)
    ultimately show ?thesis using st(3) by (simp add: count_if_def cong: filter_cong)
  qed
  moreover have "\<exists>c\<in>set L. currentpool ?t = Some c"
    using u(1) other set unfolding gl u_def [symmetric] by (auto simp: pools_inv_def)
  moreover have "same_order pool s ?t"
    unfolding same_order_def
  proof (intro ballI impI)
    fix a b assume "a \<in> set (pools s)" "b \<in> set (pools s)" "a \<noteq> pool" "b \<noteq> pool"
    then have ab: "a \<in> set L" "b \<in> set L" using set u(2) by auto
    show "p_prio (the_pool ?t a) < p_prio (the_pool ?t b) \<longleftrightarrow> p_prio (the_pool s a) < p_prio (the_pool s b)"
      using ne [OF ab(1)] ne [OF ab(2)] by (auto simp: st ab u_def)
  qed
  ultimately show ?thesis
    using L(2) u(1) set u(2) by (auto simp: pools_inv_def t gl)
qed

section \<open>Quotas\<close>

lemma adjust_quota_gcd_pool:
  "\<exists>u g. the_pool (adjust_quota_gcd s) a = (the_pool s a)\<lparr>p_quota_used := u, p_quota_gcd := g\<rparr>"
proof -
  define G where "G = quota_gcd_of (map (\<lambda>a. ulong_of_int (p_quota (the_pool s a))) (pools s))"
  have "\<exists>u g. the_pool (fold (\<lambda>a s. upd_pool a (\<lambda>p.
                let used = int_of_long (ulong_of_int (ulong_of_int (p_quota_used p) * global_quota_gcd s));
                    used = int_of_long (ulong_of_int used div G)
                in p\<lparr>p_quota_used := used, p_quota_gcd := int_of_long (ulong_of_int (p_quota p) div G)\<rparr>) s) as t) a
          = (the_pool t a)\<lparr>p_quota_used := u, p_quota_gcd := g\<rparr>" for as t
  proof (induction as arbitrary: t)
    case Nil
    show ?case by (intro exI [of _ "p_quota_used (the_pool t a)"] exI [of _ "p_quota_gcd (the_pool t a)"]) simp
  next
    case (Cons b as)
    define v where "v = upd_pool b (\<lambda>p.
                let used = int_of_long (ulong_of_int (ulong_of_int (p_quota_used p) * global_quota_gcd t));
                    used = int_of_long (ulong_of_int used div G)
                in p\<lparr>p_quota_used := used, p_quota_gcd := int_of_long (ulong_of_int (p_quota p) div G)\<rparr>) t"
    have 1: "\<exists>u g. the_pool v a = (the_pool t a)\<lparr>p_quota_used := u, p_quota_gcd := g\<rparr>"
    proof (cases "a = b")
      case True
      show ?thesis unfolding v_def True Let_def pstore_upd_pool fun_upd_same by (rule exI)+ (rule refl)
    next
      case False
      then show ?thesis
        by (intro exI [of _ "p_quota_used (the_pool t a)"] exI [of _ "p_quota_gcd (the_pool t a)"]) (simp add: v_def)
    qed
    then have "p\<lparr>p_quota_used := x, p_quota_gcd := y\<rparr> = (the_pool t a)\<lparr>p_quota_used := x, p_quota_gcd := y\<rparr>"
      if "p = the_pool v a" for p x y using that by auto
    then show ?case using Cons.IH [of v] unfolding fold_simps(2) o_apply v_def [symmetric] by metis
  qed
  then show ?thesis by (simp add: adjust_quota_gcd_def Let_def G_def)
qed

lemma adjust_quota_gcd_frame [simp, frame_simps]:
  "p_pool_no (the_pool (adjust_quota_gcd s) a) = p_pool_no (the_pool s a)"
  "p_prio (the_pool (adjust_quota_gcd s) a) = p_prio (the_pool s a)"
  "p_enabled (the_pool (adjust_quota_gcd s) a) = p_enabled (the_pool s a)"
  "p_idle (the_pool (adjust_quota_gcd s) a) = p_idle (the_pool s a)"
  "p_goal (the_pool (adjust_quota_gcd s) a) = p_goal (the_pool s a)"
  "p_quota (the_pool (adjust_quota_gcd s) a) = p_quota (the_pool s a)"
  using adjust_quota_gcd_pool [of s a] by auto

lemma fold_frameI: "(\<And>x s. f (g x s) = f s) \<Longrightarrow> f (fold g xs s) = f s"
  by (induction xs arbitrary: s) simp_all

lemma adjust_quota_gcd_globals [simp, frame_simps]:
  "pools (adjust_quota_gcd s) = pools s" "currentpool (adjust_quota_gcd s) = currentpool s"
  "enabled_pools (adjust_quota_gcd s) = enabled_pools s" "staged_work (adjust_quota_gcd s) = staged_work s"
  "pool_strategy (adjust_quota_gcd s) = pool_strategy s" "fresh_pool (adjust_quota_gcd s) = fresh_pool s"
  unfolding adjust_quota_gcd_def Let_def by (simp, rule fold_frameI, simp)+

text \<open>Adding a pool keeps the invariant of the array, from the empty array on: the new pool comes last in
  place and priority, is enabled, and becomes the current pool when there was none.\<close>

lemma add_pool2_inv:
  assumes inv: "pools_inv s \<or> pools s = [] \<and> currentpool s = None \<and> enabled_pools s = 0"
    and new: "fresh_pool s \<notin> set (pools s)" "\<not> opt_benchmark s"
    and add: "add_pool2 goal s = (t, pool)"
  shows "pools_inv t \<and> pools t = pools s @ [pool] \<and> p_prio (the_pool t pool) = int (total_pools s) \<and>
    p_enabled (the_pool t pool) = POOL_ENABLED \<and> current_pool t = (if pools s = [] then pool else current_pool s)"
proof -
  let ?n = "int (total_pools s)"
  define u where "u = (upd_pool pool (\<lambda>_. zero_pool\<lparr>p_pool_no := ?n, p_prio := ?n, p_goal := goal, p_idle := True,
                p_tv_idle := tv (- 1) 0, p_quota := 1, p_session := zero_session\<lparr>ss_tv_transparency := timer_unset (tv 0 0)\<rparr>\<rparr>) s)\<lparr>fresh_pool := pool + 1, pools := pools s @ [pool]\<rparr>"
  define v where "v = (let s = adjust_quota_gcd u in if currentpool s = None then s\<lparr>currentpool := Some pool\<rparr> else s)"
  have p: "pool = fresh_pool s" and t: "t = enable_pool pool v"
    using add new(2) by (auto simp: add_pool2_def Let_def u_def v_def split: if_splits)
  have old: "the_pool u a = the_pool s a" if "a \<in> set (pools s)" for a
    using that new(1) p by (auto simp: u_def)
  have up: "pools u = pools s @ [pool]" "p_prio (the_pool u pool) = ?n" "p_pool_no (the_pool u pool) = ?n"
    "p_enabled (the_pool u pool) = POOL_DISABLED" "currentpool u = currentpool s" "enabled_pools u = enabled_pools s"
    by (simp_all add: u_def zero_pool_def)
  have vp: "pools v = pools s @ [pool]" "enabled_pools v = enabled_pools s"
    "currentpool v = (if currentpool s = None then Some pool else currentpool s)"
    "\<And>a. p_prio (the_pool v a) = p_prio (the_pool u a)" "\<And>a. p_pool_no (the_pool v a) = p_pool_no (the_pool u a)"
    "\<And>a. p_enabled (the_pool v a) = p_enabled (the_pool u a)"
    by (auto simp: v_def Let_def up)
  have v: "pools_inv v"
  proof -
    have d: "distinct (pools v)" using inv new(1) p by (auto simp: vp pools_inv_def)
    have "\<forall>a\<in>set (pools s). 0 \<le> p_prio (the_pool s a) \<and> p_prio (the_pool s a) < ?n"
      "inj_on (\<lambda>a. p_prio (the_pool s a)) (set (pools s))"
      using inv by (auto simp: pools_inv_def prios_ok_iff)
    then have "prios_ok v"
      using d old up(2) by (subst prios_ok_iff) (auto simp: vp inj_on_def)
    moreover have "\<forall>i<total_pools v. p_pool_no (the_pool v (pools v ! i)) = int i"
      using inv old up(3) by (auto simp: vp nth_append less_Suc_eq pools_inv_def)
    moreover have "\<exists>c\<in>set (pools v). currentpool v = Some c"
      using inv by (auto simp: vp pools_inv_def)
    moreover have "enabled_pools v = count_if (\<lambda>a. p_enabled (the_pool v a) = POOL_ENABLED) (pools v)"
      using inv old up(4) by (auto simp: vp pools_inv_def count_if_def cong: filter_cong)
    ultimately show ?thesis using d by (simp add: pools_inv_def)
  qed
  have c: "p_prio (the_pool v (current_pool v)) \<le> p_prio (the_pool v pool)"
    using inv old by (auto simp: vp up pools_inv_def prios_ok_iff intro: less_imp_le)
  have "pools_inv t" using v t vp(1) by (auto intro!: inv_intros)
  moreover have "pools t = pools s @ [pool]" using v t vp(1) by simp
  ultimately show ?thesis
    using c inv by (auto simp: t enable_pool_def Let_def vp up pools_inv_def split: if_splits)
qed

section \<open>Repairing the priorities\<close>

text \<open>The pools at the places \<open>A\<close> have different priorities in range, those in \<open>used\<close>.\<close>

definition placed :: "miner \<Rightarrow> nat set \<Rightarrow> int list \<Rightarrow> bool" where
  "placed s A used \<longleftrightarrow>
     distinct (pools s) \<and> A \<subseteq> {0..<total_pools s} \<and> inj_on (\<lambda>i. p_prio (the_pool s (pools s ! i))) A \<and>
     (\<lambda>i. p_prio (the_pool s (pools s ! i))) ` A = set used \<and> set used \<subseteq> {0..<int (total_pools s)}"

lemma placed_insert:
  assumes "placed s A used" "i < total_pools s" "i \<notin> A" "0 \<le> j" "j < int (total_pools s)" "j \<notin> set used"
  shows "placed (upd_pool (pools s ! i) (\<lambda>p. p\<lparr>p_prio := j\<rparr>) s) (insert i A) (j # used)"
proof -
  have ne: "pools s ! k \<noteq> pools s ! i" if "k \<in> A" for k
    using that assms(1-3) by (auto simp: placed_def nth_eq_iff_index_eq)
  have same: "p_prio (the_pool (upd_pool (pools s ! i) (\<lambda>p. p\<lparr>p_prio := j\<rparr>) s) (pools s ! k)) = p_prio (the_pool s (pools s ! k))"
    if "k \<in> A" for k using ne [OF that] by simp
  show ?thesis
    using assms same unfolding placed_def by (auto simp: inj_on_def image_iff)
qed

lemma placed_room:
  assumes "placed s A used" "i < total_pools s" "i \<notin> A"
  shows "\<exists>j. List.find (\<lambda>j. int j \<notin> set used) [0..<total_pools s] = Some j \<and> j < total_pools s \<and> int j \<notin> set used"
proof -
  have "card (set used) = card A"
    using assms(1) by (metis (mono_tags, lifting) card_image placed_def)
  also have "\<dots> < card {0..<total_pools s}"
    using assms by (intro psubset_card_mono) (auto simp: placed_def)
  finally have "card (set used) < total_pools s" by simp
  moreover have "card (int ` {0..<total_pools s}) = total_pools s" by (simp add: card_image)
  ultimately have "\<not> int ` {0..<total_pools s} \<subseteq> set used"
    by (metis List.finite_set card_mono not_less)
  then have "\<exists>j<total_pools s. int j \<notin> set used" by auto
  then obtain j where "List.find (\<lambda>j. int j \<notin> set used) [0..<total_pools s] = Some j"
    by (metis (mono_tags, lifting) atLeast0LessThan atLeast_upt find_None_iff lessThan_iff not_Some_eq)
  moreover from this have "j < total_pools s" "int j \<notin> set used" by (auto simp: find_Some_iff)
  ultimately show ?thesis by blast
qed

lemma valid_priorities_placed:
  assumes "distinct (pools s)"
  shows "placed s (set (snd (valid_priorities s))) (fst (valid_priorities s))"
proof -
  define step where "step = (\<lambda>i (used, valid).
        let pr = p_prio (the_pool s (pools s ! i))
        in if pr \<ge> 0 \<and> pr < int (total_pools s) \<and> pr \<notin> set used then (pr # used, i # valid) else (used, valid))"
  have "placed s (set (snd (fold step is (used, valid)))) (fst (fold step is (used, valid)))"
    if "set is \<subseteq> {0..<total_pools s}" "placed s (set valid) used" for "is" used valid
    using that
  proof (induction "is" arbitrary: used valid)
    case (Cons i "is")
    define r where "r = step i (used, valid)"
    have "placed s (set (snd r)) (fst r)"
      using Cons.prems by (auto simp: r_def step_def Let_def placed_def)
    then show ?case using Cons.IH [of "snd r" "fst r"] Cons.prems(1) by (simp add: r_def)
  qed simp
  moreover have "placed s (set []) []" using assms by (simp add: placed_def)
  ultimately show ?thesis
    unfolding valid_priorities_def step_def [symmetric] by (metis atLeast_upt order_refl set_upt)
qed

text \<open>Whatever priorities the configuration gave, \<^verbatim>\<open>validate_pool_priorities\<close> leaves the numbers below the number
  of pools, each once.\<close>

lemma validate_pool_priorities_ok:
  assumes "distinct (pools s)"
  shows "prios_ok (validate_pool_priorities s) \<and> pools (validate_pool_priorities s) = pools s"
proof -
  obtain used valid where uv: "valid_priorities s = (used, valid)" by fastforce
  define step where "step = (\<lambda>i (s :: miner, used). if i \<in> set valid then (s, used)
          else case List.find (\<lambda>j. int j \<notin> set used) [0..<total_pools s] of
                 None \<Rightarrow> (s, used)
               | Some j \<Rightarrow> (upd_pool (pools s ! i) (\<lambda>p. p\<lparr>p_prio := int j\<rparr>) s, int j # used))"
  have all: "placed (fst (fold step is (t, used))) (A \<union> set is) (snd (fold step is (t, used))) \<and> pools (fst (fold step is (t, used))) = pools t"
    if "set is \<subseteq> {0..<total_pools t}" "distinct is" "placed t A used" "A \<inter> set is \<subseteq> set valid" "set valid \<subseteq> A" for "is" t A used
    using that
  proof (induction "is" arbitrary: t A used)
    case (Cons i "is")
    define r where "r = step i (t, used)"
    have r: "placed (fst r) (insert i A) (snd r)" "pools (fst r) = pools t"
    proof -
      have "placed (fst r) (insert i A) (snd r) \<and> pools (fst r) = pools t"
      proof (cases "i \<in> set valid")
        case True
        then show ?thesis using Cons.prems by (auto simp: r_def step_def insert_absorb)
      next
        case False
        then have "i < total_pools t" "i \<notin> A" using Cons.prems by auto
        then show ?thesis
          using placed_room [OF Cons.prems(3)] placed_insert [OF Cons.prems(3)] False
          by (fastforce simp: r_def step_def)
      qed
      then show "placed (fst r) (insert i A) (snd r)" "pools (fst r) = pools t" by simp_all
    qed
    have "insert i A \<inter> set is \<subseteq> set valid" using Cons.prems(2,4) by auto
    then show ?case
      using Cons.IH [of "fst r" "insert i A" "snd r"] r Cons.prems by (auto simp: r_def)
  qed simp
  define t where "t = fst (fold step [0..<total_pools s] (s, used))"
  have "placed s (set valid) used" using valid_priorities_placed [OF assms] by (simp add: uv)
  then obtain used' where p: "placed t (set valid \<union> {0..<total_pools s}) used'" "pools t = pools s"
    using all [of "[0..<total_pools s]" s "set valid" used] by (auto simp: t_def)
  have v: "validate_pool_priorities s = t"
    by (simp add: validate_pool_priorities_def uv t_def step_def)
  have pr: "prios t = map (\<lambda>i. p_prio (the_pool t (pools t ! i))) [0..<total_pools t]"
    by (rule nth_equalityI) (simp_all add: prios_def)
  have "inj_on (\<lambda>i. p_prio (the_pool t (pools t ! i))) {0..<total_pools t}"
    "(\<lambda>i. p_prio (the_pool t (pools t ! i))) ` {0..<total_pools t} \<subseteq> {0..<int (total_pools t)}"
    using p unfolding placed_def by (auto intro: inj_on_subset)
  then have "prios_ok t"
    by (intro prios_okI) (simp_all add: pr distinct_map)
  then show ?thesis using p(2) v by simp
qed

section \<open>The user's order\<close>

text \<open>Only the priorities differ.\<close>

definition prio_change :: "miner \<Rightarrow> miner \<Rightarrow> bool" where
  "prio_change s t \<longleftrightarrow> (\<exists>f. t = s\<lparr>pstore := (\<lambda>a. (the_pool s a)\<lparr>p_prio := f a\<rparr>)\<rparr>)"

lemma prio_change_refl [intro]: "prio_change s s"
  unfolding prio_change_def by (rule exI [of _ "\<lambda>a. p_prio (the_pool s a)"]) simp

lemma prio_change_trans: "prio_change s t \<Longrightarrow> prio_change t u \<Longrightarrow> prio_change s u"
  by (force simp: prio_change_def)

lemma prio_change_upd: "prio_change s t \<Longrightarrow> prio_change s (upd_pool a (\<lambda>p. p\<lparr>p_prio := x\<rparr>) t)"
  unfolding prio_change_def upd_pool_def
  by (elim exE, rule_tac x = "\<lambda>b. if b = a then x else f b" in exI) (auto intro!: arg_cong [where f = "\<lambda>g. s\<lparr>pstore := g\<rparr>"])

lemma prio_changeD:
  assumes "prio_change s t"
  shows "pools t = pools s" "currentpool t = currentpool s" "enabled_pools t = enabled_pools s"
    "p_pool_no (the_pool t a) = p_pool_no (the_pool s a)" "p_enabled (the_pool t a) = p_enabled (the_pool s a)"
    "p_idle (the_pool t a) = p_idle (the_pool s a)" "pool_strategy t = pool_strategy s"
  using assms by (auto simp: prio_change_def)

lemma pools_inv_prio_change: "pools_inv s \<Longrightarrow> prio_change s t \<Longrightarrow> prios_ok t \<Longrightarrow> pools_inv t"
  by (rule pools_inv_cong) (simp_all add: prio_changeD pools_inv_def)

abbreviation prio_at :: "miner \<Rightarrow> nat \<Rightarrow> int" where
  "prio_at s i \<equiv> p_prio (the_pool s (pools s ! i))"

lemma prio_at_upd:
  "distinct (pools s) \<Longrightarrow> i < total_pools s \<Longrightarrow> j < total_pools s \<Longrightarrow>
   prio_at (upd_pool (pools s ! i) (\<lambda>p. p\<lparr>p_prio := x\<rparr>) s) j = (if j = i then x else prio_at s j)"
  by (simp add: nth_eq_iff_index_eq)

lemma prios_ok_at:
  assumes "distinct (pools s)"
  shows "prios_ok s \<longleftrightarrow> inj_on (prio_at s) {0..<total_pools s} \<and> (\<forall>i<total_pools s. 0 \<le> prio_at s i \<and> prio_at s i < int (total_pools s))"
proof -
  have "prios s = map (prio_at s) [0..<total_pools s]"
    by (rule nth_equalityI) (simp_all add: prios_def)
  moreover have "prios_ok s \<longleftrightarrow> distinct (prios s) \<and> set (prios s) \<subseteq> {0..<int (total_pools s)}"
    using prios_okI by (auto simp: prios_ok_def)
  moreover have "f ` {0..<n} \<subseteq> {0..<int n} \<longleftrightarrow> (\<forall>i<n. 0 \<le> f i \<and> f i < int n)" for f :: "nat \<Rightarrow> int" and n
    by (auto simp: image_subset_iff)
  ultimately show ?thesis by (simp add: distinct_map)
qed

text \<open>The place among the pools that were not named: how many of them come before.\<close>

definition rest_rank :: "miner \<Rightarrow> nat list \<Rightarrow> int \<Rightarrow> nat" where
  "rest_rank s named x = length named + card {j. j < total_pools s \<and> j \<notin> set named \<and> prio_at s j < x}"

lemma rest_rank_step:
  assumes "inj_on (prio_at s) ({0..<total_pools s} - set named)"
  shows "rest_rank s named (x + 1) =
    rest_rank s named x + (if \<exists>i<total_pools s. i \<notin> set named \<and> prio_at s i = x then 1 else 0)"
proof (cases "\<exists>i<total_pools s. i \<notin> set named \<and> prio_at s i = x")
  case True
  then obtain i where i: "i < total_pools s" "i \<notin> set named" "prio_at s i = x" by blast
  have "{j. j < total_pools s \<and> j \<notin> set named \<and> prio_at s j < x + 1} =
      insert i {j. j < total_pools s \<and> j \<notin> set named \<and> prio_at s j < x}" (is "?A = insert i ?B")
  proof (rule set_eqI)
    fix j
    have "j = i" if "j < total_pools s" "j \<notin> set named" "prio_at s j = x"
      using inj_onD [OF assms, of j i] that i by simp
    then show "j \<in> ?A \<longleftrightarrow> j \<in> insert i ?B" using i unfolding zless_add1_eq by blast
  qed
  moreover have "i \<notin> ?B" "finite ?B" using i by auto
  ultimately have "card ?A = card ?B + 1" by simp
  then show ?thesis using True by (simp add: rest_rank_def)
next
  case False
  then have "{j. j < total_pools s \<and> j \<notin> set named \<and> prio_at s j < x + 1} =
      {j. j < total_pools s \<and> j \<notin> set named \<and> prio_at s j < x}" by force
  then show ?thesis using False by (simp add: rest_rank_def)
qed

text \<open>The loop after the rounds for the priorities below \<open>m\<close>.\<close>

definition appended :: "miner \<Rightarrow> nat list \<Rightarrow> nat \<Rightarrow> miner \<Rightarrow> nat list \<Rightarrow> bool" where
  "appended s named m t changed \<longleftrightarrow>
     prio_change s t \<and> set changed = set named \<union> {i. i < total_pools s \<and> i \<notin> set named \<and> prio_at s i < int m} \<and>
     (\<forall>i<total_pools s. prio_at t i =
        (if i \<notin> set named \<and> prio_at s i < int m then int (rest_rank s named (prio_at s i)) else prio_at s i))"

lemma append_round:
  assumes d: "distinct (pools s)" and inj: "inj_on (prio_at s) ({0..<total_pools s} - set named)"
    and ok: "appended s named m t changed"
  shows "\<exists>t' changed'.
     (case List.find (\<lambda>i. i \<notin> set changed \<and> p_prio (the_pool t (pools t ! i)) = int m) [0..<total_pools t] of
        None \<Rightarrow> (t, changed, rest_rank s named (int m))
      | Some i \<Rightarrow> (upd_pool (pools t ! i) (\<lambda>p. p\<lparr>p_prio := int (rest_rank s named (int m))\<rparr>) t, i # changed, rest_rank s named (int m) + 1))
     = (t', changed', rest_rank s named (int (Suc m))) \<and> appended s named (Suc m) t' changed'"
proof -
  have pt: "pools t = pools s" using ok by (simp add: appended_def prio_changeD)
  have cand: "i \<notin> set changed \<and> prio_at t i = int m \<longleftrightarrow> i \<notin> set named \<and> prio_at s i = int m" if "i < total_pools s" for i
    using ok that unfolding appended_def by auto
  have lt: "prio_at s j < int (Suc m) \<longleftrightarrow> prio_at s j < int m \<or> prio_at s j = int m" for j
    by auto
  show ?thesis
  proof (cases "\<exists>i<total_pools s. i \<notin> set named \<and> prio_at s i = int m")
    case True
    then obtain i where i: "i < total_pools s" "i \<notin> set named" "prio_at s i = int m" by blast
    have uniq: "j = i" if "j < total_pools s" "j \<notin> set named" "prio_at s j = int m" for j
      using inj_onD [OF inj, of j i] that i by simp
    have "List.find (\<lambda>i. i \<notin> set changed \<and> prio_at t i = int m) [0..<total_pools t] \<noteq> None"
      using cand [OF i(1)] i by (auto simp: find_None_iff pt)
    then obtain k where k: "List.find (\<lambda>i. i \<notin> set changed \<and> prio_at t i = int m) [0..<total_pools t] = Some k" by blast
    then have "k < total_pools s" "k \<notin> set changed \<and> prio_at t k = int m" by (auto simp: find_Some_iff pt)
    then have ki: "k = i" using cand uniq by blast
    let ?t = "upd_pool (pools t ! i) (\<lambda>p. p\<lparr>p_prio := int (rest_rank s named (int m))\<rparr>) t"
    have at: "prio_at ?t j = (if j = i then int (rest_rank s named (int m)) else prio_at t j)" if "j < total_pools s" for j
      using prio_at_upd [of t i j] d i(1) that by (simp add: pt)
    have "appended s named (Suc m) ?t (i # changed)"
      unfolding appended_def lt
    proof (intro conjI allI impI)
      show "prio_change s ?t" using ok unfolding appended_def by (blast intro: prio_change_upd)
      have "set changed = set named \<union> {i. i < total_pools s \<and> i \<notin> set named \<and> prio_at s i < int m}"
        using ok unfolding appended_def by blast
      then show "set (i # changed) = set named \<union> {i. i < total_pools s \<and> i \<notin> set named \<and> (prio_at s i < int m \<or> prio_at s i = int m)}"
        using i uniq unfolding list.set by blast
      fix j assume j: "j < total_pools s"
      show "prio_at ?t j = (if j \<notin> set named \<and> (prio_at s j < int m \<or> prio_at s j = int m) then int (rest_rank s named (prio_at s j)) else prio_at s j)"
      proof (cases "j = i")
        case True
        then show ?thesis unfolding at [OF j] using i by simp
      next
        case False
        then have "\<not> (j \<notin> set named \<and> prio_at s j = int m)" using uniq j by blast
        moreover have "prio_at t j = (if j \<notin> set named \<and> prio_at s j < int m then int (rest_rank s named (prio_at s j)) else prio_at s j)"
          using ok j unfolding appended_def by blast
        ultimately show ?thesis unfolding at [OF j] using False by argo
      qed
    qed
    moreover have "rest_rank s named (int (Suc m)) = rest_rank s named (int m) + 1"
      using rest_rank_step [OF inj, of "int m"] True by (simp add: add.commute)
    ultimately show ?thesis unfolding k ki by auto
  next
    case False
    have n: "List.find (\<lambda>i. i \<notin> set changed \<and> prio_at t i = int m) [0..<total_pools t] = None"
      using cand False by (auto simp: find_None_iff pt)
    have "appended s named (Suc m) t changed"
    proof -
      have "i \<notin> set named \<and> (prio_at s i < int m \<or> prio_at s i = int m) \<longleftrightarrow> i \<notin> set named \<and> prio_at s i < int m"
        if "i < total_pools s" for i
        using False that by blast
      moreover from this have "{i. i < total_pools s \<and> i \<notin> set named \<and> (prio_at s i < int m \<or> prio_at s i = int m)} =
          {i. i < total_pools s \<and> i \<notin> set named \<and> prio_at s i < int m}" by blast
      ultimately show ?thesis using ok unfolding appended_def lt by simp
    qed
    moreover have "rest_rank s named (int (Suc m)) = rest_rank s named (int m)"
      using rest_rank_step [OF inj, of "int m"] False by (simp add: add.commute)
    ultimately show ?thesis unfolding n by auto
  qed
qed

lemma append_unchanged_appended:
  assumes d: "distinct (pools s)" and inj: "inj_on (prio_at s) ({0..<total_pools s} - set named)"
    and pos: "\<And>i. i < total_pools s \<Longrightarrow> i \<notin> set named \<Longrightarrow> 0 \<le> prio_at s i"
  shows "\<exists>changed. appended s named (total_pools s) (append_unchanged named s) changed"
proof -
  define step where "step = (\<lambda>pr (t, changed, prio).
        case List.find (\<lambda>i. i \<notin> set changed \<and> p_prio (the_pool t (pools t ! i)) = int pr) [0..<total_pools t] of
          None \<Rightarrow> (t, changed, prio)
        | Some i \<Rightarrow> (upd_pool (pools t ! i) (\<lambda>p. p\<lparr>p_prio := int prio\<rparr>) t, i # changed, prio + 1))"
  have none: "\<not> (i \<notin> set named \<and> prio_at s i < 0)" if "i < total_pools s" for i using pos that by force
  have empty: "{j. j < total_pools s \<and> j \<notin> set named \<and> prio_at s j < 0} = {}" using none by blast
  have start: "appended s named 0 s named" "rest_rank s named 0 = length named"
    using none prio_change_refl [of s] by (auto simp: appended_def rest_rank_def empty)
  have "\<exists>t changed. fold step [0..<m] (s, named, length named) = (t, changed, rest_rank s named (int m)) \<and> appended s named m t changed" for m
  proof (induction m)
    case 0 show ?case using start by auto
  next
    case (Suc m)
    then obtain t changed where t: "fold step [0..<m] (s, named, length named) = (t, changed, rest_rank s named (int m))"
      "appended s named m t changed" by blast
    show ?case using append_round [OF d inj t(2)] by (simp add: t(1)) (simp add: step_def)
  qed
  from this [of "total_pools s"] show ?thesis
    unfolding append_unchanged_def step_def [symmetric] by fastforce
qed

lemma prio_parse_named:
  "prio_parse n acc ptrs = Inr named \<Longrightarrow> distinct acc \<Longrightarrow> set acc \<subseteq> {0..<n} \<Longrightarrow>
   distinct named \<and> set named \<subseteq> {0..<n}"
  by (induction n acc ptrs rule: prio_parse.induct) (auto simp: Let_def split: if_splits)

definition give_first :: "nat list \<Rightarrow> miner \<Rightarrow> miner" where
  "give_first named s = fold (\<lambda>k s. upd_pool (pools s ! (named ! k)) (\<lambda>p. p\<lparr>p_prio := int k\<rparr>) s) [0..<length named] s"

lemma give_first_prefix:
  assumes d: "distinct (pools s)" "distinct named" "set named \<subseteq> {0..<total_pools s}" and m: "m \<le> length named"
  defines "t \<equiv> fold (\<lambda>k s. upd_pool (pools s ! (named ! k)) (\<lambda>p. p\<lparr>p_prio := int k\<rparr>) s) [0..<m] s"
  shows "prio_change s t \<and> (\<forall>k<m. prio_at t (named ! k) = int k) \<and>
    (\<forall>i<total_pools s. i \<notin> set (take m named) \<longrightarrow> prio_at t i = prio_at s i)"
  using m unfolding t_def
proof (induction m)
  case 0 show ?case by auto
next
  case (Suc m)
  define u where "u = fold (\<lambda>k s. upd_pool (pools s ! (named ! k)) (\<lambda>p. p\<lparr>p_prio := int k\<rparr>) s) [0..<m] s"
  have u: "prio_change s u" "\<And>k. k < m \<Longrightarrow> prio_at u (named ! k) = int k"
    "\<And>i. i < total_pools s \<Longrightarrow> i \<notin> set (take m named) \<Longrightarrow> prio_at u i = prio_at s i"
    using Suc u_def by auto
  have pu: "pools u = pools s" using u(1) by (rule prio_changeD)
  have lt: "named ! k < total_pools s" if "k < length named" for k using d(3) that nth_mem by fastforce
  have at: "prio_at (upd_pool (pools u ! (named ! m)) (\<lambda>p. p\<lparr>p_prio := int m\<rparr>) u) j = (if j = named ! m then int m else prio_at u j)"
    if "j < total_pools s" for j
    using prio_at_upd [of u "named ! m" j] d(1) lt [of m] Suc.prems that by (simp add: pu)
  have "prio_at (upd_pool (pools u ! (named ! m)) (\<lambda>p. p\<lparr>p_prio := int m\<rparr>) u) (named ! k) = int k" if "k < Suc m" for k
  proof (cases "k = m")
    case True
    then show ?thesis using at [OF lt, of m] Suc.prems by simp
  next
    case False
    then have "k < m" "named ! k \<noteq> named ! m" using that d(2) Suc.prems by (auto simp: nth_eq_iff_index_eq)
    then show ?thesis using at [OF lt, of k] Suc.prems u(2) [of k] by simp
  qed
  moreover have "prio_at (upd_pool (pools u ! (named ! m)) (\<lambda>p. p\<lparr>p_prio := int m\<rparr>) u) i = prio_at s i"
    if "i < total_pools s" "i \<notin> set (take (Suc m) named)" for i
  proof -
    have "i \<notin> set (take m named)" "i \<noteq> named ! m" using that(2) Suc.prems by (auto simp: take_Suc_conv_app_nth)
    then show ?thesis using at [OF that(1)] u(3) that(1) by simp
  qed
  ultimately show ?case using prio_change_upd [OF u(1)] by (simp add: u_def)
qed

lemma give_first_spec:
  assumes "distinct (pools s)" "distinct named" "set named \<subseteq> {0..<total_pools s}"
  shows "prio_change s (give_first named s)"
    "k < length named \<Longrightarrow> prio_at (give_first named s) (named ! k) = int k"
    "i < total_pools s \<Longrightarrow> i \<notin> set named \<Longrightarrow> prio_at (give_first named s) i = prio_at s i"
  using give_first_prefix [OF assms order_refl] by (auto simp: give_first_def)

text \<open>The priorities as the user ordered them.\<close>

definition user_order :: "miner \<Rightarrow> nat list \<Rightarrow> miner \<Rightarrow> bool" where
  "user_order s named t \<longleftrightarrow>
     (\<forall>k<length named. prio_at t (named ! k) = int k) \<and>
     (\<forall>i<total_pools s. i \<notin> set named \<longrightarrow>
        prio_at t i = int (length named + card {j. j < total_pools s \<and> j \<notin> set named \<and> prio_at s j < prio_at s i}))"

lemma user_order_result:
  assumes inv: "pools_inv s" and named: "distinct named" "set named \<subseteq> {0..<total_pools s}"
  defines "t \<equiv> append_unchanged named (give_first named s)"
  shows "prio_change s t \<and> user_order s named t"
proof -
  define u where "u = give_first named s"
  have d: "distinct (pools s)" and ok: "prios_ok s" using inv by (auto simp: pools_inv_def)
  note u = give_first_spec [OF d named, folded u_def]
  have pu: "pools u = pools s" using u(1) by (rule prio_changeD)
  have s: "inj_on (prio_at s) {0..<total_pools s}" "\<And>i. i < total_pools s \<Longrightarrow> 0 \<le> prio_at s i \<and> prio_at s i < int (total_pools s)"
    using ok prios_ok_at [OF d] by auto
  have "inj_on (prio_at u) ({0..<total_pools u} - set named)"
    by (rule inj_onI) (use u(3) inj_onD [OF s(1)] in \<open>simp add: pu\<close>)
  moreover have "0 \<le> prio_at u i" if "i < total_pools u" "i \<notin> set named" for i
    using u(3) [of i] s(2) [of i] that by (simp add: pu)
  ultimately obtain changed where a: "appended u named (total_pools u) t changed"
    using append_unchanged_appended [of u named] d unfolding t_def u_def [symmetric] pu by blast
  have same: "{j. j < total_pools s \<and> j \<notin> set named \<and> prio_at u j < x} = {j. j < total_pools s \<and> j \<notin> set named \<and> prio_at s j < x}" for x
    using u(3) by auto
  have "prio_at t i = int (length named + card {j. j < total_pools s \<and> j \<notin> set named \<and> prio_at s j < prio_at s i})"
    if "i < total_pools s" "i \<notin> set named" for i
    using a that u(3) [OF that] s(2) [OF that(1)] using same [of "prio_at s i"] by (simp add: appended_def pu rest_rank_def)
  moreover have "prio_at t (named ! k) = int k" if "k < length named" for k
  proof -
    have "named ! k < total_pools s" "named ! k \<in> set named" using that named(2) nth_mem by fastforce+
    then show ?thesis using a u(2) [OF that] by (simp add: appended_def pu)
  qed
  moreover have "prio_change s t" using a u(1) prio_change_trans unfolding appended_def by blast
  ultimately show ?thesis by (simp add: user_order_def)
qed

lemma user_order_prios_ok:
  assumes inv: "pools_inv s" and named: "distinct named" "set named \<subseteq> {0..<total_pools s}"
    and t: "prio_change s t" "user_order s named t"
  shows "prios_ok t"
proof -
  let ?n = "total_pools s" and ?B = "\<lambda>x. {j. j < total_pools s \<and> j \<notin> set named \<and> prio_at s j < x}"
  have pt: "pools t = pools s" using t(1) by (rule prio_changeD)
  have d: "distinct (pools s)" and ok: "prios_ok s" using inv by (auto simp: pools_inv_def)
  have s: "inj_on (prio_at s) {0..<?n}" using ok prios_ok_at [OF d] by auto
  have T1: "\<And>k. k < length named \<Longrightarrow> prio_at t (named ! k) = int k"
    and T2: "\<And>i. i < ?n \<Longrightarrow> i \<notin> set named \<Longrightarrow> prio_at t i = int (length named + card (?B (prio_at s i)))"
    using t(2) by (auto simp: user_order_def)
  have N: "\<exists>k<length named. i = named ! k \<and> prio_at t i = int k" if i: "i \<in> set named" for i
  proof -
    obtain k where "k < length named" "named ! k = i" using \<open>i \<in> set named\<close> by (auto simp: in_set_conv_nth)
    then show ?thesis using T1 [of k] by auto
  qed
  have mono: "card (?B (prio_at s i)) < card (?B (prio_at s j))" if "i < ?n" "i \<notin> set named" "prio_at s i < prio_at s j" for i j
    by (rule psubset_card_mono) (use that in auto)
  have le: "length named + card (?B (prio_at s i)) < ?n" if "i < ?n" "i \<notin> set named" for i
  proof -
    have "?B (prio_at s i) \<subseteq> {0..<?n} - set named" by auto
    moreover have "i \<in> {0..<?n} - set named" "i \<notin> ?B (prio_at s i)" using that by auto
    ultimately have "?B (prio_at s i) \<subset> {0..<?n} - set named" by blast
    moreover have "finite ({0..<?n} - set named)" by simp
    ultimately have "card (?B (prio_at s i)) < card ({0..<?n} - set named)" by (intro psubset_card_mono)
    also have "\<dots> = ?n - length named" using named by (simp add: card_Diff_subset distinct_card)
    finally show ?thesis by simp
  qed
  have ln: "length named \<le> ?n"
    using card_mono [OF _ named(2)] named(1) by (simp add: distinct_card)
  have range: "0 \<le> prio_at t i \<and> prio_at t i < int ?n" if "i < ?n" for i
    using N [of i] T2 [OF that] le [OF that] ln by (cases "i \<in> set named") auto
  have "i = j" if "i < ?n" "j < ?n" "prio_at t i = prio_at t j" for i j
  proof -
    consider "i \<in> set named" "j \<in> set named" | "i \<in> set named" "j \<notin> set named" | "i \<notin> set named" "j \<in> set named"
      | "i \<notin> set named" "j \<notin> set named" by blast
    then show ?thesis
    proof cases
      case 1 then show ?thesis using N [of i] N [of j] that(3) by auto
    next
      case 2 then show ?thesis using N [of i] T2 [of j] that by auto
    next
      case 3 then show ?thesis using N [of j] T2 [of i] that by auto
    next
      case 4
      then have "card (?B (prio_at s i)) = card (?B (prio_at s j))" using T2 [of i] T2 [of j] that by simp
      then have "\<not> prio_at s i < prio_at s j" "\<not> prio_at s j < prio_at s i"
        using mono [OF that(1) 4(1), of j] mono [OF that(2) 4(2), of i] by linarith+
      then have "prio_at s i = prio_at s j" by linarith
      then show ?thesis by (rule inj_onD [OF s]) (use that in simp_all)
    qed
  qed
  then have "inj_on (prio_at t) {0..<?n}" by (intro inj_onI) (simp only: atLeastLessThan_iff)
  moreover have "distinct (pools t)" using d pt by simp
  ultimately show ?thesis using range unfolding prios_ok_at [OF \<open>distinct (pools t)\<close>] unfolding pt by blast
qed

text \<open>The user's order of pools: when the list names pools that exist, each once, these get the first priorities
  in the order given, the other pools follow in their old order, the priorities are again the numbers below
  the number of pools, and the invariant of the array is kept. On any error message nothing is changed.\<close>

lemma prioritize_pools_order:
  assumes "pools_inv s" "prioritize_pools param s = (t, msg)"
  shows "if msg = MSG_POOLPRIO
    then pools_inv t \<and> pools t = pools s \<and>
      (\<exists>str named. param = Some str \<and> prio_parse (total_pools s) [] (prio_items str) = Inr named \<and> user_order s named t)
    else t = s"
proof (cases "msg = MSG_POOLPRIO")
  case False
  then show ?thesis using assms(2)
    by (auto simp: prioritize_pools_def Let_def split: option.splits if_splits sum.splits)
next
  case True
  have parse_msg: "prio_parse n acc ptrs \<noteq> Inl MSG_POOLPRIO" for n acc ptrs
    by (induction n acc ptrs rule: prio_parse.induct) (auto simp: Let_def)
  obtain str named where p: "param = Some str" "prio_parse (total_pools s) [] (prio_items str) = Inr named"
    using assms(2) True parse_msg by (auto simp: prioritize_pools_def Let_def split: option.splits if_splits sum.splits)
  have named: "distinct named" "set named \<subseteq> {0..<total_pools s}" using prio_parse_named [OF p(2)] by auto
  define u where "u = append_unchanged named (give_first named s)"
  have u: "prio_change s u" "user_order s named u" using user_order_result [OF assms(1) named] by (auto simp: u_def)
  have inv: "pools_inv u" using pools_inv_prio_change [OF assms(1) u(1)] user_order_prios_ok [OF assms(1) named u] by blast
  have t: "t = (if p_prio (the_pool u (current_pool u)) \<noteq> 0 then switch_pools None u else u)"
    using assms(2) p True
    by (auto simp: prioritize_pools_def Let_def u_def [symmetric] give_first_def [symmetric] simp del: fold_simps split: if_splits)
  have same: "pools t = pools s" "\<And>a. p_prio (the_pool t a) = p_prio (the_pool u a)"
    using inv u(1) by (auto simp: t switch_pools_def prio_changeD)
  then have "user_order s named t" using u by (simp add: user_order_def prio_changeD)
  moreover have "pools_inv t" using inv by (auto simp: t intro!: inv_intros)
  ultimately show ?thesis using True p same(1) by auto
qed

end
