(* ===== verification/PoolSelect.thy ===== *)
theory PoolSelect
  imports PoolFacts
begin

text \<open>
  Which pool gets the next work item: the shares that \<^verbatim>\<open>adjust_quota_gcd\<close> derives from the quotas, the
  choice by fewest shares, by quota and by priority, and the retry loop of \<^verbatim>\<open>select_pool\<close>: when it
  ends, and the case in which it does not.
\<close>

section \<open>The divisor of the quotas\<close>

lemma lower_gcd_le: "lower_gcd q g \<le> g"
  by (induction q g rule: lower_gcd.induct) (subst lower_gcd.simps, auto)

lemma lower_gcd_pos: "0 < g \<Longrightarrow> 0 < lower_gcd q g"
proof (induction q g rule: lower_gcd.induct)
  case (1 q g)
  show ?case
  proof (cases "q mod g = 0 \<or> g = 1")
    case True
    then show ?thesis using 1(2) by (subst lower_gcd.simps) auto
  next
    case False
    then show ?thesis using 1 by (subst lower_gcd.simps) auto
  qed
qed

lemma lower_gcd_dvd: "0 < g \<Longrightarrow> lower_gcd q g dvd q"
proof (induction q g rule: lower_gcd.induct)
  case (1 q g)
  show ?case
  proof (cases "q mod g = 0")
    case True
    then show ?thesis using 1(2) by (subst lower_gcd.simps) auto
  next
    case False
    then have "g \<noteq> 1" by auto
    then show ?thesis using 1 False by (subst lower_gcd.simps) auto
  qed
qed

abbreviation lowest_from :: "int list \<Rightarrow> int \<Rightarrow> int" where
  "lowest_from \<equiv> fold (\<lambda>q low. if q \<noteq> 0 \<and> q < low then q else low)"

lemma lowest_from_le: "lowest_from quotas low \<le> low"
proof (induction quotas arbitrary: low)
  case (Cons q qs)
  show ?case using Cons [of q] Cons [of low] by (auto intro: order_trans)
qed simp

lemma lowest_from_mem: "q \<in> set quotas \<Longrightarrow> q \<noteq> 0 \<Longrightarrow> lowest_from quotas low \<le> q"
proof (induction quotas arbitrary: low)
  case (Cons x qs)
  have "lowest_from qs (if x \<noteq> 0 \<and> x < low then x else low) \<le> q" if "x = q"
    using lowest_from_le [of qs "if x \<noteq> 0 \<and> x < low then x else low"] that Cons.prems(2) by (auto split: if_splits)
  then show ?case using Cons by auto
qed simp

lemma lowest_from_pos: "\<forall>q\<in>set quotas. 0 \<le> q \<Longrightarrow> 0 < low \<Longrightarrow> 0 < lowest_from quotas low"
  by (induction quotas arbitrary: low) auto

lemma gcd_fold:
  "0 < g \<Longrightarrow> let r = fold (\<lambda>q g. if q = 0 then g else lower_gcd q g) quotas g in 0 < r \<and> r \<le> g"
proof (induction quotas arbitrary: g)
  case (Cons q qs)
  show ?case
    using Cons.IH [of "if q = 0 then g else lower_gcd q g"] Cons.prems lower_gcd_pos [of g q] lower_gcd_le [of q g]
    by (auto simp: Let_def)
qed simp

text \<open>The divisor is at least 1 and no quota that counts is smaller: no pool with a quota ends with a
  share of zero.\<close>

lemma quota_gcd_of_bounds:
  assumes "\<forall>q\<in>set quotas. 0 \<le> q"
  shows "1 \<le> quota_gcd_of quotas" "q \<in> set quotas \<Longrightarrow> q \<noteq> 0 \<Longrightarrow> quota_gcd_of quotas \<le> q"
proof -
  define low where "low = lowest_from quotas ULONG_MAX"
  have low: "low \<le> ULONG_MAX" "\<forall>q\<in>set quotas. q \<noteq> 0 \<longrightarrow> low \<le> q" "0 < low"
    using lowest_from_le [of quotas ULONG_MAX] lowest_from_mem [of _ quotas ULONG_MAX] lowest_from_pos [OF assms, of ULONG_MAX]
    by (auto simp: low_def ULONG_MAX_def)
  have g: "0 < fold (\<lambda>q g. if q = 0 then g else lower_gcd q g) quotas low \<and> fold (\<lambda>q g. if q = 0 then g else lower_gcd q g) quotas low \<le> low"
    using gcd_fold [OF low(3), of quotas] by (simp add: Let_def)
  have eq: "quota_gcd_of quotas = (if low < ULONG_MAX then fold (\<lambda>q g. if q = 0 then g else lower_gcd q g) quotas low else 1)"
    by (simp add: quota_gcd_of_def low_def Let_def)
  show "1 \<le> quota_gcd_of quotas" using g by (simp add: eq)
  show "quota_gcd_of quotas \<le> q" if "q \<in> set quotas" "q \<noteq> 0"
  proof -
    have "low \<le> q" using low(2) that by blast
    moreover have "1 \<le> q" using assms that by force
    ultimately show ?thesis using g by (simp add: eq)
  qed
qed

text \<open>Every pool gets its share of the quotas, at least one unit when its quota is not zero.\<close>

definition quotas_of :: "miner \<Rightarrow> int list" where
  "quotas_of s = map (\<lambda>a. ulong_of_int (p_quota (the_pool s a))) (pools s)"

lemma fold_upd_pool_distinct:
  assumes "distinct as" "\<And>x s. G (upd_pool x (f (G s)) s) = G s"
  shows "the_pool (fold (\<lambda>a s. upd_pool a (f (G s)) s) as s) a = (if a \<in> set as then f (G s) (the_pool s a) else the_pool s a)"
  using assms by (induction as arbitrary: s) auto

lemma adjust_quota_gcd_at:
  assumes "distinct (pools s)" "a \<in> set (pools s)"
  shows "the_pool (adjust_quota_gcd s) a =
    (the_pool s a)\<lparr>p_quota_used := int_of_long (ulong_of_int (int_of_long (ulong_of_int (ulong_of_int (p_quota_used (the_pool s a)) * global_quota_gcd s))) div quota_gcd_of (quotas_of s)),
      p_quota_gcd := int_of_long (ulong_of_int (p_quota (the_pool s a)) div quota_gcd_of (quotas_of s))\<rparr>"
  unfolding adjust_quota_gcd_def quotas_of_def [symmetric] Let_def
  using fold_upd_pool_distinct [OF assms(1), where G = global_quota_gcd and s = s and a = a and
     f = "\<lambda>G p. p\<lparr>p_quota_used := int_of_long (ulong_of_int (int_of_long (ulong_of_int (ulong_of_int (p_quota_used p) * G))) div quota_gcd_of (quotas_of s)),
      p_quota_gcd := int_of_long (ulong_of_int (p_quota p) div quota_gcd_of (quotas_of s))\<rparr>"] assms(2) by simp

definition int_range :: "int \<Rightarrow> bool" where
  "int_range n \<longleftrightarrow> - (2 ^ 31) \<le> n \<and> n < 2 ^ 31"

text \<open>With no negative quota, as the API and the configuration ensure, \<^verbatim>\<open>adjust_quota_gcd\<close> finds a divisor of at least
  1, and each pool's share is its quota divided by it: between 1 and the quota when the quota is not 0,
  and 0 when it is 0.\<close>

lemma adjust_quota_gcd_shares:
  assumes "distinct (pools s)" "\<forall>a\<in>set (pools s). 0 \<le> p_quota (the_pool s a) \<and> int_range (p_quota (the_pool s a))"
  shows "1 \<le> global_quota_gcd (adjust_quota_gcd s) \<and>
    (\<forall>a\<in>set (pools s). let q = p_quota (the_pool s a); share = p_quota_gcd (the_pool (adjust_quota_gcd s) a) in
       share = q div global_quota_gcd (adjust_quota_gcd s) \<and> share \<le> q \<and> (0 < share \<longleftrightarrow> q \<noteq> 0))"
proof -
  define g where "g = quota_gcd_of (quotas_of s)"
  have G: "global_quota_gcd (adjust_quota_gcd s) = g"
    by (simp add: adjust_quota_gcd_def Let_def g_def quotas_of_def)
  have u: "ulong_of_int (p_quota (the_pool s a)) = p_quota (the_pool s a)" if "a \<in> set (pools s)" for a
    using assms(2) that by (auto simp: ulong_of_int_def int_range_def)
  have pos: "\<forall>q\<in>set (quotas_of s). 0 \<le> q" using assms(2) u by (auto simp: quotas_of_def)
  note b = quota_gcd_of_bounds [OF pos, folded g_def]
  have "share_ok" if "a \<in> set (pools s)"
    "share_ok \<longleftrightarrow> (let q = p_quota (the_pool s a); share = p_quota_gcd (the_pool (adjust_quota_gcd s) a) in
       share = q div g \<and> share \<le> q \<and> (0 < share \<longleftrightarrow> q \<noteq> 0))" for a share_ok
  proof -
    let ?q = "p_quota (the_pool s a)"
    have q: "0 \<le> ?q" "?q < 2 ^ 31" using assms(2) that(1) by (auto simp: int_range_def)
    have "?q \<noteq> 0 \<Longrightarrow> g \<le> ?q" using b(2) [of ?q] u [OF that(1)] that(1) by (force simp: quotas_of_def)
    then have nz: "?q \<noteq> 0 \<Longrightarrow> 0 < ?q div g" using b(1) by (simp add: pos_imp_zdiv_pos_iff)
    have le: "?q div g \<le> ?q" "0 \<le> ?q div g" using q b(1) zdiv_mono2 [of ?q 1 g] by (simp_all add: pos_imp_zdiv_nonneg_iff)
    have "int_of_long (?q div g) = ?q div g" using le q by (intro int_of_long_id) linarith+
    then have "p_quota_gcd (the_pool (adjust_quota_gcd s) a) = ?q div g"
      using adjust_quota_gcd_at [OF assms(1) that(1)] u [OF that(1)] by (simp add: g_def)
    then show ?thesis using that(2) nz le by (auto simp: Let_def)
  qed
  then show ?thesis using b(1) unfolding G by blast
qed

section \<open>Fewest shares\<close>

text \<open>The pools that \<^verbatim>\<open>select_balanced\<close> may choose.\<close>

definition balance_candidate :: "miner \<Rightarrow> nat option \<Rightarrow> nat \<Rightarrow> bool" where
  "balance_candidate s malgo b \<longleftrightarrow>
     (malgo = None \<or> malgo = Some (pool_malgo s b)) \<and> \<not> pool_unworkable (the_pool s b) \<and> \<not> p_failover_only (the_pool s b)"

abbreviation balance_step :: "miner \<Rightarrow> nat option \<Rightarrow> nat \<Rightarrow> int \<times> nat \<times> nat option \<Rightarrow> int \<times> nat \<times> nat option" where
  "balance_step s malgo \<equiv> \<lambda>pool (lowest, ret, failover_pool).
                if malgo \<noteq> None \<and> Some (pool_malgo s pool) \<noteq> malgo then (lowest, ret, failover_pool)
                else if pool_unworkable (the_pool s pool) then (lowest, ret, failover_pool)
                else if p_failover_only (the_pool s pool)
                then (lowest, ret, if failover_pool = None then Some pool else failover_pool)
                else if p_shares (the_pool s pool) < lowest
                then (p_shares (the_pool s pool), pool, failover_pool)
                else (lowest, ret, failover_pool)"

lemma balance_fold:
  assumes "fold (balance_step s malgo) ps (p_shares (the_pool s r0), r0, f0) = (lowest, ret, f)"
  shows "lowest = p_shares (the_pool s ret) \<and> lowest \<le> p_shares (the_pool s r0) \<and>
    (ret = r0 \<or> ret \<in> set ps \<and> balance_candidate s malgo ret) \<and>
    (\<forall>b\<in>set ps. balance_candidate s malgo b \<longrightarrow> lowest \<le> p_shares (the_pool s b)) \<and>
    (\<forall>p. f = Some p \<longrightarrow> f0 = Some p \<or> p \<in> set ps \<and> p_failover_only (the_pool s p) \<and> \<not> pool_unworkable (the_pool s p))"
  using assms
proof (induction ps arbitrary: r0 f0)
  case (Cons p ps)
  show ?case
  proof (cases "balance_candidate s malgo p \<and> p_shares (the_pool s p) < p_shares (the_pool s r0)")
    case True
    then have "fold (balance_step s malgo) ps (p_shares (the_pool s p), p, f0) = (lowest, ret, f)"
      using Cons.prems by (simp add: balance_candidate_def split: if_splits)
    from Cons.IH [OF this] show ?thesis using True by auto
  next
    case False
    define f1 where "f1 = snd (snd (balance_step s malgo p (p_shares (the_pool s r0), r0, f0)))"
    have f1: "balance_step s malgo p (p_shares (the_pool s r0), r0, f0) = (p_shares (the_pool s r0), r0, f1)"
      "f1 = f0 \<or> f1 = Some p \<and> p_failover_only (the_pool s p) \<and> \<not> pool_unworkable (the_pool s p)"
      using False by (auto simp: balance_candidate_def f1_def)
    then have "fold (balance_step s malgo) ps (p_shares (the_pool s r0), r0, f1) = (lowest, ret, f)"
      using Cons.prems by simp
    from Cons.IH [OF this] show ?thesis using False f1(2) by auto
  qed
qed simp

text \<open>With the balance strategy the pool that gets the next work item has, of all workable pools that are not
  for failover only and mine the algorithm asked for, the fewest shares, unless it is itself for
  failover only; it is the current pool or a workable one. Its count of shares goes up by one and nothing else
  changes.\<close>

lemma select_balanced_fewest:
  assumes "select_balanced cp malgo s = (t, Some r)"
  shows "t = upd_pool r (\<lambda>p. p\<lparr>p_shares := p_shares p + 1\<rparr>) s \<and> (r = cp \<or> r \<in> set (pools s) \<and> \<not> pool_unworkable (the_pool s r)) \<and>
    (p_failover_only (the_pool s r) \<or>
      (\<forall>b\<in>set (pools s). balance_candidate s malgo b \<longrightarrow> p_shares (the_pool s r) \<le> p_shares (the_pool s b)))"
proof -
  obtain lowest ret f where f: "fold (balance_step s malgo) (pools s) (p_shares (the_pool s cp), cp, None) = (lowest, ret, f)"
    by (rule prod_cases3)
  have r: "t = upd_pool r (\<lambda>p. p\<lparr>p_shares := p_shares p + 1\<rparr>) s" "r = ret \<or> f = Some r"
  proof -
    define pick where "pick = (if malgo \<noteq> None \<and> Some (pool_malgo s ret) \<noteq> malgo then f
                 else if pool_unworkable (the_pool s ret) \<and> f \<noteq> None then f else Some ret)"
    have "(case pick of Some r \<Rightarrow> (upd_pool r (\<lambda>p. p\<lparr>p_shares := p_shares p + 1\<rparr>) s, pick) | None \<Rightarrow> (s, None)) = (t, Some r)"
      using assms unfolding select_balanced_def f Let_def prod.case pick_def .
    then have "pick = Some r" "t = upd_pool r (\<lambda>p. p\<lparr>p_shares := p_shares p + 1\<rparr>) s"
      by (cases pick; simp)+
    then show "t = upd_pool r (\<lambda>p. p\<lparr>p_shares := p_shares p + 1\<rparr>) s" "r = ret \<or> f = Some r"
      by (simp_all add: pick_def split: if_splits)
  qed
  note b = balance_fold [OF f]
  from r(2) show ?thesis
  proof
    assume "r = ret"
    then show ?thesis using b r(1) unfolding balance_candidate_def by metis
  next
    assume "f = Some r"
    then have "r \<in> set (pools s) \<and> p_failover_only (the_pool s r) \<and> \<not> pool_unworkable (the_pool s r)" using b by simp
    then show ?thesis using r(1) by blast
  qed
qed

section \<open>By priority\<close>

definition fits :: "miner \<Rightarrow> nat option \<Rightarrow> nat \<Rightarrow> bool" where
  "fits s malgo b \<longleftrightarrow> (malgo = None \<or> malgo = Some (pool_malgo s b)) \<and> \<not> pool_unusable (the_pool s b)"

lemma prio_place:
  assumes "pools_inv s" "b \<in> set (pools s)"
  shows "\<exists>i<total_pools s. priority_pool s i = b \<and> p_prio (the_pool s b) = int i"
proof -
  have "0 \<le> p_prio (the_pool s b)" "p_prio (the_pool s b) < int (total_pools s)"
    using assms prios_ok_iff [of s] by (auto simp: pools_inv_def)
  then have "nat (p_prio (the_pool s b)) < total_pools s" "int (nat (p_prio (the_pool s b))) = p_prio (the_pool s b)"
    by simp_all
  then show ?thesis using priority_pool_iff [OF assms(1)] assms(2) by metis
qed

text \<open>\<^verbatim>\<open>select_failover\<close> returns the usable pool of the asked algorithm with the highest priority, and nothing only
  when there is no such pool.\<close>

lemma select_failover_best:
  assumes "pools_inv s"
  shows "case select_failover malgo s of
      None \<Rightarrow> \<forall>b\<in>set (pools s). \<not> fits s malgo b
    | Some a \<Rightarrow> a \<in> set (pools s) \<and> fits s malgo a \<and>
        (\<forall>b\<in>set (pools s). fits s malgo b \<longrightarrow> p_prio (the_pool s a) \<le> p_prio (the_pool s b))"
proof -
  have eq: "select_failover malgo s = List.find (fits s malgo) (map (priority_pool s) [0..<total_pools s])"
    unfolding select_failover_def by (rule arg_cong2 [where f = List.find]) (auto simp: fits_def fun_eq_iff)
  show ?thesis
  proof (cases "select_failover malgo s")
    case None
    then have "\<forall>b\<in>set (pools s). \<not> fits s malgo b"
      using prio_place [OF assms] by (fastforce simp: eq find_None_iff)
    then show ?thesis using None by simp
  next
    case (Some a)
    then obtain i where i: "i < total_pools s" "a = priority_pool s i" "fits s malgo a"
      "\<forall>j<i. \<not> fits s malgo (priority_pool s j)"
      by (auto simp: eq find_Some_iff)
    have a: "a \<in> set (pools s)" "p_prio (the_pool s a) = int i"
      using priority_pool_iff [OF assms i(1), of a] i(2) by auto
    have "int i \<le> p_prio (the_pool s b)" if "b \<in> set (pools s)" "fits s malgo b" for b
      using prio_place [OF assms that(1)] that(2) i(4) by (metis linorder_not_less of_nat_le_iff)
    then show ?thesis using Some a i(3) by simp
  qed
qed

section \<open>By quota\<close>

lemma next_rotation_frame [simp]:
  "pstore (next_rotation s) = pstore s" "gstore (next_rotation s) = gstore s" "pools (next_rotation s) = pools s"
  "opt_fail_only (next_rotation s) = opt_fail_only s"
  by (simp_all add: next_rotation_def)

lemma next_rotation_range: "pools s \<noteq> [] \<Longrightarrow> rotating_pool (next_rotation s) < total_pools s"
  by (simp add: next_rotation_def)

text \<open>Only the counters of used quota differ.\<close>

definition quota_change :: "miner \<Rightarrow> miner \<Rightarrow> bool" where
  "quota_change s t \<longleftrightarrow> pools t = pools s \<and> gstore t = gstore s \<and> opt_fail_only t = opt_fail_only s \<and>
     (\<exists>u. pstore t = (\<lambda>a. (the_pool s a)\<lparr>p_quota_used := u a\<rparr>))"

lemma quota_change_refl: "quota_change s s"
  unfolding quota_change_def by (auto intro!: exI [of _ "\<lambda>a. p_quota_used (the_pool s a)"])

lemma quota_change_trans: "quota_change s t \<Longrightarrow> quota_change t u \<Longrightarrow> quota_change s u"
  by (fastforce simp: quota_change_def)

lemma quota_change_upd: "quota_change s (upd_pool b (\<lambda>p. p\<lparr>p_quota_used := h p\<rparr>) s)"
  unfolding quota_change_def
  by (intro conjI exI [of _ "\<lambda>a. if a = b then h (the_pool s b) else p_quota_used (the_pool s a)"]) auto

lemma quota_change_next: "quota_change s t \<Longrightarrow> quota_change s (next_rotation t)"
  by (simp add: quota_change_def)

lemma quota_changeD:
  assumes "quota_change s t"
  shows "pools t = pools s" "pool_malgo t a = pool_malgo s a" "p_quota_gcd (the_pool t a) = p_quota_gcd (the_pool s a)"
    "pool_unworkable (the_pool t a) = pool_unworkable (the_pool s a)" "fits t m a = fits s m a"
  using assms by (auto simp: quota_change_def pool_unworkable_def fits_def pool_unusable_def)

text \<open>What one call of the loop needs in order not to end the program, and what it then returns.\<close>

definition loadbalance_pre :: "nat option \<Rightarrow> miner \<Rightarrow> bool" where
  "loadbalance_pre malgo s \<longleftrightarrow> rotating_pool s < total_pools s \<and>
     (\<forall>a\<in>set (pools s). malgo = Some (pool_malgo s a) \<longrightarrow> p_quota_gcd (the_pool s a) \<noteq> 0)"

definition loadbalance_pick :: "nat option \<Rightarrow> miner \<Rightarrow> nat option \<Rightarrow> bool" where
  "loadbalance_pick malgo s r \<longleftrightarrow>
     (\<forall>p. r = Some p \<longrightarrow> p \<in> set (pools s) \<and> (if malgo = None then \<not> pool_unworkable (the_pool s p) else malgo = Some (pool_malgo s p)))"

lemma loadbalance_pre_change: "quota_change s t \<Longrightarrow> rotating_pool t < total_pools s \<Longrightarrow> loadbalance_pre malgo s \<Longrightarrow> loadbalance_pre malgo t"
  unfolding loadbalance_pre_def using quota_changeD by metis

lemma loadbalance_pick_change: "quota_change s t \<Longrightarrow> loadbalance_pick malgo t r = loadbalance_pick malgo s r"
  unfolding loadbalance_pick_def by (simp add: quota_changeD)

lemma loadbalance_loop_ok:
  "loadbalance_pre malgo s \<Longrightarrow> loadbalance_pick malgo s low \<Longrightarrow>
   \<exists>t r. loadbalance_loop malgo n low lowest s = Some (t, r) \<and> quota_change s t \<and> loadbalance_pick malgo s r"
proof (induction n arbitrary: low lowest s)
  case 0
  then show ?case by (simp add: quota_change_refl)
next
  case (Suc n)
  define p where "p = pools s ! rotating_pool s"
  define ql where "ql = (p_quota_used (the_pool s p) < p_quota_gcd (the_pool s p))"
  define v where "v = (if ql then upd_pool p (\<lambda>p. p\<lparr>p_quota_used := p_quota_used p + 1\<rparr>) s else s)"
  define w where "w = (if ql \<and> opt_fail_only v then upd_pool (priority_pool v 0) (\<lambda>p. p\<lparr>p_quota_used := p_quota_used p - 1\<rparr>) v else v)"
  have r: "rotating_pool s < total_pools s" using Suc.prems(1) by (simp add: loadbalance_pre_def)
  then have p: "p \<in> set (pools s)" by (simp add: p_def)
  have v: "quota_change s v" by (simp add: v_def quota_change_upd quota_change_refl)
  have w: "quota_change s w" using quota_change_trans [OF v] by (simp add: w_def quota_change_upd v)
  have go: "\<exists>t r. loadbalance_loop malgo n low lowest (next_rotation x) = Some (t, r) \<and> quota_change s t \<and> loadbalance_pick malgo s r"
    if x: "quota_change s x" and low: "loadbalance_pick malgo s low" for x low lowest
  proof -
    have ch: "quota_change s (next_rotation x)" using x by (rule quota_change_next)
    have "pools x \<noteq> []" using r x by (auto simp: quota_change_def)
    then have "rotating_pool (next_rotation x) < total_pools s" using next_rotation_range [of x] x by (simp add: quota_change_def)
    then show ?thesis
      using Suc.IH [OF loadbalance_pre_change [OF ch _ Suc.prems(1)], of low lowest] low ch quota_change_trans
      by (auto simp: loadbalance_pick_change)
  qed
  have step: "loadbalance_loop malgo (Suc n) low lowest s =
      (if malgo \<noteq> None \<and> Some (pool_malgo s p) \<noteq> malgo then loadbalance_loop malgo n low lowest (next_rotation s)
       else if ql \<and> \<not> pool_unworkable (the_pool v p) then Some (v, Some p)
       else if malgo = None then loadbalance_loop malgo n low lowest (next_rotation w)
       else if p_quota_gcd (the_pool w p) = 0 then None
       else if p_quota_used (the_pool w p) sdiv p_quota_gcd (the_pool w p) < lowest
       then loadbalance_loop malgo n (Some p) (p_quota_used (the_pool w p) sdiv p_quota_gcd (the_pool w p)) (next_rotation w)
       else loadbalance_loop malgo n low lowest (next_rotation w))"
    unfolding loadbalance_loop.simps Let_def p_def [symmetric] ql_def [symmetric] v_def [symmetric] w_def [symmetric]
    using r by simp
  consider (skip) "malgo \<noteq> None \<and> Some (pool_malgo s p) \<noteq> malgo"
    | (found) "malgo = None \<or> malgo = Some (pool_malgo s p)" "ql \<and> \<not> pool_unworkable (the_pool v p)"
    | (none) "malgo = None" "\<not> (ql \<and> \<not> pool_unworkable (the_pool v p))"
    | (count) "malgo = Some (pool_malgo s p)" "\<not> (ql \<and> \<not> pool_unworkable (the_pool v p))"
    by (cases malgo) auto
  then show ?case
  proof cases
    case skip
    then have "loadbalance_loop malgo (Suc n) low lowest s = loadbalance_loop malgo n low lowest (next_rotation s)"
      unfolding step by auto
    then show ?thesis using go [OF quota_change_refl Suc.prems(2)] by simp
  next
    case found
    then have "loadbalance_loop malgo (Suc n) low lowest s = Some (v, Some p)"
      unfolding step by auto
    moreover have "loadbalance_pick malgo s (Some p)"
      using found p quota_changeD(4) [OF v] by (auto simp: loadbalance_pick_def)
    ultimately show ?thesis using v by simp
  next
    case none
    then have "loadbalance_loop malgo (Suc n) low lowest s = loadbalance_loop malgo n low lowest (next_rotation w)"
      unfolding step by auto
    then show ?thesis using go [OF w Suc.prems(2)] by simp
  next
    case count
    have nz: "p_quota_gcd (the_pool w p) \<noteq> 0"
      using Suc.prems(1) count(1) p quota_changeD(3) [OF w] by (simp add: loadbalance_pre_def)
    define c where "c = p_quota_used (the_pool w p) sdiv p_quota_gcd (the_pool w p)"
    have "loadbalance_loop malgo (Suc n) low lowest s =
        (if c < lowest then loadbalance_loop malgo n (Some p) c (next_rotation w) else loadbalance_loop malgo n low lowest (next_rotation w))"
      unfolding step using count nz by (auto simp: c_def)
    moreover have "loadbalance_pick malgo s (Some p)" using p count(1) by (simp add: loadbalance_pick_def)
    ultimately show ?thesis using go [OF w] Suc.prems(2) by simp
  qed
qed


text \<open>The index of the rotation is not reset when the last pool goes.\<close>

lemma remove_pool_rotation:
  assumes "pools_inv s" "rotating_pool s = total_pools s - 1" "currentpool s \<noteq> Some a" "p_enabled (the_pool s a) = POOL_DISABLED"
  shows "rotating_pool (remove_pool a s) = total_pools (remove_pool a s)"
proof -
  have "rotating_pool (lower_above a s) = rotating_pool s"
    unfolding lower_above_def by (rule fold_frameI) simp
  moreover have "pools (lower_above a s) = pools s" unfolding lower_above_def by (rule fold_frameI) simp
  ultimately show ?thesis using assms by (simp add: remove_pool_def disable_pool_def Let_def)
qed

section \<open>The retry loop\<close>

lemma switch_pools_enabled_workable [simp]:
  "pool_unworkable (the_pool (switch_pools_enabled None s) a) = pool_unworkable (the_pool s a)"
  by (auto simp: switch_pools_enabled_def Let_def pool_unworkable_def)

lemma switch_pools_enabled_options [simp]:
  "pool_strategy (switch_pools_enabled None s) = pool_strategy s"
  "p_idle (the_pool (switch_pools_enabled None s) a) = p_idle (the_pool s a)"
  by (auto simp: switch_pools_enabled_def Let_def)

definition silent :: "nat \<Rightarrow> miner \<Rightarrow> miner \<times> bool" where
  "silent pool s = (s, False)"

text \<open>The current pool fails for good: the best usable pool takes over.\<close>

lemma current_pool_died:
  assumes inv: "pools_inv s" and st: "pool_strategy s = POOL_FAILOVER" and cp: "\<not> p_idle (the_pool s (current_pool s))"
    and b: "b \<in> set (pools s)" "\<not> pool_unworkable (the_pool s b)" "b \<noteq> current_pool s"
  defines "t \<equiv> pool_died (current_pool s) s"
  shows "pools_inv t" "pools t = pools s" "pool_strategy t = POOL_FAILOVER" "\<not> p_idle (the_pool t (current_pool t))"
    "\<not> pool_unworkable (the_pool t b)"
    "p_idle (the_pool t a) \<longleftrightarrow> p_idle (the_pool s a) \<or> a = current_pool s"
proof -
  define u where "u = upd_pool (current_pool s) (\<lambda>p. p\<lparr>p_idle := True, p_tv_idle := now s\<rparr>) s"
  have t: "t = switch_pools_enabled None u"
    using cp by (simp add: t_def pool_died_def Let_def u_def switch_pools_def)
  have u: "pools_inv u" by (rule pools_inv_cong [OF inv]) (use inv in \<open>auto simp: u_def pools_inv_def intro!: prios_ok_same [of s]\<close>)
  have pu: "pools u = pools s" "pool_strategy u = POOL_FAILOVER" using st by (simp_all add: u_def)
  show "pools_inv t" unfolding t by (rule switch_pools_enabled_inv [OF u]) simp
  show "pools t = pools s" using u pu by (simp add: t)
  show "pool_strategy t = POOL_FAILOVER" using pu by (simp add: t)
  have wb: "\<not> pool_unworkable (the_pool u b)" using b by (simp add: u_def)
  then show "\<not> pool_unworkable (the_pool t b)" by (simp add: t)
  show "p_idle (the_pool t a) \<longleftrightarrow> p_idle (the_pool s a) \<or> a = current_pool s" by (simp add: t u_def)
  have "\<not> pool_unusable (the_pool u b)" using wb by (auto simp: pool_unworkable_def pool_unusable_def split: if_splits)
  then have "\<not> pool_unusable (the_pool u (choose_pool u None))"
    using choose_pool_best [OF u, of None] pu b(1) by (auto simp: by_priority_def)
  then show "\<not> p_idle (the_pool t (current_pool t))" by (simp add: t pool_unusable_iff)
qed

lemma select_pool_rounds:
  assumes "pools_inv s" "pool_strategy s = POOL_FAILOVER" "\<not> p_idle (the_pool s (current_pool s))"
    "b \<in> set (pools s)" "\<not> pool_unworkable (the_pool s b)"
    "card {a \<in> set (pools s). \<not> p_idle (the_pool s a)} \<le> n"
  shows "\<exists>t p. select_pool_from silent (Suc n) False None pool s = Some (t, Some p) \<and> p \<in> set (pools s) \<and>
    pools_inv t \<and> pools t = pools s \<and> currentpool t = Some p \<and> \<not> pool_unworkable (the_pool t p)"
  using assms
proof (induction n arbitrary: s pool)
  case 0
  then have "{a \<in> set (pools s). \<not> p_idle (the_pool s a)} = {}" by simp
  then show ?case using 0 current_in_pools [OF 0(1)] by blast
next
  case (Suc n)
  let ?c = "current_pool s"
  have cur: "currentpool s = Some ?c" "?c \<in> set (pools s)" using Suc.prems(1) by (auto simp: pools_inv_def)
  have cand: "select_candidate False None pool s = Some (s, Some ?c)"
    using Suc.prems(2) by (simp add: select_candidate_def Let_def)
  have use: "pool_actively_in_use s ?c (Some ?c) \<longleftrightarrow> \<not> pool_unworkable (the_pool s ?c)"
    using Suc.prems(2) by (auto simp: pool_actively_in_use_def pool_actively_desired_def pool_unworkable_def split: if_splits)
  show ?case
  proof (cases "pool_unworkable (the_pool s ?c)")
    case False
    then have "select_pool_from silent (Suc (Suc n)) False None pool s = Some (s, Some ?c)"
      unfolding select_pool_from.simps(2) [of _ "Suc n"] Let_def cand option.case prod.case use by simp
    then show ?thesis using False cur Suc.prems(1) by blast
  next
    case True
    define t where "t = pool_died ?c s"
    have "b \<noteq> ?c" using True Suc.prems(5) by auto
    note t = current_pool_died [OF Suc.prems(1,2,3,4,5) this, folded t_def]
    have "{a \<in> set (pools t). \<not> p_idle (the_pool t a)} \<subset> {a \<in> set (pools s). \<not> p_idle (the_pool s a)}"
      using t(2,6) cur(2) Suc.prems(3) by auto
    then have "card {a \<in> set (pools t). \<not> p_idle (the_pool t a)} < card {a \<in> set (pools s). \<not> p_idle (the_pool s a)}"
      by (intro psubset_card_mono) auto
    then have "card {a \<in> set (pools t). \<not> p_idle (the_pool t a)} \<le> n" using Suc.prems(6) by simp
    with t(1-5) Suc.prems(4) obtain u p where
      u: "select_pool_from silent (Suc n) False None (Some ?c) t = Some (u, Some p)" "p \<in> set (pools t)"
      "pools_inv u" "pools u = pools t" "currentpool u = Some p" "\<not> pool_unworkable (the_pool u p)"
      using Suc.IH [of t "Some ?c"] by auto
    have "select_pool_from silent (Suc (Suc n)) False None pool s = select_pool_from silent (Suc n) False None (Some ?c) t"
      unfolding select_pool_from.simps(2) [of _ "Suc n"] Let_def cand option.case prod.case use silent_def t_def
      using True by simp
    then show ?thesis using u t(2) by auto
  qed
qed


text \<open>For work of another algorithm than the current pool's the loop may never end: once the variable \<^verbatim>\<open>pool\<close>
  holds a dead pool, \<^verbatim>\<open>retry\<close> does not reset it, the search for another pool is not made again, and as
  long as that pool stays silent no number of rounds is enough, even if other pools of the algorithm
  are alive.\<close>

lemma select_pool_stays_with_dead:
  assumes "pool_strategy s = POOL_FAILOVER" "pool_malgo s (current_pool s) \<noteq> m" "p_idle (the_pool s p)"
  shows "select_pool_from silent fuel False (Some m) (Some p) s = None"
proof (induction fuel)
  case (Suc fuel)
  have "select_candidate False (Some m) (Some p) s = Some (s, Some p)"
    using assms(1,2) by (simp add: select_candidate_def Let_def)
  moreover have "\<not> pool_actively_in_use s p c" for c
    using assms(3) by (simp add: pool_actively_in_use_def pool_unworkable_def)
  moreover have "pool_died p s = s" using assms(3) by (simp add: pool_died_def)
  ultimately show ?case using Suc by (simp add: Let_def silent_def)
qed simp

end
