(* ===== verification/ApiPools.thy ===== *)
theory ApiPools
  imports PoolSelect
begin

text \<open>
  The commands that change the pools: the pool commands of \<^verbatim>\<open>api.c\<close> with their checks and replies, the
  options of \<^verbatim>\<open>miner.c\<close> that describe a pool, the watch over the pools, and the states that all of them
  together can reach. A parameter is \<open>None\<close> where the pointer is null. Sockets, threads and log lines
  are left out; what a pool answers over the network is a parameter.
\<close>

section \<open>Strings of the API\<close>

fun escape_string :: "bool \<Rightarrow> string \<Rightarrow> string" where
  "escape_string isjson [] = []"
| "escape_string isjson (c # cs) =
     (if c = CHR '','' \<or> c = CHR ''|'' \<or> c = CHR ''='' then (if \<not> isjson then [CHR 0x5C] else []) @ c # escape_string isjson cs
      else if c = CHR 0x22 then (if isjson then [CHR 0x5C] else []) @ c # escape_string isjson cs
      else if c = CHR 0x5C then CHR 0x5C # c # escape_string isjson cs
      else c # escape_string isjson cs)"

text \<open>The characters copied, without the terminating NUL, and the rest of the parameter.\<close>

fun copyadvanceafter :: "char \<Rightarrow> string \<Rightarrow> string \<times> string" where
  "copyadvanceafter ch [] = ([], [])"
| "copyadvanceafter ch (c # cs) =
     (if c = ch then ([], cs)
      else if c = CHR 0x5C \<and> cs \<noteq> []
      then (let (dst, rest) = copyadvanceafter ch (tl cs) in (hd cs # dst, rest))
      else (let (dst, rest) = copyadvanceafter ch cs in (c # dst, rest)))"

text \<open>
  The url, the user, the password and, where the parameter has one, the name of the goal; \<open>None\<close>
  where the code returns false. The second component counts the bytes written to the buffer, the
  NULs included.
\<close>

definition pooldetails :: "string \<Rightarrow> (string \<times> string \<times> string \<times> string option) option \<times> nat" where
  "pooldetails param =
     (let (url, param) = copyadvanceafter CHR '','' param; n = length url + 1
      in if param = [] then (None, n)
         else let (user, param) = copyadvanceafter CHR '','' param; n = n + (length user + 1)
         in if param = [] then (None, n)
            else let (pass, param) = copyadvanceafter CHR '','' param; n = n + (length pass + 1);
                     (goalname, rest) = copyadvanceafter CHR '','' param
                 in (Some (url, user, pass, if param \<noteq> [] then Some goalname else None), n + (length goalname + 1)))"

section \<open>The address of a pool\<close>

definition pool_set_uri :: "nat \<Rightarrow> string \<Rightarrow> miner \<Rightarrow> miner" where
  "pool_set_uri pool uri s =
     upd_pool pool (\<lambda>p. p\<lparr>p_rpc_url := uri,
       p_diff_effective_retroactively := uri_get_param_bool2 uri ''retrodiff''\<rparr>) s"

definition detect_stratum :: "nat \<Rightarrow> string \<Rightarrow> miner \<Rightarrow> miner \<times> bool" where
  "detect_stratum pool url s =
     (case extract_sockaddr url of
        None \<Rightarrow> (s, False)
      | Some (addr, port) \<Rightarrow>
          let s = upd_pool pool (\<lambda>p. p\<lparr>p_sockaddr_url := addr, p_stratum_port := port\<rparr>) s
          in if List.map tolower (take 14 url) = ''stratum+tcp://''
             then (upd_pool pool (\<lambda>p. p\<lparr>p_has_stratum := True, p_stratum_url := addr\<rparr>) (pool_set_uri pool url s), True)
             else (s, False))"

definition setup_url :: "nat \<Rightarrow> string \<Rightarrow> miner \<Rightarrow> miner" where
  "setup_url pool arg s =
     (let (s, found) = detect_stratum pool arg s
      in if found then s
         else let s = upd_pool pool (\<lambda>p. p\<lparr>p_rpc_url := arg\<rparr>) s
              in if take 7 arg \<noteq> ''http://'' \<and> take 8 arg \<noteq> ''https://''
                 then pool_set_uri pool (''http://'' @ arg) s else s)"

definition add_pool_details :: "nat \<Rightarrow> string \<Rightarrow> string \<Rightarrow> string \<Rightarrow> miner \<Rightarrow> miner" where
  "add_pool_details pool url user pass s =
     (let s = pool_set_uri pool url s;
          s = upd_pool pool (\<lambda>p. p\<lparr>p_rpc_user := user, p_rpc_pass := pass, p_testing := True, p_idle := True\<rparr>) s
      in enable_pool pool s)"

section \<open>The commands\<close>

definition switchpool :: "string option \<Rightarrow> miner \<Rightarrow> miner \<times> api_message" where
  "switchpool param s =
     (if total_pools s = 0 then (s, MSG_NOPOOL)
      else case param of None \<Rightarrow> (s, MSG_MISPID) | Some str \<Rightarrow>
        if str = [] then (s, MSG_MISPID)
        else let i = atoi str
             in if i < 0 \<or> i \<ge> int (total_pools s) then (s, MSG_INVPID i)
                else let pool = pools s ! nat i;
                         s = manual_enable_pool pool s
                     in (switch_pools (Some pool) s, MSG_SWITCHP i))"

text \<open>\<open>get_goal\<close> finds or makes the goal of a name.\<close>

definition addpool :: "(string \<Rightarrow> nat) \<Rightarrow> bool \<Rightarrow> string option \<Rightarrow> miner \<Rightarrow> miner \<times> api_message" where
  "addpool get_goal isjson param s =
     (case param of None \<Rightarrow> (s, MSG_MISPDP) | Some str \<Rightarrow>
        if str = [] then (s, MSG_MISPDP)
        else case fst (pooldetails str) of
          None \<Rightarrow> (s, MSG_INVPDP (escape_string isjson str))
        | Some (url, user, pass, goalname) \<Rightarrow>
            let (s, pool) = add_pool2 (get_goal (case goalname of None \<Rightarrow> ''default'' | Some g \<Rightarrow> g)) s;
                s = fst (detect_stratum pool url s);
                s = add_pool_details pool url user pass s
            in (s, MSG_ADDPOOL (escape_string isjson url)))"

definition enablepool :: "string option \<Rightarrow> miner \<Rightarrow> miner \<times> api_message" where
  "enablepool param s =
     (if total_pools s = 0 then (s, MSG_NOPOOL)
      else case param of None \<Rightarrow> (s, MSG_MISPID) | Some str \<Rightarrow>
        if str = [] then (s, MSG_MISPID)
        else let i = atoi str
             in if i < 0 \<or> i \<ge> int (total_pools s) then (s, MSG_INVPID i)
                else let pool = pools s ! nat i
                     in if p_enabled (the_pool s pool) = POOL_ENABLED \<and> \<not> p_failover_only (the_pool s pool)
                        then (s, MSG_ALRENAP i)
                        else (manual_enable_pool pool s, MSG_ENAPOOL i))"

definition poolpriority :: "string option \<Rightarrow> miner \<Rightarrow> miner \<times> api_message" where
  "poolpriority param s = prioritize_pools param s"

definition poolquota :: "string option \<Rightarrow> miner \<Rightarrow> miner \<times> api_message" where
  "poolquota param s =
     (if total_pools s = 0 then (s, MSG_NOPOOL)
      else case param of None \<Rightarrow> (s, MSG_MISPID) | Some str \<Rightarrow>
        if str = [] then (s, MSG_MISPID)
        else case dropWhile (\<lambda>c. c \<noteq> CHR '','') str of
          [] \<Rightarrow> (s, MSG_CONVAL str)
        | _ # comma \<Rightarrow>
            let i = atoi (takeWhile (\<lambda>c. c \<noteq> CHR '','') str)
            in if i < 0 \<or> i \<ge> int (total_pools s) then (s, MSG_INVPID i)
               else let pool = pools s ! nat i; quota = atoi comma
                    in if quota < 0 then (s, MSG_INVNEG quota (p_rpc_url (the_pool s pool)))
                       else (adjust_quota_gcd (upd_pool pool (\<lambda>p. p\<lparr>p_quota := quota\<rparr>) s),
                             MSG_SETQUOTA quota (p_rpc_url (the_pool s pool))))"

definition disablepool :: "string option \<Rightarrow> miner \<Rightarrow> miner \<times> api_message" where
  "disablepool param s =
     (if total_pools s = 0 then (s, MSG_NOPOOL)
      else case param of None \<Rightarrow> (s, MSG_MISPID) | Some str \<Rightarrow>
        if str = [] then (s, MSG_MISPID)
        else let i = atoi str
             in if i < 0 \<or> i \<ge> int (total_pools s) then (s, MSG_INVPID i)
                else let pool = pools s ! nat i
                     in if p_enabled (the_pool s pool) = POOL_DISABLED then (s, MSG_ALRDISP i)
                        else if enabled_pools s \<le> 1 then (s, MSG_DISLASTP i)
                        else (disable_pool pool POOL_DISABLED s, MSG_DISPOOL i))"

definition removepool :: "bool \<Rightarrow> string option \<Rightarrow> miner \<Rightarrow> miner \<times> api_message" where
  "removepool isjson param s =
     (if total_pools s = 0 then (s, MSG_NOPOOL)
      else case param of None \<Rightarrow> (s, MSG_MISPID) | Some str \<Rightarrow>
        if str = [] then (s, MSG_MISPID)
        else let i = atoi str
             in if i < 0 \<or> i \<ge> int (total_pools s) then (s, MSG_INVPID i)
                else if total_pools s \<le> 1 then (s, MSG_REMLASTP i)
                else let pool = pools s ! nat i;
                         s = (if pool = current_pool s then switch_pools None s else s)
                     in if pool = current_pool s then (s, MSG_ACTPOOL i)
                        else (remove_pool pool s, MSG_REMPOOL i (escape_string isjson (p_rpc_url (the_pool s pool)))))"

definition failoveronly :: "string option \<Rightarrow> miner \<Rightarrow> miner \<times> api_message" where
  "failoveronly param s =
     (case param of None \<Rightarrow> (s, MSG_MISBOOL) | Some str \<Rightarrow>
        if str = [] then (s, MSG_MISBOOL)
        else let c = tolower (hd str)
             in if c \<noteq> CHR ''t'' \<and> c \<noteq> CHR ''f'' then (s, MSG_INVBOOL)
                else (s\<lparr>opt_fail_only := (c = CHR ''t'')\<rparr>, MSG_FOO (c = CHR ''t'')))"

section \<open>The watch over the pools\<close>

text \<open>
  One pool in one round of \<^verbatim>\<open>watchpool_thread\<close>: \<open>active\<close> is the answer of \<^verbatim>\<open>pool_active\<close>, \<open>delay\<close> the option
  \<^verbatim>\<open>opt_fail_switch_delay\<close>.
\<close>

definition watch_pool :: "bool \<Rightarrow> int \<Rightarrow> nat \<Rightarrow> miner \<Rightarrow> miner" where
  "watch_pool active delay pool s =
     (if p_enabled (the_pool s pool) = POOL_DISABLED then s
      else let s = (if p_idle (the_pool s pool) \<and> tv_sec (now s) - tv_sec (p_tv_idle (the_pool s pool)) > 30 \<and> active
                    then upd_pool pool (\<lambda>p. p\<lparr>p_idle := False\<rparr>) s else s);
               p = the_pool s pool
           in if \<not> p_idle p \<and> p_enabled p = POOL_ENABLED \<and> pool_strategy s = POOL_FAILOVER \<and> p_prio p < cp_prio s
                 \<and> tv_sec (now s) - tv_sec (p_tv_idle p) > delay
              then switch_pools None s else s)"

text \<open>A whole round; \<open>due\<close> says that the strategy is to rotate and its period is over.\<close>

definition watch_round :: "(nat \<Rightarrow> bool) \<Rightarrow> int \<Rightarrow> bool \<Rightarrow> miner \<Rightarrow> miner" where
  "watch_round active delay due s =
     (let s = fold (\<lambda>i s. if i < total_pools s then watch_pool (active (pools s ! i)) delay (pools s ! i) s else s) [0..<total_pools s] s;
          s = (if p_idle (the_pool s (current_pool s)) then switch_pools None s else s)
      in if pool_strategy s = POOL_ROTATE \<and> due then switch_pools None s else s)"

section \<open>Escaping and splitting\<close>

lemma copyadvanceafter_escaped:
  assumes "ch = CHR '','' \<or> ch = CHR ''|'' \<or> ch = CHR ''=''"
  shows "copyadvanceafter ch (escape_string False s @ rest) =
    (let (dst, r) = copyadvanceafter ch rest in (s @ dst, r))"
  using assms by (induction s) (auto split: prod.splits)

lemma copyadvanceafter_stop [simp]: "copyadvanceafter ch (ch # rest) = ([], rest)"
  by simp

lemma escape_string_nil [simp]: "escape_string b s = [] \<longleftrightarrow> s = []"
  by (cases s) auto

lemma length_escape: "length s \<le> length (escape_string b s)"
  by (induction s) auto

text \<open>C39: A pool added through the API with url, user, password and goal escaped by \<^verbatim>\<open>escape_string\<close> and joined by
  commas is split again into exactly these four, whatever characters they hold, within the buffer
  allocated for them.\<close>

lemma pooldetails_escaped:
  fixes url user pass goal :: string
  assumes "goal \<noteq> []"
  defines "param \<equiv> escape_string False url @ CHR '','' # escape_string False user @ CHR '','' # escape_string False pass
     @ CHR '','' # escape_string False goal"
  shows "fst (pooldetails param) = Some (url, user, pass, Some goal) \<and> snd (pooldetails param) \<le> length param + 1"
proof -
  have last: "copyadvanceafter CHR '','' (escape_string False goal) = (goal, [])"
    using copyadvanceafter_escaped [of "CHR '',''" goal "[]"] by simp
  have p: "pooldetails param = (Some (url, user, pass, Some goal), length url + 1 + (length user + 1) + (length pass + 1) + (length goal + 1))"
    using assms(1) by (simp add: pooldetails_def param_def copyadvanceafter_escaped last Let_def)
  show ?thesis
    using length_escape [of url False] length_escape [of user False] length_escape [of pass False] length_escape [of goal False]
    by (simp add: p) (simp add: param_def)
qed

lemma copyadvanceafter_plain:
  "ch \<notin> set s \<Longrightarrow> CHR 0x5C \<notin> set s \<Longrightarrow> copyadvanceafter ch (s @ rest) = (let (dst, r) = copyadvanceafter ch rest in (s @ dst, r))"
  by (induction s) (auto split: prod.splits)

text \<open>Without a goal name, the case the documentation describes, \<^verbatim>\<open>pooldetails\<close> writes one byte more than the buffer
  it allocated has: the last call of \<^verbatim>\<open>copyadvanceafter\<close> still stores a NUL.\<close>

lemma pooldetails_overflow:
  fixes url user pass :: string
  assumes plain: "\<forall>c\<in>set (url @ user @ pass). c \<noteq> CHR '','' \<and> c \<noteq> CHR 0x5C" and "pass \<noteq> []"
  defines "param \<equiv> url @ CHR '','' # user @ CHR '','' # pass"
  shows "pooldetails param = (Some (url, user, pass, None), (length param + 1) + 1)"
proof -
  have "copyadvanceafter CHR '','' pass = (pass, [])"
    using copyadvanceafter_plain [of "CHR '',''" pass "[]"] plain by auto
  moreover have "copyadvanceafter CHR '','' (s @ CHR '','' # rest) = (s, rest)" if "set s \<subseteq> set (url @ user @ pass)" for s rest
    using copyadvanceafter_plain [of "CHR '',''" s "CHR '','' # rest"] plain that by auto
  moreover have "set url \<subseteq> set (url @ user @ pass)" "set user \<subseteq> set (url @ user @ pass)" by auto
  ultimately show ?thesis
    using assms(2) by (simp add: pooldetails_def param_def Let_def)
qed

section \<open>The reachable states\<close>

definition zero_global_stats :: global_stats where
  "zero_global_stats = \<lparr>total_accepted = 0, total_rejected = 0, total_stale = 0, hw_errors = 0, total_bad_diff1 = 0,
     total_diff1 = 0, total_diff_accepted = 0, total_diff_rejected = 0, total_diff_stale = 0, best_diff = 0, total_ro = 0,
     total_secs = 1\<rparr>"

definition zero_cgpu :: cgpu_info where
  "zero_cgpu = \<lparr>c_accepted = 0, c_rejected = 0, c_stale = 0, c_hw_errors = 0, c_bad_diff1 = 0, c_diff1 = 0,
     c_diff_accepted = 0, c_diff_rejected = 0, c_diff_stale = 0, c_last_share_pool = 0, c_last_share_pool_time = 0,
     c_last_share_diff = 0, c_last_device_valid_work = 0\<rparr>"

text \<open>
  The globals before any pool is defined: \<open>goals\<close> and \<open>algos\<close> are the goals and algorithms of the
  configuration, \<open>strategy\<close> and \<open>fail_only\<close> the options.
\<close>

definition initial_miner ::
  "(nat \<Rightarrow> mining_goal_info) \<Rightarrow> (nat \<Rightarrow> mining_algorithm) \<Rightarrow> pool_strategy \<Rightarrow> bool \<Rightarrow> miner"
where
  "initial_miner goals algos strategy fail_only =
     \<lparr>pstore = (\<lambda>_. zero_pool), gstore = goals, astore = algos, pools = [], currentpool = None, fresh_pool = 1,
      enabled_pools = 0, global_quota_gcd = 1, rotating_pool = 0, pool_strategy = strategy, opt_fail_only = fail_only,
      opt_benchmark = False, opt_scantime = 60, opt_expiry = 120, opt_expiry_lp = 3600, opt_queue = 1,
      mining_threads = 0, staged_work = [], staged_rollable = 0, staged_spare = 0, staged_full = False,
      getq_frozen = False, no_work = False, total_work = 0, local_work = 0, total_discarded = 0, new_blocks = 0,
      found_blocks = 0, thr_work_restart = [], tmpl_refs = (\<lambda>_. 0), tmpl_state = (\<lambda>_. 0), now = tv 0 0,
      gstats = zero_global_stats, cgpus = (\<lambda>_. zero_cgpu), submit_waiting = [], total_submitting = 0, stratum_shares = [],
      swork_id = 0, opt_submit_stale = True, opt_retries = -1, opt_disable_pool = False, opt_shares = 0,
      shutting_down = False, dupe_hashes = [], total_getworks = 0, opt_skip_checks = 0,
      opt_disable_client_reconnect = False\<rparr>"

text \<open>One event: a command of the user, or something a thread notices about a pool of the array.\<close>

inductive pool_event :: "miner \<Rightarrow> miner \<Rightarrow> bool" where
  ev_configure: "pool_event s (setup_url pool url (fst (add_pool2 goal s)))" if "pool = snd (add_pool2 goal s)"
| ev_switchpool: "pool_event s (fst (switchpool param s))"
| ev_addpool: "pool_event s (fst (addpool get_goal isjson param s))"
| ev_enablepool: "pool_event s (fst (enablepool param s))"
| ev_poolpriority: "pool_event s (fst (poolpriority param s))"
| ev_poolquota: "pool_event s (fst (poolquota param s))"
| ev_disablepool: "pool_event s (fst (disablepool param s))"
| ev_removepool: "pool_event s (fst (removepool isjson param s))"
| ev_failoveronly: "pool_event s (fst (failoveronly param s))"
| ev_watch: "pool_event s (watch_round active delay due s)" if "pools s \<noteq> []"
| ev_died: "pool_event s (pool_died pool s)" if "pool \<in> set (pools s)"
| ev_alive: "pool_event s (upd_pool pool (\<lambda>p. p\<lparr>p_idle := False\<rparr>) s)" if "pool \<in> set (pools s)"
| ev_rejecting: "pool_event s (disable_pool pool POOL_REJECTING s)" if "pool \<in> set (pools s)"
| ev_misbehaving: "pool_event s (disable_pool pool POOL_MISBEHAVING s)" if "pool \<in> set (pools s)"
| ev_accepting: "pool_event s (enable_pool pool s)" if "pool \<in> set (pools s)"

inductive pool_reachable :: "miner \<Rightarrow> bool" where
  reach_start: "pool_reachable (initial_miner goals algos strategy fail_only)"
| reach_step: "pool_reachable s \<Longrightarrow> pool_event s t \<Longrightarrow> pool_reachable t"

text \<open>What holds in all of them.\<close>

definition reach_inv :: "miner \<Rightarrow> bool" where
  "reach_inv s \<longleftrightarrow>
     (pools_inv s \<or> pools s = [] \<and> currentpool s = None \<and> enabled_pools s = 0) \<and>
     (\<forall>a\<in>set (pools s). a < fresh_pool s) \<and> \<not> opt_benchmark s"


definition cfg :: "miner \<Rightarrow> nat \<times> bool" where
  "cfg s = (fresh_pool s, opt_benchmark s)"

lemma cfg_upd_pool [simp]: "cfg (upd_pool a f s) = cfg s"
  by (simp add: cfg_def)

lemma cfg_fields [simp]:
  "cfg (s\<lparr>currentpool := c\<rparr>) = cfg s" "cfg (s\<lparr>enabled_pools := e\<rparr>) = cfg s" "cfg (s\<lparr>pools := ps\<rparr>) = cfg s"
  "cfg (s\<lparr>global_quota_gcd := g\<rparr>) = cfg s" "cfg (s\<lparr>opt_fail_only := b\<rparr>) = cfg s"
  by (simp_all add: cfg_def)

lemma cfg_fresh_pool [simp]: "cfg (s\<lparr>fresh_pool := n\<rparr>) = (n, opt_benchmark s)"
  by (simp add: cfg_def)

lemma cfg_fold_upd [simp]: "cfg (fold (\<lambda>a s. upd_pool (h a s) (k a s) s) as s) = cfg s"
  by (rule fold_frameI) simp

lemma cfg_fold_if [simp]: "cfg (fold (\<lambda>a s. if c a s then upd_pool (h a s) (k a s) s else s) as s) = cfg s"
  by (rule fold_frameI) simp

lemma cfg_clear_pool_work [simp]: "cfg (clear_pool_work pool s) = cfg s"
  by (rule clear_pool_work_frameI) (simp add: cfg_def free_work_def clean_work_def tmpl_decref_def unstage_work_def Let_def upd_algo_def split: option.split)

lemma cfg_make_first [simp]: "cfg (make_first a s) = cfg s"
  by (simp add: make_first_def raise_below_def)

lemma cfg_switch_pools_enabled [simp]: "cfg (switch_pools_enabled sel s) = cfg s"
  by (simp add: switch_pools_enabled_def Let_def split: option.split)

lemma cfg_enable_pool [simp]: "cfg (enable_pool a s) = cfg s"
  by (simp add: enable_pool_def Let_def)

lemma cfg_switch_pools [simp]: "cfg (switch_pools sel s) = cfg s"
  by (simp add: switch_pools_def split: option.split)

lemma cfg_disable_pool [simp]: "cfg (disable_pool a e s) = cfg s"
  by (simp add: disable_pool_def Let_def)

lemma cfg_pool_died [simp]: "cfg (pool_died a s) = cfg s"
  by (simp add: pool_died_def Let_def)

lemma cfg_manual_enable_pool [simp]: "cfg (manual_enable_pool a s) = cfg s"
  by (simp add: manual_enable_pool_def)

lemma cfg_adjust_quota_gcd [simp]: "cfg (adjust_quota_gcd s) = cfg s"
  by (simp add: adjust_quota_gcd_def Let_def)

lemma cfg_remove_pool [simp]: "cfg (remove_pool a s) = cfg s"
  by (simp add: remove_pool_def lower_above_def Let_def)

lemma cfg_watch_pool [simp]: "cfg (watch_pool active delay a s) = cfg s"
  by (simp add: watch_pool_def Let_def)

lemma cfg_prio_change: "prio_change s t \<Longrightarrow> cfg t = cfg s"
  by (auto simp: prio_change_def cfg_def)

text \<open>An operation on existing pools keeps the invariant when it keeps that of the array.\<close>

lemma reach_invI:
  assumes "reach_inv s" "pools_inv s \<Longrightarrow> pools_inv t" "set (pools t) \<subseteq> set (pools s)" "cfg t = cfg s" "pools s \<noteq> []"
  shows "reach_inv t"
  using assms by (auto simp: reach_inv_def cfg_def)

lemma reach_pools: "reach_inv s \<Longrightarrow> pools s \<noteq> [] \<Longrightarrow> pools_inv s"
  by (auto simp: reach_inv_def)

lemma pools_inv_local:
  assumes "pools_inv s" "\<And>p. p_pool_no (f p) = p_pool_no p \<and> p_enabled (f p) = p_enabled p \<and> p_prio (f p) = p_prio p"
  shows "pools_inv (upd_pool a f s)"
  by (rule pools_inv_cong [OF assms(1)]) (use assms in \<open>auto simp: pools_inv_def intro!: prios_ok_same [of s]\<close>)

lemma pools_inv_adjust: "pools_inv s \<Longrightarrow> pools_inv (adjust_quota_gcd s)"
  by (rule pools_inv_cong) (auto simp: pools_inv_def intro!: prios_ok_same [of s])

lemma nth_atoi: "\<not> (i < 0 \<or> i \<ge> int (length xs)) \<Longrightarrow> xs ! nat i \<in> set xs"
  by (auto intro: nth_mem)

lemma manual_enable_inv: "pools_inv s \<Longrightarrow> a \<in> set (pools s) \<Longrightarrow> pools_inv (manual_enable_pool a s) \<and> pools (manual_enable_pool a s) = pools s"
  using pools_inv_local [of s "\<lambda>p. p\<lparr>p_failover_only := False, p_quota := (if p_quota p = 0 then 1 else p_quota p)\<rparr>" a]
  by (simp add: manual_enable_pool_def enable_pool_inv)

lemma switchpool_inv:
  assumes "pools_inv s" shows "pools_inv (fst (switchpool param s)) \<and> pools (fst (switchpool param s)) = pools s \<and> cfg (fst (switchpool param s)) = cfg s"
proof -
  have "pools_inv (switch_pools (Some p) (manual_enable_pool p s)) \<and> pools (switch_pools (Some p) (manual_enable_pool p s)) = pools s"
    if "p \<in> set (pools s)" for p
    using manual_enable_inv [OF assms that] that by (simp add: switch_pools_inv)
  then show ?thesis using assms nth_atoi [of _ "pools s"] by (auto simp: switchpool_def Let_def split: option.split)
qed

lemma enablepool_inv:
  assumes "pools_inv s" shows "pools_inv (fst (enablepool param s)) \<and> pools (fst (enablepool param s)) = pools s \<and> cfg (fst (enablepool param s)) = cfg s"
  using assms manual_enable_inv [OF assms] nth_atoi [of _ "pools s"] by (auto simp: enablepool_def Let_def split: option.split)

lemma disablepool_inv:
  assumes "pools_inv s" shows "pools_inv (fst (disablepool param s)) \<and> pools (fst (disablepool param s)) = pools s \<and> cfg (fst (disablepool param s)) = cfg s"
  using assms disable_pool_inv [OF assms, of _ POOL_DISABLED] nth_atoi [of _ "pools s"] by (auto simp: disablepool_def Let_def split: option.split)

lemma poolquota_inv:
  assumes "pools_inv s" shows "pools_inv (fst (poolquota param s)) \<and> pools (fst (poolquota param s)) = pools s \<and> cfg (fst (poolquota param s)) = cfg s"
proof -
  have "pools_inv (adjust_quota_gcd (upd_pool p (\<lambda>p. p\<lparr>p_quota := q\<rparr>) s))" for p q
    by (intro pools_inv_adjust pools_inv_local [OF assms]) simp
  then show ?thesis using assms by (simp add: poolquota_def Let_def split: option.split list.split)
qed

lemma disable_other_current: "a \<noteq> current_pool s \<Longrightarrow> currentpool (disable_pool a e s) = currentpool s"
  by (simp add: disable_pool_def Let_def)

lemma removepool_inv:
  assumes "pools_inv s"
  shows "pools_inv (fst (removepool isjson param s)) \<and> set (pools (fst (removepool isjson param s))) \<subseteq> set (pools s) \<and> cfg (fst (removepool isjson param s)) = cfg s"
proof -
  have *: "pools_inv (remove_pool a u) \<and> set (pools (remove_pool a u)) = set (pools u) - {a}"
    if "pools_inv u" "a \<in> set (pools u)" "a \<noteq> current_pool u" for a u
    using remove_pool_inv [OF that(1,2)] disable_other_current [OF that(3)] that(3) by simp
  have "pools_inv (switch_pools None s) \<and> pools (switch_pools None s) = pools s" using assms by (simp add: switch_pools_inv)
  then show ?thesis
    using assms current_in_pools [OF assms] nth_atoi [of _ "pools s"] * [of s] * [of "switch_pools None s"]
    by (auto simp: removepool_def Let_def split: option.split)
qed

lemma poolpriority_inv:
  assumes "pools_inv s" shows "pools_inv (fst (poolpriority param s)) \<and> pools (fst (poolpriority param s)) = pools s \<and> cfg (fst (poolpriority param s)) = cfg s"
proof -
  obtain t msg where t: "prioritize_pools param s = (t, msg)" by fastforce
  have "pools_inv t \<and> pools t = pools s"
    using prioritize_pools_order [OF assms t] assms by (auto split: if_splits)
  moreover have "cfg (append_unchanged named u) = cfg u" for named u
  proof -
    have "cfg (fst (fold (\<lambda>pr (s, changed, prio).
        case List.find (\<lambda>i. i \<notin> set changed \<and> p_prio (the_pool s (pools s ! i)) = int pr) [0..<total_pools s] of
          None \<Rightarrow> (s, changed, prio)
        | Some i \<Rightarrow> (upd_pool (pools s ! i) (\<lambda>p. p\<lparr>p_prio := int prio\<rparr>) s, i # changed, prio + 1)) prs x)) = cfg (fst x)" for prs x
      by (induction prs arbitrary: x) (auto split: option.split)
    then show ?thesis by (simp add: append_unchanged_def)
  qed
  then have "cfg t = cfg s"
    using t by (auto simp: prioritize_pools_def Let_def split: option.splits if_splits sum.splits)
  ultimately show ?thesis by (simp add: poolpriority_def t)
qed

lemma add_pool2_reach:
  assumes "reach_inv s"
  shows "reach_inv (fst (add_pool2 goal s)) \<and> pools (fst (add_pool2 goal s)) = pools s @ [snd (add_pool2 goal s)]"
proof -
  obtain t pool where t: "add_pool2 goal s = (t, pool)" by fastforce
  have "fresh_pool s \<notin> set (pools s)" "\<not> opt_benchmark s" using assms by (auto simp: reach_inv_def)
  then have "pools_inv t" "pools t = pools s @ [pool]"
    using add_pool2_inv [OF _ _ _ t] assms by (auto simp: reach_inv_def)
  moreover have "cfg t = (pool + 1, False)" "pool = fresh_pool s"
    using t \<open>\<not> opt_benchmark s\<close> by (auto simp: add_pool2_def Let_def split: if_splits)
  ultimately show ?thesis using assms by (auto simp: t reach_inv_def cfg_def)
qed

text \<open>What describes a pool but not its place in the array.\<close>

lemma pools_inv_uri:
  assumes "pools_inv s"
  shows "pools_inv (pool_set_uri a uri s)" "pools_inv (fst (detect_stratum a uri s))" "pools_inv (setup_url a uri s)"
  by (simp_all add: pool_set_uri_def detect_stratum_def setup_url_def Let_def pools_inv_local assms split: option.split)

lemma uri_frame [simp]:
  "pools (pool_set_uri a uri s) = pools s" "cfg (pool_set_uri a uri s) = cfg s"
  "pools (fst (detect_stratum a uri s)) = pools s" "cfg (fst (detect_stratum a uri s)) = cfg s"
  "pools (setup_url a uri s) = pools s" "cfg (setup_url a uri s) = cfg s"
  by (simp_all add: pool_set_uri_def detect_stratum_def setup_url_def Let_def split: option.split prod.split)

lemma add_pool_details_inv:
  assumes "pools_inv s" "a \<in> set (pools s)"
  shows "pools_inv (add_pool_details a url user pass s)" "pools (add_pool_details a url user pass s) = pools s"
    "cfg (add_pool_details a url user pass s) = cfg s"
proof -
  have "pools_inv (upd_pool a (\<lambda>p. p\<lparr>p_rpc_user := user, p_rpc_pass := pass, p_testing := True, p_idle := True\<rparr>) (pool_set_uri a url s))"
    by (rule pools_inv_local [OF pools_inv_uri(1) [OF assms(1)]]) simp
  then show "pools_inv (add_pool_details a url user pass s)" "pools (add_pool_details a url user pass s) = pools s"
    using assms(2) by (simp_all add: add_pool_details_def Let_def enable_pool_inv)
  show "cfg (add_pool_details a url user pass s) = cfg s" by (simp add: add_pool_details_def Let_def)
qed

lemma addpool_reach:
  assumes "reach_inv s" shows "reach_inv (fst (addpool get_goal isjson param s))"
proof -
  have step: "reach_inv (add_pool_details (snd (add_pool2 g s)) url user pass (fst (detect_stratum (snd (add_pool2 g s)) url (fst (add_pool2 g s)))))"
    for g url user pass
  proof -
    let ?u = "fst (add_pool2 g s)" and ?a = "snd (add_pool2 g s)"
    have u: "reach_inv ?u" "pools ?u = pools s @ [?a]" using add_pool2_reach [OF assms] by auto
    then have "pools_inv ?u" by (intro reach_pools) auto
    then have v: "pools_inv (fst (detect_stratum ?a url ?u))" by (rule pools_inv_uri)
    then have "pools_inv (add_pool_details ?a url user pass (fst (detect_stratum ?a url ?u)))"
      using u(2) by (intro add_pool_details_inv) simp_all
    moreover have "pools (add_pool_details ?a url user pass (fst (detect_stratum ?a url ?u))) = pools ?u"
      using add_pool_details_inv(2) [OF v, of ?a] u(2) by simp
    moreover have "cfg (add_pool_details ?a url user pass (fst (detect_stratum ?a url ?u))) = cfg ?u"
      using add_pool_details_inv(3) [OF v, of ?a] u(2) by simp
    ultimately show ?thesis using u(1,2) by - (rule reach_invI [of ?u], simp_all)
  qed
  show ?thesis
    using assms step by (simp add: addpool_def Let_def case_prod_beta split: option.split)
qed

lemma watch_pool_inv:
  assumes "pools_inv s" shows "pools_inv (watch_pool active delay a s) \<and> pools (watch_pool active delay a s) = pools s"
proof -
  define u where "u = (if p_idle (the_pool s a) \<and> tv_sec (now s) - tv_sec (p_tv_idle (the_pool s a)) > 30 \<and> active
                    then upd_pool a (\<lambda>p. p\<lparr>p_idle := False\<rparr>) s else s)"
  have u: "pools_inv u" "pools u = pools s" using assms by (auto simp: u_def intro: pools_inv_local)
  have "watch_pool active delay a s = s \<or> watch_pool active delay a s = u \<or> watch_pool active delay a s = switch_pools None u"
    unfolding watch_pool_def Let_def u_def [symmetric] by auto
  moreover have "pools_inv (switch_pools None u)" "pools (switch_pools None u) = pools s" using u by (simp_all add: switch_pools_inv)
  ultimately show ?thesis using u assms by (elim disjE) simp_all
qed

lemma watch_round_inv:
  assumes "pools_inv s"
  shows "pools_inv (watch_round active delay due s)" "pools (watch_round active delay due s) = pools s" "cfg (watch_round active delay due s) = cfg s"
proof -
  define u where "u = fold (\<lambda>i s. if i < total_pools s then watch_pool (active (pools s ! i)) delay (pools s ! i) s else s) [0..<total_pools s] s"
  have "pools_inv (fold (\<lambda>i s. if i < total_pools s then watch_pool (active (pools s ! i)) delay (pools s ! i) s else s) is x) \<and>
      pools (fold (\<lambda>i s. if i < total_pools s then watch_pool (active (pools s ! i)) delay (pools s ! i) s else s) is x) = pools x \<and>
      cfg (fold (\<lambda>i s. if i < total_pools s then watch_pool (active (pools s ! i)) delay (pools s ! i) s else s) is x) = cfg x"
    if "pools_inv x" for "is" x
    using that
  proof (induction "is" arbitrary: x)
    case (Cons i js)
    show ?case
      using Cons.IH [of "if i < total_pools x then watch_pool (active (pools x ! i)) delay (pools x ! i) x else x"]
        Cons.prems watch_pool_inv [OF Cons.prems, of "active (pools x ! i)" delay "pools x ! i"] by simp
  qed simp
  from this [OF assms] have u: "pools_inv u" "pools u = pools s" "cfg u = cfg s" by (auto simp: u_def)
  define v where "v = (if p_idle (the_pool u (current_pool u)) then switch_pools None u else u)"
  have v: "pools_inv v" "pools v = pools s" "cfg v = cfg s"
    using u switch_pools_inv [OF u(1), of None] by (auto simp: v_def)
  have "watch_round active delay due s = (if pool_strategy v = POOL_ROTATE \<and> due then switch_pools None v else v)"
    by (simp only: watch_round_def Let_def u_def [symmetric] v_def [symmetric])
  then show "pools_inv (watch_round active delay due s)" "pools (watch_round active delay due s) = pools s" "cfg (watch_round active delay due s) = cfg s"
    using v switch_pools_inv [OF v(1), of None] by auto
qed

lemma pool_died_inv:
  assumes "pools_inv s" shows "pools_inv (pool_died a s) \<and> pools (pool_died a s) = pools s"
proof -
  define u where "u = upd_pool a (\<lambda>p. p\<lparr>p_idle := True, p_tv_idle := now s\<rparr>) s"
  have u: "pools_inv u" "pools u = pools s" unfolding u_def by (rule pools_inv_local [OF assms]) simp_all
  then have "pools_inv (switch_pools None u)" "pools (switch_pools None u) = pools s" by (simp_all add: switch_pools_inv)
  then show ?thesis using u assms by (simp add: pool_died_def Let_def u_def [symmetric])
qed

lemma no_pools_no_command:
  assumes "pools s = []"
  shows "fst (switchpool param s) = s" "fst (enablepool param s) = s" "fst (poolpriority param s) = s" "fst (poolquota param s) = s"
    "fst (disablepool param s) = s" "fst (removepool isjson param s) = s"
  using assms by (simp_all add: switchpool_def enablepool_def poolpriority_def prioritize_pools_def poolquota_def disablepool_def removepool_def)

lemma pool_event_reach_inv:
  assumes "pool_event s t" "reach_inv s" shows "reach_inv t"
proof -
  have keep: "reach_inv (fst r)"
    if "pools s = [] \<Longrightarrow> fst r = s" "pools_inv s \<Longrightarrow> pools_inv (fst r) \<and> set (pools (fst r)) \<subseteq> set (pools s) \<and> cfg (fst r) = cfg s"
    for r :: "miner \<times> api_message"
  proof (cases "pools s = []")
    case True
    then show ?thesis using that(1) assms(2) by simp
  next
    case False
    then show ?thesis using that(2) reach_pools [OF assms(2) False] by - (rule reach_invI [OF assms(2)], blast+)
  qed
  have keep': "reach_inv u" if "pools s \<noteq> []" "pools_inv s \<Longrightarrow> pools_inv u \<and> pools u = pools s \<and> cfg u = cfg s" for u
    using that(2) reach_pools [OF assms(2) that(1)] that(1) by - (rule reach_invI [OF assms(2)], simp_all)
  show ?thesis
    using assms(1)
  proof cases
    case (ev_configure pool goal url)
    have "reach_inv (fst (add_pool2 goal s))" "pools (fst (add_pool2 goal s)) \<noteq> []" using add_pool2_reach [OF assms(2)] by auto
    then show ?thesis unfolding ev_configure(1)
      by - (rule reach_invI [of "fst (add_pool2 goal s)"], simp_all add: pools_inv_uri)
  next
    case (ev_switchpool param)
    then show ?thesis using switchpool_inv by (auto intro!: keep no_pools_no_command)
  next
    case (ev_addpool get_goal isjson param)
    then show ?thesis using addpool_reach [OF assms(2)] by simp
  next
    case (ev_enablepool param)
    then show ?thesis using enablepool_inv by (auto intro!: keep no_pools_no_command)
  next
    case (ev_poolpriority param)
    then show ?thesis using poolpriority_inv by (auto intro!: keep no_pools_no_command)
  next
    case (ev_poolquota param)
    then show ?thesis using poolquota_inv by (auto intro!: keep no_pools_no_command)
  next
    case (ev_disablepool param)
    then show ?thesis using disablepool_inv by (auto intro!: keep no_pools_no_command)
  next
    case (ev_removepool isjson param)
    then show ?thesis using removepool_inv by (auto intro!: keep no_pools_no_command)
  next
    case (ev_failoveronly param)
    have "reach_inv (s\<lparr>opt_fail_only := b\<rparr>)" for b
      using assms(2) by (auto simp: reach_inv_def pools_inv_def prios_ok_def prios_def)
    then show ?thesis using assms(2) by (simp add: ev_failoveronly failoveronly_def Let_def split: option.split)
  next
    case (ev_watch active delay due)
    then show ?thesis using watch_round_inv by (auto intro!: keep')
  next
    case (ev_died pool)
    then show ?thesis using pool_died_inv by (auto intro!: keep')
  next
    case (ev_alive pool)
    then show ?thesis by (auto intro!: keep' pools_inv_local)
  next
    case (ev_rejecting pool)
    then show ?thesis using disable_pool_inv by (auto intro!: keep')
  next
    case (ev_misbehaving pool)
    then show ?thesis using disable_pool_inv by (auto intro!: keep')
  next
    case (ev_accepting pool)
    then show ?thesis using enable_pool_inv by (auto intro!: keep')
  qed
qed

lemma pool_reachable_reach: "pool_reachable s \<Longrightarrow> reach_inv s"
proof (induction rule: pool_reachable.induct)
  case reach_start
  show ?case by (simp add: reach_inv_def initial_miner_def)
next
  case reach_step
  then show ?case by (blast intro: pool_event_reach_inv)
qed


text \<open>C29: The API command \<^verbatim>\<open>removepool\<close>: on success exactly the pool at the given place is gone, it is not the current
  pool, the other pools keep their order of priority and the array stays in order; with the reply that
  the pool is active the array is unchanged and the pool is still the current one; on every other reply
  nothing changes.\<close>

theorem removepool_command:
  assumes inv: "pools_inv s" and r: "removepool isjson param s = (t, msg)"
  shows "case msg of
      MSG_REMPOOL i url \<Rightarrow> 0 \<le> i \<and> i < int (total_pools s) \<and> set (pools t) = set (pools s) - {pools s ! nat i} \<and>
        pools_inv t \<and> same_order (pools s ! nat i) s t
    | MSG_ACTPOOL i \<Rightarrow> pools t = pools s \<and> pools_inv t \<and> current_pool t = pools s ! nat i
    | _ \<Rightarrow> t = s"
proof -
  define u where "u i = (if pools s ! nat i = current_pool s then switch_pools None s else s)" for i
  have u: "pools_inv (u i)" "pools (u i) = pools s" "same_order a s (u i)" for i a
    using inv switch_pools_inv [OF inv, of None] by (auto simp: u_def same_order_def switch_pools_def)
  have rem: "set (pools (remove_pool p (u i))) = set (pools s) - {p} \<and> pools_inv (remove_pool p (u i)) \<and> same_order p s (remove_pool p (u i))"
    if "p \<in> set (pools s)" "p \<noteq> current_pool (u i)" for p i
  proof -
    have "pools_inv (remove_pool p (u i)) \<and> set (pools (remove_pool p (u i))) = set (pools (u i)) - {p} \<and> same_order p (u i) (remove_pool p (u i))"
      using remove_pool_inv [OF u(1)] disable_other_current [OF that(2)] that u(2) by simp
    then show ?thesis using u(2) u(3) [of p i] by (simp add: same_order_def)
  qed
  have "t = s \<and> msg \<in> {MSG_NOPOOL, MSG_MISPID} \<union> range MSG_INVPID \<union> range MSG_REMLASTP \<or>
     (\<exists>i. 0 \<le> i \<and> i < int (total_pools s) \<and>
       (if pools s ! nat i = current_pool (u i) then t = u i \<and> msg = MSG_ACTPOOL i
        else t = remove_pool (pools s ! nat i) (u i) \<and> (\<exists>url. msg = MSG_REMPOOL i url)))"
  proof (cases "total_pools s = 0 \<or> param = None \<or> param = Some []")
    case True
    then have "removepool isjson param s = (s, MSG_NOPOOL) \<or> removepool isjson param s = (s, MSG_MISPID)"
      by (cases "total_pools s = 0"; cases param) (auto simp: removepool_def)
    then show ?thesis using r by auto
  next
    case False
    then obtain str where str: "param = Some str" "str \<noteq> []" "total_pools s \<noteq> 0" by auto
    define i where "i = atoi str"
    have eq: "removepool isjson param s =
      (if i < 0 \<or> i \<ge> int (total_pools s) then (s, MSG_INVPID i)
       else if total_pools s \<le> 1 then (s, MSG_REMLASTP i)
       else if pools s ! nat i = current_pool (u i) then (u i, MSG_ACTPOOL i)
       else (remove_pool (pools s ! nat i) (u i), MSG_REMPOOL i (escape_string isjson (p_rpc_url (the_pool (u i) (pools s ! nat i))))))"
      unfolding removepool_def str(1) option.case Let_def u_def i_def using str(2,3) by (simp only: if_False)
    consider (range) "i < 0 \<or> i \<ge> int (total_pools s)" | (last) "0 \<le> i" "i < int (total_pools s)" "total_pools s \<le> 1"
      | (act) "0 \<le> i" "i < int (total_pools s)" "\<not> total_pools s \<le> 1" "pools s ! nat i = current_pool (u i)"
      | (rem) "0 \<le> i" "i < int (total_pools s)" "\<not> total_pools s \<le> 1" "pools s ! nat i \<noteq> current_pool (u i)"
      by linarith
    then show ?thesis
    proof cases
      case range
      then have "t = s" "msg = MSG_INVPID i" using r unfolding eq by simp_all
      then show ?thesis by blast
    next
      case last
      then have "t = s" "msg = MSG_REMLASTP i" using r unfolding eq by simp_all
      then show ?thesis by blast
    next
      case act
      then have "t = u i" "msg = MSG_ACTPOOL i" using r unfolding eq by simp_all
      then show ?thesis using act by metis
    next
      case rem
      then have "t = remove_pool (pools s ! nat i) (u i)" "\<exists>url. msg = MSG_REMPOOL i url" using r unfolding eq by auto
      then show ?thesis using rem by metis
    qed
  qed
  then show ?thesis
  proof
    assume "\<exists>i. 0 \<le> i \<and> i < int (total_pools s) \<and>
       (if pools s ! nat i = current_pool (u i) then t = u i \<and> msg = MSG_ACTPOOL i
        else t = remove_pool (pools s ! nat i) (u i) \<and> (\<exists>url. msg = MSG_REMPOOL i url))"
    then obtain i where i: "0 \<le> i" "i < int (total_pools s)"
      "if pools s ! nat i = current_pool (u i) then t = u i \<and> msg = MSG_ACTPOOL i
        else t = remove_pool (pools s ! nat i) (u i) \<and> (\<exists>url. msg = MSG_REMPOOL i url)" by blast
    have p: "pools s ! nat i \<in> set (pools s)" using i(1,2) by simp
    show ?thesis
    proof (cases "pools s ! nat i = current_pool (u i)")
      case True
      then show ?thesis using i(3) u(1,2) by simp
    next
      case False
      then obtain url where m: "msg = MSG_REMPOOL i url" and t: "t = remove_pool (pools s ! nat i) (u i)" using i(3) by auto
      show ?thesis unfolding m t api_message.case using i(1,2) rem [OF p False] by blast
    qed
  qed auto
qed


end
