(* ===== verification/PoolExamples.thy ===== *)
theory PoolExamples
  imports ApiPools
begin

text \<open>
  Three configured pools, and what the properties of the pool management say of them.
\<close>

section \<open>Three pools\<close>

definition example_goal :: mining_goal_info where
  "example_goal = \<lparr>g_is_default = True, g_blkchain = \<lparr>bc_blocks = [], bc_currentblk = replicate 32 0, bc_currentblk_subsidy = 0\<rparr>,
     g_malgo = 0, g_current_diff = 18446744073709551616, g_have_longpoll = False, g_diff_accepted = 0\<rparr>"

definition example_algo :: mining_algorithm where
  "example_algo = \<lparr>ma_aliases = ''SHA256d'', ma_goal_refs = 1, ma_staged = 0\<rparr>"

text \<open>Pools 1, 2 and 3 with their number as priority and quotas 8, 15 and 0; those in \<open>dead\<close> do not
  answer, and pool 1 is the current one.\<close>

definition three_pools :: "pool_strategy \<Rightarrow> nat list \<Rightarrow> miner" where
  "three_pools strategy dead = (initial_miner (\<lambda>_. example_goal) (\<lambda>_. example_algo) strategy False)
     \<lparr>pstore := (\<lambda>a. zero_pool\<lparr>p_pool_no := int a - 1, p_prio := int a - 1, p_enabled := POOL_ENABLED, p_idle := a \<in> set dead,
        p_quota := (if a = 1 then 8 else if a = 2 then 15 else 0), p_shares := (if a = 2 then 3 else 7)\<rparr>),
      pools := [1, 2, 3], currentpool := Some 1, fresh_pool := 4, enabled_pools := 3\<rparr>"

lemma three_pools_simps [simp]:
  "pools (three_pools st dead) = [1, 2, 3]" "currentpool (three_pools st dead) = Some 1" "pool_strategy (three_pools st dead) = st"
  "p_prio (the_pool (three_pools st dead) a) = int a - 1" "p_idle (the_pool (three_pools st dead) a) \<longleftrightarrow> a \<in> set dead"
  "p_enabled (the_pool (three_pools st dead) a) = POOL_ENABLED" "p_pool_no (the_pool (three_pools st dead) a) = int a - 1"
  "p_quota (the_pool (three_pools st dead) a) = (if a = 1 then 8 else if a = 2 then 15 else 0)"
  "p_shares (the_pool (three_pools st dead) a) = (if a = 2 then 3 else 7)"
  "p_has_stratum (the_pool (three_pools st dead) a) = False" "p_failover_only (the_pool (three_pools st dead) a) = False"
  "pool_malgo (three_pools st dead) a = 0" "rotating_pool (three_pools st dead) = 0" "enabled_pools (three_pools st dead) = 3"
  "opt_fail_only (three_pools st dead) = False" "p_quota_gcd (the_pool (three_pools st dead) a) = 0"
  by (simp_all add: three_pools_def zero_pool_def initial_miner_def example_goal_def)

lemma three_pools_inv: "pools_inv (three_pools st dead)"
proof -
  have "[1, 2, 3] ! i = i + 1" if "i < 3" for i :: nat using that by (auto simp: nth_Cons')
  moreover have "prios_ok (three_pools st dead)" by (rule prios_okI) (simp_all add: prios_def)
  ultimately show ?thesis by (simp add: pools_inv_def count_if_def)
qed

lemma three_pools_workable: "pool_unworkable (the_pool (three_pools st dead) a) \<longleftrightarrow> a \<in> set dead"
  by (simp add: pool_unworkable_def)

lemma three_pools_unusable: "pool_unusable (the_pool (three_pools st dead) a) \<longleftrightarrow> a \<in> set dead"
  by (simp add: pool_unusable_def)

section \<open>The properties on them\<close>

theorem switch_pools_picks_best_witness:
  "current_pool (switch_pools None (three_pools POOL_FAILOVER [1])) = 2"
  using switch_pools_picks_best [OF three_pools_inv, of POOL_FAILOVER "[1]"]
  by (auto simp: by_priority_def Let_def three_pools_unusable)

theorem switch_pools_to_witness:
  "current_pool (switch_pools (Some 3) (three_pools POOL_ROTATE [1])) = 3 \<and>
   same_order 3 (three_pools POOL_ROTATE [1]) (switch_pools (Some 3) (three_pools POOL_ROTATE [1]))"
  using switch_pools_to [OF three_pools_inv, of 3 POOL_ROTATE "[1]"] by (simp add: Let_def)

theorem validate_pool_priorities_ok_witness:
  "prios_ok (validate_pool_priorities (upd_pool 2 (\<lambda>p. p\<lparr>p_prio := 7\<rparr>) (three_pools POOL_FAILOVER [])))"
  using validate_pool_priorities_ok [of "upd_pool 2 (\<lambda>p. p\<lparr>p_prio := 7\<rparr>) (three_pools POOL_FAILOVER [])"] by simp

theorem adjust_quota_gcd_shares_witness:
  "let s = three_pools POOL_LOADBALANCE []; t = adjust_quota_gcd s in
     0 < p_quota_gcd (the_pool t 1) \<and> 0 < p_quota_gcd (the_pool t 2) \<and> p_quota_gcd (the_pool t 3) = 0"
  using adjust_quota_gcd_shares [of "three_pools POOL_LOADBALANCE []"] by (simp add: Let_def int_range_def)

theorem select_balanced_fewest_witness:
  "snd (select_balanced 1 None (three_pools POOL_BALANCE [3])) = Some 2 \<and>
   p_shares (the_pool (fst (select_balanced 1 None (three_pools POOL_BALANCE [3]))) 2) = 4"
proof -
  obtain t r where t: "select_balanced 1 None (three_pools POOL_BALANCE [3]) = (t, r)" by fastforce
  then have "r = Some 2" by (auto simp: select_balanced_def three_pools_workable)
  then show ?thesis using t select_balanced_fewest [of 1 None "three_pools POOL_BALANCE [3]" t 2] by simp
qed

theorem select_failover_best_witness:
  "select_failover (Some 0) (three_pools POOL_FAILOVER [1]) = Some 2"
proof -
  have "fits (three_pools POOL_FAILOVER [1]) (Some 0) 2" "\<not> fits (three_pools POOL_FAILOVER [1]) (Some 0) 1"
    by (simp_all add: fits_def three_pools_unusable)
  then show ?thesis
    using select_failover_best [OF three_pools_inv [of POOL_FAILOVER "[1]"], of "Some 0"]
    by (auto split: option.splits)
qed



theorem select_pool_stays_with_dead_witness:
  "select_pool_from silent 1000 False (Some 1) (Some 3) (three_pools POOL_FAILOVER [3]) = None"
  by (rule select_pool_stays_with_dead) simp_all


theorem pooldetails_escaped_witness:
  "fst (pooldetails (escape_string False ''http://a'' @ '','' @ escape_string False ''me,you'' @ '','' @ escape_string False ''x'' @ '','' @ escape_string False ''default''))
   = Some (''http://a'', ''me,you'', ''x'', Some ''default'')"
  using pooldetails_escaped [of "''default''" "''http://a''" "''me,you''" "''x''"] by simp

theorem pooldetails_overflow_witness:
  "snd (pooldetails ''u,me,x'') = length ''u,me,x'' + 2"
  using pooldetails_overflow [of "''u''" "''me''" "''x''"] by simp

theorem removepool_command_witness:
  "\<exists>t url. removepool False (Some ''1'') (three_pools POOL_FAILOVER []) = (t, MSG_REMPOOL 1 url) \<and> set (pools t) = {1, 3} \<and> pools_inv t"
proof -
  have a: "atoi ''1'' = 1" by code_simp
  then have "\<exists>t url. removepool False (Some ''1'') (three_pools POOL_FAILOVER []) = (t, MSG_REMPOOL 1 url)"
    by (simp add: removepool_def Let_def)
  then show ?thesis using removepool_command [OF three_pools_inv [of POOL_FAILOVER "[]"], of False "Some ''1''"] by fastforce
qed


end
