(* ===== verification/Difficulty.thy ===== *)
theory Difficulty
  imports Staged
begin

text \<open>
  Difficulties (\<^verbatim>\<open>target_diff\<close>, \<^verbatim>\<open>calc_diff\<close>, \<^verbatim>\<open>set_blockdiff\<close> in \<^verbatim>\<open>miner.c\<close>). A difficulty is a \<^verbatim>\<open>double\<close>: a rational
  number that has been rounded. The sum over the bytes of a target only meets natural numbers, whose
  rounding to 53 bits is written out; the quotient is rounded by \<open>rnd_double\<close>.
\<close>

section \<open>Natural numbers as doubles\<close>

text \<open>How many low bits of a number do not fit, and the nearest number with 53 bits, halves to even.\<close>

fun ulp_exp :: "nat \<Rightarrow> nat" where
  "ulp_exp n = (if n < 2 ^ 53 then 0 else Suc (ulp_exp (n div 2)))"

declare ulp_exp.simps [simp del]

definition double_of_nat :: "nat \<Rightarrow> nat" where
  "double_of_nat n =
     (let u = 2 ^ ulp_exp n; q = n div u; r = n mod u
      in u * (if 2 * r > u \<or> 2 * r = u \<and> odd q then q + 1 else q))"

section \<open>Difficulties\<close>

definition DIFFEXACTONE :: rat where
  "DIFFEXACTONE = of_nat (double_of_nat 26959946667150639794667015087019630673637144422540572481103610249215)"

definition target_diff :: "env \<Rightarrow> bytes \<Rightarrow> rat" where
  "target_diff E target =
     (let targ = foldr (\<lambda>b targ. double_of_nat (double_of_nat (targ * 0x100) + unat b)) target 0
      in rnd_double E (DIFFEXACTONE / of_nat (if targ = 0 then 1 else targ)))"

definition calc_diff :: "env \<Rightarrow> work \<Rightarrow> int \<Rightarrow> miner \<Rightarrow> miner \<times> work" where
  "calc_diff E w known s =
     (let w = w\<lparr>w_work_difficulty := (if known = 0 then target_diff E (w_target w) else of_int known)\<rparr>;
          difficulty = w_work_difficulty w;
          stats = p_stats (the_pool s (w_pool w));
          stats = stats\<lparr>ps_last_diff := difficulty\<rparr>;
          stats =
            (if difficulty = ps_min_diff stats then stats\<lparr>ps_min_diff_count := ps_min_diff_count stats + 1\<rparr>
             else if difficulty < ps_min_diff stats \<or> ps_min_diff stats = 0
             then stats\<lparr>ps_min_diff := difficulty, ps_min_diff_count := 1\<rparr> else stats);
          stats =
            (if difficulty = ps_max_diff stats then stats\<lparr>ps_max_diff_count := ps_max_diff_count stats + 1\<rparr>
             else if difficulty > ps_max_diff stats
             then stats\<lparr>ps_max_diff := difficulty, ps_max_diff_count := 1\<rparr> else stats)
      in (upd_pool (w_pool w) (\<lambda>p. p\<lparr>p_stats := stats\<rparr>) s, w))"

definition set_blockdiff :: "env \<Rightarrow> nat \<Rightarrow> work \<Rightarrow> miner \<Rightarrow> miner" where
  "set_blockdiff E goal w s =
     (let target = real_block_target (w_data w);
          diff = target_diff E target
      in upd_goal goal (\<lambda>g. g\<lparr>g_current_diff := diff\<rparr>) s)"

section \<open>Rounding keeps the order\<close>

lemma ulp_exp_bounds: "n < 2 ^ (53 + ulp_exp n) \<and> (0 < ulp_exp n \<longrightarrow> 2 ^ (52 + ulp_exp n) \<le> n)"
proof (induction n rule: ulp_exp.induct)
  case (1 n)
  show ?case
  proof (cases "n < 2 ^ 53")
    case True
    then show ?thesis by (simp add: ulp_exp.simps [of n])
  next
    case False
    then have e: "ulp_exp n = Suc (ulp_exp (n div 2))" by (simp add: ulp_exp.simps [of n])
    have IH: "n div 2 < 2 ^ (53 + ulp_exp (n div 2))"
      "0 < ulp_exp (n div 2) \<longrightarrow> 2 ^ (52 + ulp_exp (n div 2)) \<le> n div 2"
      using 1 [OF False] by blast+
    have "2 ^ (52 + ulp_exp n) \<le> n"
    proof (cases "ulp_exp (n div 2) = 0")
      case True then show ?thesis using e False by simp
    next
      case nz: False
      then have "2 * 2 ^ (52 + ulp_exp (n div 2)) \<le> 2 * (n div 2)" using IH(2) by simp
      also have "\<dots> \<le> n" by simp
      finally show ?thesis using e by (simp add: power_add)
    qed
    moreover have "n < 2 * 2 ^ (53 + ulp_exp (n div 2))" using IH(1) by linarith
    ultimately show ?thesis using e by (simp add: power_add)
  qed
qed

lemma ulp_exp_eqI: "2 ^ (52 + e) \<le> n \<Longrightarrow> n < 2 ^ (53 + e) \<Longrightarrow> 0 < e \<Longrightarrow> ulp_exp n = e"
proof -
  assume a: "2 ^ (52 + e) \<le> n" "n < 2 ^ (53 + e)" "0 < e"
  note b = ulp_exp_bounds [of n]
  have "(2 :: nat) ^ (52 + e) < 2 ^ (53 + ulp_exp n)" using a b by (meson le_less_trans)
  then have "e \<le> ulp_exp n" by simp
  moreover have "ulp_exp n \<le> e"
  proof (rule ccontr)
    assume "\<not> ulp_exp n \<le> e"
    then have "2 ^ (52 + ulp_exp n) < (2 :: nat) ^ (53 + e)" using a b by (meson le_less_trans not_le not_less_zero neq0_conv)
    then have "52 + ulp_exp n < 53 + e" by (simp only: power_strict_increasing_iff)
    then show False using \<open>\<not> ulp_exp n \<le> e\<close> by simp
  qed
  ultimately show ?thesis by simp
qed

lemma double_of_nat_exact: "2 ^ ulp_exp n dvd n \<Longrightarrow> double_of_nat n = n"
  by (auto simp: double_of_nat_def Let_def mod_eq_0_iff_dvd dvd_mult_div_cancel)

lemma double_of_nat_small [simp]: "n < 2 ^ 53 \<Longrightarrow> double_of_nat n = n"
  by (rule double_of_nat_exact) (simp add: ulp_exp.simps [of n])

text \<open>The result is a multiple of the unit, between the two next to the number.\<close>

lemma double_of_nat_cases:
  obtains q where "double_of_nat n = 2 ^ ulp_exp n * q" "n div 2 ^ ulp_exp n \<le> q" "q \<le> n div 2 ^ ulp_exp n + 1"
  using that by (auto simp: double_of_nat_def Let_def split: if_splits)

lemma ulp_quotient: "n div 2 ^ ulp_exp n < 2 ^ 53" "0 < ulp_exp n \<Longrightarrow> 2 ^ 52 \<le> n div 2 ^ ulp_exp n"
  using ulp_exp_bounds [of n] by (auto simp: less_mult_imp_div_less power_add less_eq_div_iff_mult_less_eq mult.commute)

lemma double_of_nat_range:
  "double_of_nat n \<le> 2 ^ (53 + ulp_exp n)" "0 < ulp_exp n \<Longrightarrow> 2 ^ (52 + ulp_exp n) \<le> double_of_nat n"
proof -
  obtain q where q: "double_of_nat n = 2 ^ ulp_exp n * q" "n div 2 ^ ulp_exp n \<le> q" "q \<le> n div 2 ^ ulp_exp n + 1"
    by (rule double_of_nat_cases)
  have "q \<le> 2 ^ 53" using q(3) ulp_quotient(1) [of n] by linarith
  then have "2 ^ ulp_exp n * q \<le> 2 ^ ulp_exp n * 2 ^ 53" by (rule mult_le_mono2)
  then show "double_of_nat n \<le> 2 ^ (53 + ulp_exp n)" unfolding q(1) power_add by (simp add: mult.commute)
  assume "0 < ulp_exp n"
  then have "2 ^ 52 \<le> q" using q(2) ulp_quotient(2) [of n] by linarith
  then have "2 ^ ulp_exp n * 2 ^ 52 \<le> 2 ^ ulp_exp n * q" by (rule mult_le_mono2)
  then show "2 ^ (52 + ulp_exp n) \<le> double_of_nat n" unfolding q(1) power_add by (simp add: mult.commute)
qed

lemma ulp_exp_mono: "m \<le> n \<Longrightarrow> ulp_exp m \<le> ulp_exp n"
proof (rule ccontr)
  assume "m \<le> n" "\<not> ulp_exp m \<le> ulp_exp n"
  then have "2 ^ (52 + ulp_exp m) \<le> m" "n < 2 ^ (53 + ulp_exp n)" "53 + ulp_exp n \<le> 52 + ulp_exp m"
    using ulp_exp_bounds [of m] ulp_exp_bounds [of n] by auto
  moreover then have "(2 :: nat) ^ (53 + ulp_exp n) \<le> 2 ^ (52 + ulp_exp m)" by (intro power_increasing) simp_all
  ultimately show False using \<open>m \<le> n\<close> by linarith
qed

lemma double_of_nat_mono: "m \<le> n \<Longrightarrow> double_of_nat m \<le> double_of_nat n"
proof -
  assume le: "m \<le> n"
  show ?thesis
  proof (cases "ulp_exp m = ulp_exp n")
    case True
    define u :: nat where "u = 2 ^ ulp_exp n"
    have u: "0 < u" by (simp add: u_def)
    have d: "m div u \<le> n div u" using le by (rule div_le_mono)
    have "m mod u \<le> n mod u" if "m div u = n div u"
      using le that div_mult_mod_eq [of m u] div_mult_mod_eq [of n u] by (metis nat_add_left_cancel_le)
    then have "(if 2 * (m mod u) > u \<or> 2 * (m mod u) = u \<and> odd (m div u) then m div u + 1 else m div u)
      \<le> (if 2 * (n mod u) > u \<or> 2 * (n mod u) = u \<and> odd (n div u) then n div u + 1 else n div u)"
      using d by (cases "m div u = n div u") auto
    then show ?thesis by (simp add: double_of_nat_def Let_def True u_def [symmetric])
  next
    case False
    then have lt: "ulp_exp m < ulp_exp n" using ulp_exp_mono [OF le] by simp
    then have "(2 :: nat) ^ (53 + ulp_exp m) \<le> 2 ^ (52 + ulp_exp n)" by (intro power_increasing) simp_all
    then show ?thesis using double_of_nat_range(1) [of m] double_of_nat_range(2) [of n] lt by linarith
  qed
qed

lemma ulp_dvd_double: "2 ^ ulp_exp n dvd double_of_nat n"
  by (rule double_of_nat_cases [of n]) simp

lemma double_of_nat_idem [simp]: "double_of_nat (double_of_nat n) = double_of_nat n"
proof (cases "ulp_exp n = 0")
  case True
  then have "n < 2 ^ 53" using ulp_exp_bounds [of n] by simp
  then show ?thesis by simp
next
  case False
  show ?thesis
  proof (cases "double_of_nat n = 2 ^ (53 + ulp_exp n)")
    case True
    have "ulp_exp (2 ^ (53 + ulp_exp n)) = Suc (ulp_exp n)" by (rule ulp_exp_eqI) simp_all
    then have "2 ^ ulp_exp (2 ^ (53 + ulp_exp n)) dvd (2 :: nat) ^ (53 + ulp_exp n)"
      by (simp only:) (rule le_imp_power_dvd, simp)
    then show ?thesis unfolding True by (rule double_of_nat_exact)
  next
    case nt: False
    then have "ulp_exp (double_of_nat n) = ulp_exp n"
      using double_of_nat_range [of n] False by (intro ulp_exp_eqI) simp_all
    then show ?thesis using ulp_dvd_double [of n] by (intro double_of_nat_exact) simp
  qed
qed

text \<open>A further byte below a number of 53 bits or more is lost.\<close>

lemma double_of_nat_byte:
  assumes m: "double_of_nat m = m" "2 ^ 53 \<le> m" and d: "d < 0x100"
  shows "double_of_nat (m * 0x100 + d) = m * 0x100"
proof -
  define e where "e = ulp_exp m"
  have e: "0 < e" "2 ^ (52 + e) \<le> m" "m < 2 ^ (53 + e)" "2 ^ e dvd m"
    using ulp_exp_bounds [of m] ulp_dvd_double [of m] m unfolding e_def by (auto intro: gr0I)
  have E: "ulp_exp (m * 0x100 + d) = e + 8"
  proof (rule ulp_exp_eqI)
    have "2 ^ (52 + e) * 2 ^ 8 \<le> m * 2 ^ 8" using e(2) by simp
    then show "2 ^ (52 + (e + 8)) \<le> m * 0x100 + d" by (simp add: power_add)
    have "Suc m * 2 ^ 8 \<le> 2 ^ (53 + e) * 2 ^ 8" using e(3) by (intro mult_le_mono1) simp
    then show "m * 0x100 + d < 2 ^ (53 + (e + 8))" using d by (simp add: power_add)
  qed simp
  obtain k where k: "m = 2 ^ e * k" using e(4) by (auto elim: dvdE)
  define u :: nat where "u = 2 ^ (e + 8)"
  have u: "m * 0x100 = u * k" "2 * d < u"
  proof -
    show "m * 0x100 = u * k" by (simp add: k u_def power_add)
    have "(2 :: nat) ^ 9 \<le> 2 ^ (e + 8)" using e(1) by (intro power_increasing) simp_all
    then show "2 * d < u" using d by (simp add: u_def)
  qed
  then have q: "(u * k + d) div u = k" "(u * k + d) mod u = d" by simp_all
  have E': "ulp_exp (u * k + d) = e + 8" using E unfolding u(1) .
  show ?thesis unfolding u(1) double_of_nat_def Let_def E' u_def [symmetric] q using u(2) by simp
qed

lemma double_of_nat_times: "double_of_nat m = m \<Longrightarrow> double_of_nat (m * 0x100) = m * 0x100"
proof (cases "2 ^ 53 \<le> m")
  case True
  then show "double_of_nat m = m \<Longrightarrow> ?thesis" using double_of_nat_byte [of m 0] by simp
next
  case False
  define e where "e = ulp_exp (m * 0x100)"
  have "e \<le> 8"
  proof (rule ccontr)
    assume "\<not> e \<le> 8"
    then have "2 ^ (52 + e) \<le> m * 0x100" "(2 :: nat) ^ 61 \<le> 2 ^ (52 + e)"
      using ulp_exp_bounds [of "m * 0x100"] power_increasing [of 61 "52 + e" "2 :: nat"] unfolding e_def by simp_all
    then have "2 ^ 61 \<le> m * 0x100" by (rule order_trans [rotated])
    then show False using False by simp
  qed
  then have "(2 :: nat) ^ e dvd 2 ^ 8" by (rule le_imp_power_dvd)
  then have "2 ^ e dvd m * 0x100" by (intro dvd_mult) simp
  then show ?thesis unfolding e_def by (rule double_of_nat_exact)
qed

section \<open>Larger targets are easier\<close>

definition targ_sum :: "bytes \<Rightarrow> nat" where
  "targ_sum target = foldr (\<lambda>b targ. double_of_nat (double_of_nat (targ * 0x100) + unat b)) target 0"

lemma targ_sum_Nil [simp]: "targ_sum [] = 0"
  by (simp add: targ_sum_def)

lemma targ_sum_rep [simp]: "double_of_nat (targ_sum bs) = targ_sum bs"
  by (cases bs) (simp_all add: targ_sum_def)

lemma targ_sum_Cons: "targ_sum (b # bs) = double_of_nat (targ_sum bs * 0x100 + unat b)"
  using double_of_nat_times [OF targ_sum_rep [of bs]] by (simp add: targ_sum_def)

lemma targ_sum_exact: "le_value bs < 2 ^ 53 \<Longrightarrow> targ_sum bs = le_value bs"
  by (induction bs) (simp_all add: targ_sum_Cons le_value_Cons add.commute mult.commute)

lemma targ_sum_big: "2 ^ 53 \<le> le_value bs \<Longrightarrow> 2 ^ 53 \<le> targ_sum bs"
proof (induction bs)
  case (Cons b bs)
  have "2 ^ 53 \<le> targ_sum bs * 0x100 + unat b"
  proof (cases "2 ^ 53 \<le> le_value bs")
    case True
    then show ?thesis using Cons.IH by simp
  next
    case False
    then show ?thesis using Cons.prems targ_sum_exact [of bs] by (simp add: le_value_Cons)
  qed
  then have "double_of_nat (2 ^ 53) \<le> targ_sum (b # bs)" unfolding targ_sum_Cons by (rule double_of_nat_mono)
  moreover have "double_of_nat (2 ^ 53) = 2 ^ 53" 
  proof (rule double_of_nat_exact)
    have "ulp_exp (2 ^ 53) = 1" by (rule ulp_exp_eqI) simp_all
    then show "(2 :: nat) ^ ulp_exp (2 ^ 53) dvd 2 ^ 53" by (simp only:) simp
  qed
  ultimately show ?case by simp
qed simp

lemma targ_sum_mono: "length xs = length ys \<Longrightarrow> le_value xs \<le> le_value ys \<Longrightarrow> targ_sum xs \<le> targ_sum ys"
proof (induction xs ys rule: list_induct2)
  case (Cons x xs y ys)
  have xy: "unat x < 0x100" "unat y < 0x100" using unsigned_less [of x] unsigned_less [of y] by simp_all
  have val: "unat x + 0x100 * le_value xs \<le> unat y + 0x100 * le_value ys" using Cons.prems by (simp add: le_value_Cons)
  then have le: "le_value xs \<le> le_value ys" using xy by linarith
  note IH = Cons.IH [OF le]
  consider "le_value xs = le_value ys" | "targ_sum xs < targ_sum ys"
    | "le_value xs < le_value ys" "targ_sum xs = targ_sum ys"
    using le IH by linarith
  then show ?case
  proof cases
    case 1
    have "targ_sum xs \<le> targ_sum ys" "unat x \<le> unat y" using IH val 1 by simp_all
    then show ?thesis unfolding targ_sum_Cons by (intro double_of_nat_mono) linarith
  next
    case 2
    then show ?thesis unfolding targ_sum_Cons using xy by (intro double_of_nat_mono) linarith
  next
    case 3
    have "2 ^ 53 \<le> le_value ys"
    proof (rule ccontr)
      assume "\<not> 2 ^ 53 \<le> le_value ys"
      then show False using 3 targ_sum_exact [of xs] targ_sum_exact [of ys] by simp
    qed
    then have "2 ^ 53 \<le> targ_sum ys" by (rule targ_sum_big)
    then show ?thesis using 3 xy double_of_nat_byte [OF targ_sum_rep] by (simp add: targ_sum_Cons)
  qed
qed simp

lemma target_diff_sum: "target_diff E t = rnd_double E (DIFFEXACTONE / of_nat (if targ_sum t = 0 then 1 else targ_sum t))"
  by (simp add: target_diff_def targ_sum_def Let_def)

lemma DIFFEXACTONE_quotient: "p \<le> q \<Longrightarrow> 0 < p \<Longrightarrow> DIFFEXACTONE / of_nat q \<le> DIFFEXACTONE / of_nat p"
proof (rule divide_left_mono)
  assume "p \<le> q" "0 < p"
  then show "rat_of_nat p \<le> rat_of_nat q" "0 < rat_of_nat q * rat_of_nat p" by simp_all
  show "0 \<le> DIFFEXACTONE" unfolding DIFFEXACTONE_def by (rule of_nat_0_le_iff)
qed

lemma target_diff_le:
  assumes "mono (rnd_double E)" "length a = length b" "le_value a \<le> le_value b"
  shows "target_diff E b \<le> target_diff E a"
proof -
  let ?d = "\<lambda>t. if targ_sum t = 0 then 1 else targ_sum t"
  have "?d a \<le> ?d b" "0 < ?d a" using targ_sum_mono [OF assms(2,3)] by auto
  then have "DIFFEXACTONE / of_nat (?d b) \<le> DIFFEXACTONE / of_nat (?d a)" by (rule DIFFEXACTONE_quotient)
  then show ?thesis unfolding target_diff_sum by (rule monoD [OF assms(1)])
qed

end
