(* ===== verification/Blocks.thy ===== *)
theory Blocks
  imports Pools Difficulty
begin

text \<open>
  The chain of blocks as a mining goal sees it, and what a new block does to the work at hand:
  \<^verbatim>\<open>test_work_current\<close> with everything it calls, the judgement whether work is stale, and the copies of
  work that are kept. A block table is the list of its blocks in the order of the hash table.
  \<^verbatim>\<open>blocks\<close> and \<^verbatim>\<open>currentblk\<close> belong to the goal; the words of a header are read as the little-endian
  machines the code runs on read them.
\<close>

section \<open>Goals and their algorithm\<close>

definition goal_set_malgo :: "nat \<Rightarrow> nat \<Rightarrow> miner \<Rightarrow> miner" where
  "goal_set_malgo goal malgo s =
     (if g_malgo (gstore s goal) = malgo then s
      else let s = upd_algo (g_malgo (gstore s goal)) (\<lambda>a. a\<lparr>ma_goal_refs := ma_goal_refs a - 1\<rparr>) s;
               s = upd_algo malgo (\<lambda>a. a\<lparr>ma_goal_refs := ma_goal_refs a + 1\<rparr>) s
           in upd_goal goal (\<lambda>g. g\<lparr>g_malgo := malgo\<rparr>) s)"

definition blkchain_init_block :: "blockchain_info \<Rightarrow> blockchain_info" where
  "blkchain_init_block bc =
     (let dummy_block = \<lparr>bi_block_id = 0, bi_prevblkhash = replicate 0x20 0, bi_block_seen_order = 0, bi_height = 0,
            bi_first_seen_time = 0\<rparr>
      in bc\<lparr>bc_blocks := bc_blocks bc @ [dummy_block], bc_currentblk := bi_prevblkhash dummy_block\<rparr>)"

definition mining_goal_reset :: "nat \<Rightarrow> miner \<Rightarrow> miner" where
  "mining_goal_reset goal s =
     upd_goal goal (\<lambda>g. g\<lparr>g_blkchain := blkchain_init_block ((g_blkchain g)\<lparr>bc_blocks := []\<rparr>)\<rparr>) s"

definition block_exists :: "blockchain_info \<Rightarrow> bytes \<Rightarrow> block_info option" where
  "block_exists bc prevblkhash = List.find (\<lambda>b. bi_prevblkhash b = prevblkhash) (bc_blocks bc)"

definition block_sort :: "block_info \<Rightarrow> block_info \<Rightarrow> int" where
  "block_sort blocka blockb = int_of_long (int (bi_block_seen_order blocka) - int (bi_block_seen_order blockb))"

text \<open>The block \<^verbatim>\<open>currentblk\<close> points to.\<close>

definition currentblk :: "blockchain_info \<Rightarrow> block_info" where
  "currentblk bc = the (block_exists bc (bc_currentblk bc))"

definition set_curblock :: "block_info \<Rightarrow> blockchain_info \<Rightarrow> blockchain_info" where
  "set_curblock blkinfo bc =
     bc\<lparr>bc_currentblk := bi_prevblkhash blkinfo,
        bc_currentblk_subsidy := drop_bit (unat (bi_height blkinfo div 210000)) 5000000000\<rparr>"

section \<open>Stale work\<close>

text \<open>An \<^verbatim>\<open>int\<close> taken as \<^verbatim>\<open>unsigned\<close>.\<close>

definition uint_of_int :: "int \<Rightarrow> int" where
  "uint_of_int n = n mod 2 ^ 32"

definition stale_work :: "miner \<Rightarrow> work \<Rightarrow> bool \<Rightarrow> bool" where
  "stale_work s w share =
     (let block_id = upk_u32le (w_data w) 4;
          pool = the_pool s (w_pool w);
          goal = gstore s (p_goal pool);
          work_expiry = uint_of_int (if w_rolltime w \<ge> opt_scantime s \<or> w_tr w \<noteq> None then w_rolltime w else opt_expiry s);
          max_expiry = uint_of_int (if g_have_longpoll goal then opt_expiry_lp s else opt_expiry s);
          work_expiry = (if work_expiry > max_expiry then max_expiry else work_expiry);
          getwork_delay = p_getwork_delay pool;
          stale =
            (if share then
               (if p_block_id pool \<noteq> 0 \<and> p_block_id pool \<noteq> block_id then True
                else \<not> p_submit_old pool \<and> w_work_restart_id w \<noteq> p_work_restart_id pool)
             else if (if enabled_pools s \<le> 1 \<or> opt_fail_only s
                      then p_block_id pool \<noteq> 0 \<and> block_id \<noteq> p_block_id pool
                      else block_id \<noteq> bi_block_id (currentblk (g_blkchain goal))) then True
             else if w_work_restart_id w \<noteq> p_work_restart_id pool then True
             else p_has_stratum pool \<and> w_job_id w \<noteq> None \<and>
               (\<not> p_stratum_active pool \<or> \<not> p_stratum_notify pool \<or> w_job_id w \<noteq> sw_job_id (p_swork pool)));
          work_expiry = (if share then work_expiry
                         else if work_expiry \<le> uint_of_int (getwork_delay + 5) then 5
                         else work_expiry - getwork_delay)
      in if stale then True
         else if uint_of_int (timer_elapsed (w_tv_staged w) (now s)) > work_expiry then True
         else opt_fail_only s \<and> \<not> share \<and> \<not> w_mandatory w \<and> \<not> pool_actively_in_use s (w_pool w) None)"

definition stale_work_future :: "miner \<Rightarrow> work \<Rightarrow> bool \<Rightarrow> int \<Rightarrow> bool" where
  "stale_work_future s w share ustime =
     stale_work s (w\<lparr>w_tv_staged := timersub (w_tv_staged w) (tv (ustime div 1000000) (ustime mod 1000000))\<rparr>) share"

definition discard_stale :: "miner \<Rightarrow> miner" where
  "discard_stale s =
     fold (\<lambda>w s. if stale_work s w False then discard_work w (unstage_work w s) else s) (staged_work s) s"

definition restart_threads :: "miner \<Rightarrow> miner" where
  "restart_threads s =
     (let s = upd_pool (current_pool s) (\<lambda>p. p\<lparr>p_lagging := True\<rparr>) s;
          s = discard_stale s
      in s\<lparr>thr_work_restart := map (\<lambda>_. True) (thr_work_restart s)\<rparr>)"

section \<open>Copies of work\<close>

definition copy_work_noffset :: "work \<Rightarrow> int \<Rightarrow> miner \<Rightarrow> miner \<times> work" where
  "copy_work_noffset base_work noffset s =
     (let (s, w) = make_work s;
          (s, _) = clean_work w s;
          v = base_work\<lparr>w_id := w_id w\<rparr>;
          s = (case w_tr base_work of None \<Rightarrow> s | Some t \<Rightarrow> tmpl_incref t s);
          v = (if noffset \<noteq> 0
               then v\<lparr>w_data := pk_u32be (w_data v) 68 (upk_u32be (w_data v) 68 + word_of_int noffset)\<rparr> else v)
      in (s, v))"

definition update_last_work :: "work \<Rightarrow> miner \<Rightarrow> miner" where
  "update_last_work w s =
     (if w_tr w = None then s
      else let s = (case p_last_work_copy (the_pool s (w_pool w)) of None \<Rightarrow> s | Some v \<Rightarrow> free_work v s);
               (s, v) = copy_work_noffset w 0 s
           in upd_pool (w_pool w) (\<lambda>p. p\<lparr>p_last_work_copy := Some (v\<lparr>w_work_restart_id := p_work_restart_id p\<rparr>)\<rparr>) s)"

section \<open>A new block\<close>

definition pool_update_work_restart_time :: "nat \<Rightarrow> miner \<Rightarrow> miner" where
  "pool_update_work_restart_time pool s = upd_pool pool (\<lambda>p. p\<lparr>p_work_restart_time := tv_sec (now s)\<rparr>) s"

text \<open>The table with the new block: at most 7 blocks are kept.\<close>

definition add_block :: "env \<Rightarrow> block_info \<Rightarrow> block_info list \<Rightarrow> block_info list" where
  "add_block E b blocks =
     (if length blocks > 6 then tl (block_hash_sort E block_sort blocks) else blocks) @ [b]"

definition dudwork :: "work \<Rightarrow> bool" where
  "dudwork w \<longleftrightarrow> (\<forall>i\<in>set [8..<26]. w_data w ! i = 0)"

text \<open>The branch for a block that is not in the table; the flag says that it ends at \<^verbatim>\<open>out_free\<close>.\<close>

definition new_block :: "env \<Rightarrow> work \<Rightarrow> miner \<Rightarrow> miner" where
  "new_block E w s =
     (let block_id = upk_u32le (w_data w) 4;
          prevblkhash = take 0x20 (drop 4 (w_data w));
          goal = p_goal (the_pool s (w_pool w));
          b = \<lparr>bi_block_id = block_id, bi_prevblkhash = prevblkhash, bi_block_seen_order = new_blocks s, bi_height = 0,
               bi_first_seen_time = tv_sec (now s)\<rparr>;
          s = s\<lparr>new_blocks := new_blocks s + 1\<rparr>;
          s = upd_goal goal (\<lambda>g. g\<lparr>g_blkchain := (g_blkchain g)\<lparr>bc_blocks := add_block E b (bc_blocks (g_blkchain g))\<rparr>\<rparr>) s;
          s = set_blockdiff E goal w s;
          s = upd_pool (w_pool w) (\<lambda>p. p\<lparr>p_block_id := block_id\<rparr>) s;
          s = pool_update_work_restart_time (w_pool w) s
      in upd_goal goal (\<lambda>g. g\<lparr>g_blkchain := set_curblock b (g_blkchain g)\<rparr>) s)"

text \<open>The branch for a known block; the flag says whether the threads have to be restarted.\<close>

definition known_block :: "work \<Rightarrow> miner \<Rightarrow> miner" where
  "known_block w s =
     (let pool = w_pool w;
          block_id = upk_u32le (w_data w) 4;
          (s, restart) =
            (if p_block_id (the_pool s pool) \<noteq> block_id then
               (let was_active = (p_block_id (the_pool s pool) \<noteq> 0);
                    s = upd_pool pool (\<lambda>p. p\<lparr>p_block_id := block_id\<rparr>) s;
                    s = pool_update_work_restart_time pool s;
                    s = (if \<not> w_longpoll w then update_last_work w s else s)
                in (s, was_active \<and> pool = current_pool s))
             else (s, False));
          (s, restart) =
            (if w_longpoll w then
               (let cp = current_pool s;
                    s = upd_pool pool (\<lambda>p. p\<lparr>p_work_restart_id := p_work_restart_id p + 1\<rparr>) s;
                    s = upd_pool pool (\<lambda>p. if w_tr w \<noteq> None \<and> w_tr w = sw_tr (p_swork p)
                          then p\<lparr>p_swork := (p_swork p)\<lparr>sw_work_restart_id := p_work_restart_id p\<rparr>\<rparr> else p) s;
                    s = update_last_work w s;
                    s = pool_update_work_restart_time pool s
                in (s, if \<not> restart \<and> pool = cp then True else restart))
             else (s, restart))
      in if restart then restart_threads s else s)"

text \<open>The state, the work item and what the code returns.\<close>

definition test_work_current :: "env \<Rightarrow> work \<Rightarrow> miner \<Rightarrow> miner \<times> work \<times> bool" where
  "test_work_current E w s =
     (if w_mandatory w then (s, w, True)
      else if dudwork w then (s, w, True)
      else if block_exists (g_blkchain (pool_goal s (w_pool w))) (take 0x20 (drop 4 (w_data w))) = None then
        (let s = new_block E w s
         in if new_blocks s = 1 then (s, w, False)
            else (restart_threads s, w\<lparr>w_longpoll := False\<rparr>, False))
      else (known_block w s, w\<lparr>w_longpoll := False\<rparr>, True))"

section \<open>Stale work and the statistics of the pools\<close>

text \<open>What discarding and restarting change: flags and statistics, the table of staged work and the references to templates.\<close>

definition stats_change :: "miner \<Rightarrow> miner \<Rightarrow> bool" where
  "stats_change s t \<longleftrightarrow>
     (\<exists>d q k l. pstore t = (\<lambda>a. (the_pool s a)\<lparr>p_lagging := l a, p_discarded_work := d a, p_quota_used := q a, p_works := k a\<rparr>)) \<and>
     gstore t = gstore s \<and> pools t = pools s \<and> currentpool t = currentpool s \<and> enabled_pools t = enabled_pools s \<and>
     pool_strategy t = pool_strategy s \<and> opt_fail_only t = opt_fail_only s \<and> opt_scantime t = opt_scantime s \<and>
     opt_expiry t = opt_expiry s \<and> opt_expiry_lp t = opt_expiry_lp s \<and> now t = now s \<and> total_work t = total_work s \<and>
     new_blocks t = new_blocks s \<and> getq_frozen t = getq_frozen s \<and> thr_work_restart t = thr_work_restart s"

lemma stats_change_refl: "stats_change s s"
  unfolding stats_change_def
  by (intro conjI exI [of _ "\<lambda>a. p_discarded_work (the_pool s a)"] exI [of _ "\<lambda>a. p_quota_used (the_pool s a)"]
      exI [of _ "\<lambda>a. p_works (the_pool s a)"] exI [of _ "\<lambda>a. p_lagging (the_pool s a)"]) simp_all

lemma stats_change_lagging: "stats_change s (upd_pool b (\<lambda>p. p\<lparr>p_lagging := x\<rparr>) s)"
  unfolding stats_change_def
  by (intro conjI exI [of _ "\<lambda>a. p_discarded_work (the_pool s a)"] exI [of _ "\<lambda>a. p_quota_used (the_pool s a)"]
      exI [of _ "\<lambda>a. p_works (the_pool s a)"] exI [of _ "\<lambda>a. if a = b then x else p_lagging (the_pool s a)"]) (auto simp: upd_pool_def)

lemma stats_change_trans: "stats_change s t \<Longrightarrow> stats_change t u \<Longrightarrow> stats_change s u"
  by (fastforce simp: stats_change_def)

lemma stats_changeD:
  assumes "stats_change s t"
  shows "gstore t = gstore s" "pools t = pools s" "currentpool t = currentpool s" "enabled_pools t = enabled_pools s"
    "pool_strategy t = pool_strategy s" "opt_fail_only t = opt_fail_only s" "opt_scantime t = opt_scantime s"
    "opt_expiry t = opt_expiry s" "opt_expiry_lp t = opt_expiry_lp s" "now t = now s" "total_work t = total_work s"
    "new_blocks t = new_blocks s" "getq_frozen t = getq_frozen s" "thr_work_restart t = thr_work_restart s"
    "p_goal (the_pool t a) = p_goal (the_pool s a)" "p_block_id (the_pool t a) = p_block_id (the_pool s a)"
    "p_getwork_delay (the_pool t a) = p_getwork_delay (the_pool s a)" "p_submit_old (the_pool t a) = p_submit_old (the_pool s a)"
    "p_work_restart_id (the_pool t a) = p_work_restart_id (the_pool s a)" "p_has_stratum (the_pool t a) = p_has_stratum (the_pool s a)"
    "p_stratum_active (the_pool t a) = p_stratum_active (the_pool s a)" "p_stratum_notify (the_pool t a) = p_stratum_notify (the_pool s a)"
    "p_swork (the_pool t a) = p_swork (the_pool s a)" "p_prio (the_pool t a) = p_prio (the_pool s a)"
    "p_enabled (the_pool t a) = p_enabled (the_pool s a)" "p_idle (the_pool t a) = p_idle (the_pool s a)"
    "p_quota (the_pool t a) = p_quota (the_pool s a)" "p_failover_only (the_pool t a) = p_failover_only (the_pool s a)"
    "p_last_work_copy (the_pool t a) = p_last_work_copy (the_pool s a)" "p_pool_no (the_pool t a) = p_pool_no (the_pool s a)"
  using assms by (auto simp: stats_change_def)

lemma priority_pool_stats: "stats_change s t \<Longrightarrow> priority_pool t i = priority_pool s i"
  unfolding priority_pool_def by (simp only: stats_changeD)

lemma desired_from_stats: "stats_change s t \<Longrightarrow> desired_from t p i n = desired_from s p i n"
  by (induction n arbitrary: i) (simp_all add: Let_def priority_pool_stats pool_unusable_def stats_changeD)

lemma pool_actively_in_use_stats: "stats_change s t \<Longrightarrow> pool_actively_in_use t p cp = pool_actively_in_use s p cp"
  by (simp add: pool_actively_in_use_def pool_actively_desired_def pool_unworkable_def desired_from_stats stats_changeD Let_def
      split: option.split)

lemma stale_work_stats: "stats_change s t \<Longrightarrow> stale_work t w share = stale_work s w share"
  unfolding stale_work_def Let_def by (simp only: stats_changeD pool_actively_in_use_stats)

lemma stats_change_discard: "stats_change s (discard_work w (unstage_work w s))"
proof -
  have u: "stats_change s (unstage_work w s)"
    unfolding stats_change_def
    by (intro conjI exI [of _ "\<lambda>a. p_discarded_work (the_pool s a)"] exI [of _ "\<lambda>a. p_quota_used (the_pool s a)"]
      exI [of _ "\<lambda>a. p_works (the_pool s a)"] exI [of _ "\<lambda>a. p_lagging (the_pool s a)"]) (simp_all add: unstage_work_def Let_def upd_algo_def)
  have d: "stats_change v (upd_pool a (\<lambda>p. p\<lparr>p_discarded_work := p_discarded_work p + 1,
      p_quota_used := p_quota_used p - 1, p_works := p_works p - 1\<rparr>) v)" for a v
    unfolding stats_change_def
    by (intro conjI exI [of _ "\<lambda>b. if b = a then p_discarded_work (the_pool v a) + 1 else p_discarded_work (the_pool v b)"]
        exI [of _ "\<lambda>b. if b = a then p_quota_used (the_pool v a) - 1 else p_quota_used (the_pool v b)"]
        exI [of _ "\<lambda>b. if b = a then p_works (the_pool v a) - 1 else p_works (the_pool v b)"]
        exI [of _ "\<lambda>a. p_lagging (the_pool v a)"]) (auto simp: upd_pool_def)
  note d' = d [unfolded Suc_eq_plus1 [symmetric]]
  have td: "stats_change v (v\<lparr>total_discarded := n\<rparr>)" for v n
    using stats_change_refl [of v] by (simp add: stats_change_def)
  have f: "stats_change v (free_work w v)" for v
    using stats_change_refl [of v] by (simp add: stats_change_def free_work_def clean_work_def tmpl_decref_def split: option.split)
  have "stats_change v (discard_work w v)" for v
    unfolding discard_work_def Let_def
    by (intro stats_change_trans [OF _ f]) (use stats_change_trans [OF d' td] td stats_change_refl in simp)
  then show ?thesis using stats_change_trans [OF u] by blast
qed

section \<open>Discarding stale work\<close>

lemma discard_stale_fold:
  assumes "staged_ok s" "distinct ws" "set ws \<subseteq> set (staged_work s)"
  defines "t \<equiv> fold (\<lambda>w s. if stale_work s w False then discard_work w (unstage_work w s) else s) ws s"
  shows "staged_ok t \<and> stats_change s t \<and>
         staged_work t = List.filter (\<lambda>w. \<not> (w \<in> set ws \<and> stale_work s w False)) (staged_work s)"
  using assms(1-3) unfolding t_def
proof (induction ws arbitrary: s)
  case Nil
  then show ?case by (simp add: stats_change_refl)
next
  case (Cons w ws)
  define u where "u = (if stale_work s w False then discard_work w (unstage_work w s) else s)"
  have ok: "staged_ok u" using Cons.prems by (auto simp: u_def intro!: inv_intros)
  have ch: "stats_change s u" by (simp add: u_def stats_change_discard stats_change_refl)
  have "staged_work (discard_work w v) = staged_work v" for v by (simp add: discard_work_def Let_def)
  then have l: "staged_work u = List.filter (\<lambda>v. \<not> (v = w \<and> stale_work s w False)) (staged_work s)"
    using Cons.prems(1) by (simp add: u_def distinct_remove1_removeAll staged_distinct removeAll_filter_not_eq) (simp add: eq_commute)
  have sub: "distinct ws" "set ws \<subseteq> set (staged_work u)" using Cons.prems(2,3) by (auto simp: l)
  have "List.filter (\<lambda>v. \<not> (v \<in> set ws \<and> stale_work u v False)) (staged_work u) =
        List.filter (\<lambda>v. \<not> (v \<in> set (w # ws) \<and> stale_work s v False)) (staged_work s)"
    unfolding l filter_filter by (rule filter_cong) (auto simp: stale_work_stats [OF ch])
  then show ?case
    using Cons.IH [OF ok sub] stats_change_trans [OF ch] unfolding fold_simps(2) o_apply u_def [symmetric] by simp
qed

lemma discard_stale_result:
  assumes "staged_ok s"
  shows "staged_ok (discard_stale s)" "stats_change s (discard_stale s)"
    "staged_work (discard_stale s) = List.filter (\<lambda>w. \<not> stale_work s w False) (staged_work s)"
  using discard_stale_fold [OF assms staged_distinct [OF assms]] by (simp_all add: discard_stale_def cong: filter_cong)

section \<open>The counters of staged work under all of it\<close>

lemma staged_ok_malgo:
  assumes "staged_work s' = staged_work s" "staged_rollable s' = staged_rollable s" "staged_spare s' = staged_spare s"
    "astore s' = astore s" "total_work s \<le> total_work s'" "\<And>a. pool_malgo s' a = pool_malgo s a" "staged_ok s"
  shows "staged_ok s'"
proof -
  have "work_mining_algorithm s' = work_mining_algorithm s" using assms(6) by (auto simp: work_mining_algorithm_def)
  then show ?thesis using assms by (auto simp: staged_ok_def)
qed

text \<open>What the operations of this theory leave alone.\<close>

definition staged_same :: "miner \<Rightarrow> miner \<Rightarrow> bool" where
  "staged_same s t \<longleftrightarrow> staged_work t = staged_work s \<and> staged_rollable t = staged_rollable s \<and> staged_spare t = staged_spare s \<and>
     astore t = astore s \<and> total_work s \<le> total_work t \<and> (\<forall>a. pool_malgo t a = pool_malgo s a) \<and>
     (\<forall>a. p_goal (the_pool t a) = p_goal (the_pool s a)) \<and> getq_frozen t = getq_frozen s \<and> enabled_pools t = enabled_pools s \<and>
     opt_fail_only t = opt_fail_only s"

lemma staged_same_refl [simp]: "staged_same s s"
  by (simp add: staged_same_def)

lemma staged_same_trans: "staged_same s t \<Longrightarrow> staged_same t u \<Longrightarrow> staged_same s u"
  by (auto simp: staged_same_def)

lemma staged_same_ok: "staged_same s t \<Longrightarrow> staged_ok s \<Longrightarrow> staged_ok t"
  unfolding staged_same_def by (elim conjE, rule staged_ok_malgo) blast+

lemma staged_same_upd_pool: "(\<And>p. p_goal (f p) = p_goal p) \<Longrightarrow> staged_same s (upd_pool a f s)"
  by (simp add: staged_same_def)

lemma staged_same_upd_goal: "(\<And>g. g_malgo (f g) = g_malgo g) \<Longrightarrow> staged_same s (upd_goal a f s)"
  by (simp add: staged_same_def upd_goal_def)

lemma staged_same_free: "staged_same s (free_work w s)"
  by (simp add: staged_same_def free_work_def clean_work_def tmpl_decref_def split: option.split)

lemma staged_same_copy: "copy_work_noffset w n s = (t, v) \<Longrightarrow> staged_same s t"
  by (auto simp: copy_work_noffset_def make_work_def clean_work_def zero_work_def tmpl_incref_def Let_def staged_same_def split: option.splits)

lemma staged_same_update_last: "staged_same s (update_last_work w s)"
proof (cases "w_tr w = None")
  case True
  then show ?thesis by (simp add: update_last_work_def)
next
  case False
  define u where "u = (case p_last_work_copy (the_pool s (w_pool w)) of None \<Rightarrow> s | Some v \<Rightarrow> free_work v s)"
  obtain t v where c: "copy_work_noffset w 0 u = (t, v)" by fastforce
  have "staged_same s u" by (simp add: u_def staged_same_free split: option.split)
  then have st: "staged_same s t" using staged_same_copy [OF c] staged_same_trans by blast
  have "update_last_work w s = upd_pool (w_pool w) (\<lambda>p. p\<lparr>p_last_work_copy := Some (v\<lparr>w_work_restart_id := p_work_restart_id p\<rparr>)\<rparr>) t"
    unfolding update_last_work_def Let_def u_def [symmetric] c prod.case using False by (simp only: if_False)
  then show ?thesis using staged_same_trans [OF st] staged_same_upd_pool by simp
qed

lemma staged_same_new_block: "staged_same s (new_block E w s)"
  by (simp add: new_block_def set_blockdiff_def Let_def pool_update_work_restart_time_def staged_same_def upd_goal_def)

text \<open>Restarting the threads keeps the staged work that is not stale.\<close>

lemma restart_threads_result:
  assumes "staged_ok s"
  shows "staged_ok (restart_threads s)" "gstore (restart_threads s) = gstore s" "new_blocks (restart_threads s) = new_blocks s"
    "staged_work (restart_threads s) = List.filter (\<lambda>w. \<not> stale_work s w False) (staged_work s)"
    "set (thr_work_restart (restart_threads s)) \<subseteq> {True}" "total_work (restart_threads s) = total_work s"
    "p_goal (the_pool (restart_threads s) a) = p_goal (the_pool s a)" "getq_frozen (restart_threads s) = getq_frozen s"
    "p_work_restart_id (the_pool (restart_threads s) a) = p_work_restart_id (the_pool s a)"
    "p_block_id (the_pool (restart_threads s) a) = p_block_id (the_pool s a)"
proof -
  define u where "u = upd_pool (current_pool s) (\<lambda>p. p\<lparr>p_lagging := True\<rparr>) s"
  have u: "staged_ok u" unfolding u_def by (rule staged_same_ok [OF staged_same_upd_pool assms]) simp
  note d = discard_stale_result [OF u]
  have st: "stale_work u w b = stale_work s w b" for w b unfolding u_def by (rule stale_work_stats [OF stats_change_lagging])
  have su: "staged_work u = staged_work s" by (simp add: u_def)
  define v where "v = discard_stale u"
  have r: "restart_threads s = v\<lparr>thr_work_restart := map (\<lambda>_. True) (thr_work_restart v)\<rparr>"
    by (simp only: restart_threads_def Let_def u_def [symmetric] v_def [symmetric])
  show "staged_ok (restart_threads s)"
    by (rule staged_ok_cong [of _ v]) (use d(1) in \<open>simp_all add: r v_def\<close>)
  show "staged_work (restart_threads s) = List.filter (\<lambda>w. \<not> stale_work s w False) (staged_work s)"
    using d(3) by (simp add: r v_def st su)
  show "gstore (restart_threads s) = gstore s" "new_blocks (restart_threads s) = new_blocks s" "total_work (restart_threads s) = total_work s"
    "getq_frozen (restart_threads s) = getq_frozen s" "p_goal (the_pool (restart_threads s) a) = p_goal (the_pool s a)"
    "p_work_restart_id (the_pool (restart_threads s) a) = p_work_restart_id (the_pool s a)"
    "p_block_id (the_pool (restart_threads s) a) = p_block_id (the_pool s a)"
    using stats_changeD [OF d(2)] by (simp_all add: r v_def u_def)
  show "set (thr_work_restart (restart_threads s)) \<subseteq> {True}" by (auto simp: r)
qed

lemma known_block_result:
  assumes "staged_ok s"
  shows "staged_ok (known_block w s)" "gstore (known_block w s) = gstore s" "new_blocks (known_block w s) = new_blocks s"
    "set (staged_work (known_block w s)) \<subseteq> set (staged_work s)" "total_work s \<le> total_work (known_block w s)"
    "getq_frozen (known_block w s) = getq_frozen s" "p_goal (the_pool (known_block w s) a) = p_goal (the_pool s a)"
proof -
  have g: "gstore (update_last_work v s) = gstore s \<and> new_blocks (update_last_work v s) = new_blocks s" for v s
    by (simp add: update_last_work_def copy_work_noffset_def make_work_def clean_work_def zero_work_def tmpl_incref_def free_work_def tmpl_decref_def Let_def split: option.split)
  define keep where "keep t \<longleftrightarrow> staged_same s t \<and> gstore t = gstore s \<and> new_blocks t = new_blocks s" for t
  have k: "keep t \<Longrightarrow> keep (update_last_work v t)" "keep t \<Longrightarrow> keep (pool_update_work_restart_time a t)" for t v a
    using g staged_same_trans [OF _ staged_same_update_last] staged_same_trans [OF _ staged_same_upd_pool]
    by (auto simp: keep_def pool_update_work_restart_time_def)
  have k': "keep t \<Longrightarrow> (\<And>p. p_goal (f p) = p_goal p) \<Longrightarrow> keep (upd_pool a f t)" for t f a
    using staged_same_trans [OF _ staged_same_upd_pool] by (auto simp: keep_def)
  have "keep s" by (simp add: keep_def)
  define A where "A = (if p_block_id (the_pool s (w_pool w)) \<noteq> upk_u32le (w_data w) 4 then
       (let was_active = (p_block_id (the_pool s (w_pool w)) \<noteq> 0);
            s = upd_pool (w_pool w) (\<lambda>p. p\<lparr>p_block_id := upk_u32le (w_data w) 4\<rparr>) s;
            s = pool_update_work_restart_time (w_pool w) s;
            s = (if \<not> w_longpoll w then update_last_work w s else s)
        in (s, was_active \<and> w_pool w = current_pool s)) else (s, False))"
  define B where "B u r = (if w_longpoll w then
               (let cp = current_pool u;
                    s = upd_pool (w_pool w) (\<lambda>p. p\<lparr>p_work_restart_id := p_work_restart_id p + 1\<rparr>) u;
                    s = upd_pool (w_pool w) (\<lambda>p. if w_tr w \<noteq> None \<and> w_tr w = sw_tr (p_swork p)
                          then p\<lparr>p_swork := (p_swork p)\<lparr>sw_work_restart_id := p_work_restart_id p\<rparr>\<rparr> else p) s;
                    s = update_last_work w s;
                    s = pool_update_work_restart_time (w_pool w) s
                in (s, if \<not> r \<and> w_pool w = cp then True else r)) else (u, r))" for u r
  obtain u r where A: "A = (u, r)" by fastforce
  obtain v q where B: "B u r = (v, q)" by fastforce
  have "keep (fst A)" using \<open>keep s\<close> by (simp add: A_def Let_def k k')
  then have "keep (fst (B u r))" using A by (simp add: B_def Let_def k k')
  moreover have "known_block w s = (if q then restart_threads v else v)"
    unfolding known_block_def Let_def [of "w_pool w"] Let_def [of "upk_u32le (w_data w) 4"] A_def [symmetric] A B_def [symmetric]
    by (simp add: B)
  ultimately have "\<exists>t. keep t \<and> (known_block w s = t \<or> known_block w s = restart_threads t)"
    using B by (cases q) auto
  then obtain t where t: "keep t" "known_block w s = t \<or> known_block w s = restart_threads t" by blast
  have ok: "staged_ok t" using t(1) staged_same_ok assms unfolding keep_def by blast
  note r = restart_threads_result [OF ok]
  show "staged_ok (known_block w s)" "gstore (known_block w s) = gstore s" "new_blocks (known_block w s) = new_blocks s"
    "set (staged_work (known_block w s)) \<subseteq> set (staged_work s)" "total_work s \<le> total_work (known_block w s)"
    "getq_frozen (known_block w s) = getq_frozen s" "p_goal (the_pool (known_block w s) a) = p_goal (the_pool s a)"
    using t(2)
    by (elim disjE; simp add: r ok t(1) [unfolded keep_def staged_same_def] filter_is_subset)+
qed

section \<open>The table of blocks\<close>

definition blocks_ok :: "blockchain_info \<Rightarrow> bool" where
  "blocks_ok bc \<longleftrightarrow> distinct (map bi_prevblkhash (bc_blocks bc)) \<and> length (bc_blocks bc) \<le> 7 \<and>
     bc_currentblk bc \<in> bi_prevblkhash ` set (bc_blocks bc)"

lemma blocks_ok_init: "bc_blocks bc = [] \<Longrightarrow> blocks_ok (blkchain_init_block bc)"
  by (simp add: blocks_ok_def blkchain_init_block_def Let_def)

lemma mining_goal_reset_blocks:
  "(\<forall>g. blocks_ok (g_blkchain (gstore s g))) \<Longrightarrow> blocks_ok (g_blkchain (gstore (mining_goal_reset goal s) g))"
  by (simp add: mining_goal_reset_def upd_goal_def blocks_ok_init)

lemma set_tl_subset: "x \<in> set (tl xs) \<Longrightarrow> x \<in> set xs"
  by (cases xs) auto

lemma add_block_ok:
  assumes "distinct (map bi_prevblkhash bs)" "length bs \<le> 7" "bi_prevblkhash b \<notin> bi_prevblkhash ` set bs"
    and "sorts (block_hash_sort E) block_sort"
  shows "distinct (map bi_prevblkhash (add_block E b bs))" "length (add_block E b bs) \<le> 7"
    "set (add_block E b bs) \<subseteq> insert b (set bs)" "b \<in> set (add_block E b bs)"
proof -
  define ys where "ys = (if length bs > 6 then tl (block_hash_sort E block_sort bs) else bs)"
  have m: "mset (block_hash_sort E block_sort bs) = mset bs" using assms(4) by (simp add: sorts_def)
  have l: "length (block_hash_sort E block_sort bs) = length bs" using m by (metis size_mset)
  have "mset (map bi_prevblkhash (block_hash_sort E block_sort bs)) = mset (map bi_prevblkhash bs)" using m by simp
  then have d: "distinct (map bi_prevblkhash (block_hash_sort E block_sort bs))"
    using assms(1) mset_eq_imp_distinct_iff by blast
  have tl: "set (tl (block_hash_sort E block_sort bs)) \<subseteq> set bs"
    unfolding mset_eq_setD [OF m, symmetric] by (auto dest: set_tl_subset)
  have ys: "distinct (map bi_prevblkhash ys)" "length ys \<le> 6" "set ys \<subseteq> set bs"
  proof -
    show "distinct (map bi_prevblkhash ys)" using assms(1) distinct_tl [OF d] by (simp add: ys_def map_tl)
    show "length ys \<le> 6" using assms(2) l by (auto simp: ys_def)
    show "set ys \<subseteq> set bs" using tl by (simp add: ys_def)
  qed
  have a: "add_block E b bs = ys @ [b]" by (simp add: add_block_def ys_def)
  show "distinct (map bi_prevblkhash (add_block E b bs))" using ys(1,3) assms(3) by (auto simp: a)
  show "length (add_block E b bs) \<le> 7" "set (add_block E b bs) \<subseteq> insert b (set bs)" "b \<in> set (add_block E b bs)"
    using ys(2,3) by (auto simp: a)
qed

text \<open>What the table and the goal are after a new block.\<close>

lemma new_block_goal:
  fixes s :: miner and w :: work
  defines "G \<equiv> p_goal (the_pool s (w_pool w))"
  assumes inv: "\<forall>g. blocks_ok (g_blkchain (gstore s g))" and srt: "sorts (block_hash_sort E) block_sort"
    and new: "block_exists (g_blkchain (gstore s G)) (take 0x20 (drop 4 (w_data w))) = None"
  defines "t \<equiv> new_block E w s"
  shows "blocks_ok (g_blkchain (gstore t g))" "bi_block_id (currentblk (g_blkchain (gstore t G))) = upk_u32le (w_data w) 4"
    "bi_prevblkhash (currentblk (g_blkchain (gstore t G))) = take 0x20 (drop 4 (w_data w))"
    "g \<noteq> G \<Longrightarrow> gstore t g = gstore s g" "new_blocks t = new_blocks s + 1"
    "p_block_id (the_pool t (w_pool w)) = upk_u32le (w_data w) 4"
proof -
  define h where "h = take 0x20 (drop 4 (w_data w))"
  define b where "b = \<lparr>bi_block_id = upk_u32le (w_data w) 4, bi_prevblkhash = h, bi_block_seen_order = new_blocks s, bi_height = 0,
               bi_first_seen_time = tv_sec (now s)\<rparr>"
  define bs where "bs = bc_blocks (g_blkchain (gstore s G))"
  have h: "h \<notin> bi_prevblkhash ` set bs" using new by (auto simp: block_exists_def find_None_iff h_def bs_def)
  have ok: "distinct (map bi_prevblkhash bs)" "length bs \<le> 7" using inv by (auto simp: blocks_ok_def bs_def)
  have hb: "bi_prevblkhash b = h" by (simp add: b_def)
  note a = add_block_ok [OF ok h [folded hb] srt]
  have g: "gstore t g = (if g = G then (gstore s G)\<lparr>g_blkchain := set_curblock b ((g_blkchain (gstore s G))\<lparr>bc_blocks := add_block E b bs\<rparr>),
      g_current_diff := target_diff E (real_block_target (w_data w))\<rparr> else gstore s g)" for g
    by (simp add: t_def new_block_def set_blockdiff_def Let_def upd_goal_def pool_update_work_restart_time_def G_def b_def h_def bs_def)
  have "blocks_ok (set_curblock b ((g_blkchain (gstore s G))\<lparr>bc_blocks := add_block E b bs\<rparr>))"
    using a by (simp add: blocks_ok_def set_curblock_def)
  then show "blocks_ok (g_blkchain (gstore t g))" using inv by (simp add: g)
  have "List.find (\<lambda>c. bi_prevblkhash c = h) (add_block E b bs) \<noteq> None"
    using a(4) by (auto simp: find_None_iff b_def)
  then obtain c where c: "List.find (\<lambda>c. bi_prevblkhash c = h) (add_block E b bs) = Some c" by blast
  then have "c \<in> set (add_block E b bs)" "bi_prevblkhash c = h" by (auto simp: find_Some_iff)
  then have "c = b" using a(3) h by auto
  then have "currentblk (g_blkchain (gstore t G)) = b"
    using c by (simp add: g currentblk_def block_exists_def set_curblock_def b_def)
  then show "bi_block_id (currentblk (g_blkchain (gstore t G))) = upk_u32le (w_data w) 4"
    "bi_prevblkhash (currentblk (g_blkchain (gstore t G))) = take 0x20 (drop 4 (w_data w))"
    by (simp_all add: b_def h_def)
  show "g \<noteq> G \<Longrightarrow> gstore t g = gstore s g" by (simp add: g)
  show "new_blocks t = new_blocks s + 1" "p_block_id (the_pool t (w_pool w)) = upk_u32le (w_data w) 4"
    by (simp_all add: t_def new_block_def set_blockdiff_def Let_def upd_goal_def pool_update_work_restart_time_def upd_pool_def)
qed


text \<open>Work for a known block leaves the table of blocks alone, and whatever it restarts, staged work is only
  taken away and the counters still count.\<close>

theorem test_work_current_known_block:
  assumes ok: "staged_ok s" and old: "block_exists (g_blkchain (pool_goal s (w_pool w))) (take 0x20 (drop 4 (w_data w))) \<noteq> None"
    and t: "test_work_current E w s = (t, v, known)"
  shows "known \<and> staged_ok t \<and> gstore t = gstore s \<and> new_blocks t = new_blocks s \<and> set (staged_work t) \<subseteq> set (staged_work s)"
proof -
  have "t = s \<or> t = known_block w s" "known"
    using t old by (auto simp: test_work_current_def split: if_splits)
  then show ?thesis using known_block_result [OF ok, of w] ok by auto
qed

end
