(* ===== verification/Shares.thy ===== *)
theory Shares
  imports Blocks
begin

text \<open>
  What happens to a nonce a device has found (\<^verbatim>\<open>miner.c\<close>): its hash is tested, the statistics are kept,
  the work is queued for submission, and the answer of the pool is counted. A processor is known by its
  address in \<open>cgpus\<close>; the callback of a driver on a hardware error, log files and messages are left out.
  A sum of two \<^verbatim>\<open>double\<close> is rounded.
\<close>

section \<open>JSON values\<close>

text \<open>
  The answer of a pool consists of values of jansson, which are only seen through its functions. A
  pointer to a value may be null: it is an option, and \<^verbatim>\<open>json_is_null\<close> and its like are false of a null pointer.
\<close>

record 'j json_api =
  json_null :: 'j
  json_string :: "string \<Rightarrow> 'j"
  is_null :: "'j \<Rightarrow> bool"
  is_true :: "'j \<Rightarrow> bool"
  is_array :: "'j \<Rightarrow> bool"
  is_number :: "'j \<Rightarrow> bool"
  array_size :: "'j \<Rightarrow> nat"
  array_get :: "'j \<Rightarrow> nat \<Rightarrow> 'j option"
  number_value :: "'j \<Rightarrow> int"

definition json_is :: "('j \<Rightarrow> bool) \<Rightarrow> 'j option \<Rightarrow> bool" where
  "json_is p v = (case v of None \<Rightarrow> False | Some j \<Rightarrow> p j)"

section \<open>Statistics\<close>

definition dadd :: "env \<Rightarrow> rat \<Rightarrow> rat \<Rightarrow> rat" where
  "dadd E x y = rnd_double E (x + y)"

definition upd_cgpu :: "nat \<Rightarrow> (cgpu_info \<Rightarrow> cgpu_info) \<Rightarrow> miner \<Rightarrow> miner" where
  "upd_cgpu a f s = s\<lparr>cgpus := (cgpus s)(a := f (cgpus s a))\<rparr>"

definition upd_stats :: "nat \<Rightarrow> (pool_stats \<Rightarrow> pool_stats) \<Rightarrow> miner \<Rightarrow> miner" where
  "upd_stats pool f s = upd_pool pool (\<lambda>p. p\<lparr>p_stats := f (p_stats p)\<rparr>) s"

definition upd_gstats :: "(global_stats \<Rightarrow> global_stats) \<Rightarrow> miner \<Rightarrow> miner" where
  "upd_gstats f s = s\<lparr>gstats := f (gstats s)\<rparr>"

definition inc_hw_errors3 :: "env \<Rightarrow> int \<Rightarrow> bool \<Rightarrow> rat \<Rightarrow> miner \<Rightarrow> miner" where
  "inc_hw_errors3 E thr bad_nonce nonce_diff s =
     (let cgpu = get_thr_cgpu E thr;
          s = upd_gstats (\<lambda>g. g\<lparr>hw_errors := hw_errors g + 1\<rparr>) s;
          s = upd_cgpu cgpu (\<lambda>c. c\<lparr>c_hw_errors := c_hw_errors c + 1\<rparr>) s
      in if bad_nonce
         then upd_cgpu cgpu (\<lambda>c. c\<lparr>c_bad_diff1 := dadd E (c_bad_diff1 c) nonce_diff\<rparr>)
                (upd_gstats (\<lambda>g. g\<lparr>total_bad_diff1 := dadd E (total_bad_diff1 g) nonce_diff\<rparr>) s)
         else s)"

text \<open>The call with a nonce; without a work item the nonce is not counted.\<close>

definition inc_hw_errors :: "env \<Rightarrow> int \<Rightarrow> work option \<Rightarrow> miner \<Rightarrow> miner" where
  "inc_hw_errors E thr w s =
     inc_hw_errors3 E thr (w \<noteq> None) (case w of Some w \<Rightarrow> w_nonce_diff w | None \<Rightarrow> 1) s"

definition share_diff :: "env \<Rightarrow> work \<Rightarrow> miner \<Rightarrow> miner \<times> rat" where
  "share_diff E w s =
     (let ret = target_diff E (w_hash w);
          s = (if ret > best_diff (gstats s) then upd_gstats (\<lambda>g. g\<lparr>best_diff := ret\<rparr>) s else s);
          s = (if ret > ps_best_diff (p_stats (the_pool s (w_pool w)))
               then upd_stats (w_pool w) (\<lambda>p. p\<lparr>ps_best_diff := ret\<rparr>) s else s)
      in (s, ret))"

definition work_check_for_block :: "env \<Rightarrow> work \<Rightarrow> miner \<Rightarrow> miner \<times> work" where
  "work_check_for_block E w s =
     (let goal = p_goal (the_pool s (w_pool w));
          (s, d) = share_diff E w s;
          w = w\<lparr>w_share_diff := d\<rparr>
      in if w_share_diff w \<ge> g_current_diff (gstore s goal)
         then (let w = w\<lparr>w_block := True\<rparr>;
                   s = upd_pool (w_pool w) (\<lambda>p. p\<lparr>p_solved := p_solved p + 1\<rparr>) s;
                   s = s\<lparr>found_blocks := found_blocks s + 1\<rparr>
               in (s, w\<lparr>w_mandatory := True\<rparr>))
         else (s, w))"

definition submit_discard_share :: "env \<Rightarrow> work \<Rightarrow> miner \<Rightarrow> miner" where
  "submit_discard_share E w s =
     (let s = upd_gstats (\<lambda>g. g\<lparr>total_stale := total_stale g + 1, total_diff_stale := dadd E (total_diff_stale g) (w_work_difficulty w)\<rparr>) s;
          s = upd_cgpu (get_thr_cgpu E (w_thr_id w))
                (\<lambda>c. c\<lparr>c_stale := c_stale c + 1, c_diff_stale := dadd E (c_diff_stale c) (w_work_difficulty w)\<rparr>) s
      in upd_stats (w_pool w)
           (\<lambda>p. p\<lparr>ps_stale_shares := ps_stale_shares p + 1, ps_diff_stale := dadd E (ps_diff_stale p) (w_work_difficulty w)\<rparr>) s)"

section \<open>Testing a nonce\<close>

datatype test_nonce2_result = TNR_GOOD | TNR_HIGH | TNR_BAD

definition work_hash :: "env \<Rightarrow> miner \<Rightarrow> work \<Rightarrow> work" where
  "work_hash E s w = w\<lparr>w_hash := hash_data_f E (work_mining_algorithm s w) (w_data w)\<rparr>"

text \<open>The bound on the top word of the hash for a difficulty below 1.\<close>

definition Htarg :: "env \<Rightarrow> rat \<Rightarrow> u32" where
  "Htarg E diff = word_of_int \<lceil>rnd_double E (rnd_double E (1 / diff) - 1)\<rceil>"

definition test_nonce2 :: "env \<Rightarrow> miner \<Rightarrow> work \<Rightarrow> u32 \<Rightarrow> bool \<Rightarrow> work \<times> test_nonce2_result" where
  "test_nonce2 E s w nonce checktarget =
     (let w = w\<lparr>w_data := pk_u32le (w_data w) 76 nonce\<rparr>;
          w = work_hash E s w
      in if \<not> test_hash (w_nonce_diff w \<ge> 1) (Htarg E (w_nonce_diff w)) (w_hash w) then (w, TNR_BAD)
         else if checktarget \<and> \<not> hash_target_check_v (w_hash w) (w_target w) then
           (let pool = the_pool s (w_pool w)
            in if pool_diff_effective_retroactively pool \<and> p_next_target pool \<noteq> w_target w \<and>
                  hash_target_check_v (w_hash w) (p_next_target pool)
               then (w\<lparr>w_work_difficulty := target_diff E (p_next_target pool)\<rparr>, TNR_GOOD)
               else (w, TNR_HIGH))
         else (w, TNR_GOOD))"

text \<open>
  \<^verbatim>\<open>abandon_work\<close>: whether the scan of a work item stops, \<open>max_hashes\<close> being what the next call of the
  driver may try.
\<close>

definition abandon_work :: "miner \<Rightarrow> work \<Rightarrow> timeval \<Rightarrow> u64 \<Rightarrow> bool" where
  "abandon_work s w wdiff max_hashes \<longleftrightarrow>
     w_blk_nonce w = 0xffffffff \<or> tv_sec wdiff > opt_scantime s \<or>
     (ucast (w_blk_nonce w) :: u64) \<ge> 0xfffffffe - max_hashes \<or> max_hashes \<ge> 0xfffffffe \<or> stale_work s w False"

section \<open>The answer of the pool\<close>

text \<open>Appending to the list the submission thread reads.\<close>

definition queue_submission :: "work \<Rightarrow> miner \<Rightarrow> miner" where
  "queue_submission w s = s\<lparr>total_submitting := total_submitting s + 1, submit_waiting := submit_waiting s @ [w]\<rparr>"

text \<open>
  A block made from a template is submitted to the pools marked \<^verbatim>\<open>allblocks\<close> as well. Benchmark work
  has no template, so the submission is queued.
\<close>

definition maybe_local_submit :: "work \<Rightarrow> miner \<Rightarrow> miner" where
  "maybe_local_submit w s =
     (if w_block w \<and> w_tr w \<noteq> None
      then fold (\<lambda>i s. if \<not> uri_get_param_bool (p_rpc_url (the_pool s (pools s ! i))) ''allblocks'' False then s
                       else let (s, work_cp) = copy_work_noffset w 0 s
                            in queue_submission (work_cp\<lparr>w_pool := pools s ! i, w_do_foreign_submit := True\<rparr>) s)
             [0..<total_pools s] s
      else s)"

text \<open>\<^verbatim>\<open>kill_work\<close> ends the program.\<close>

definition kill_work :: "miner \<Rightarrow> miner" where
  "kill_work s = s\<lparr>shutting_down := True\<rparr>"

text \<open>The work that stands for the block just found: version, bits and time of the share, its hash as previous block.\<close>

definition fakework :: "work \<Rightarrow> work" where
  "fakework w =
     (let data = w_data zero_work;
          data = mem_write data 0 (take 4 (w_data w));
          data = mem_write data 68 (take 8 (drop 68 (w_data w)));
          data = mem_write data 4 (swap32yes (w_hash w) (32 div 4))
      in zero_work\<lparr>w_pool := w_pool w, w_data := data\<rparr>)"

definition share_accepted :: "env \<Rightarrow> work \<Rightarrow> miner \<Rightarrow> miner" where
  "share_accepted E w s =
     (let pool = w_pool w;
          cgpu = get_thr_cgpu E (w_thr_id w);
          diff = w_work_difficulty w;
          s = upd_cgpu cgpu (\<lambda>c. c\<lparr>c_accepted := c_accepted c + 1, c_diff_accepted := dadd E (c_diff_accepted c) diff\<rparr>) s;
          s = upd_gstats (\<lambda>g. g\<lparr>total_accepted := total_accepted g + 1, total_diff_accepted := dadd E (total_diff_accepted g) diff\<rparr>) s;
          s = upd_stats pool (\<lambda>p. p\<lparr>ps_accepted := ps_accepted p + 1, ps_diff_accepted := dadd E (ps_diff_accepted p) diff\<rparr>) s;
          s = upd_goal (p_goal (the_pool s pool)) (\<lambda>g. g\<lparr>g_diff_accepted := dadd E (g_diff_accepted g) diff\<rparr>) s;
          s = upd_pool pool (\<lambda>p. p\<lparr>p_seq_rejects := 0\<rparr>) s;
          s = upd_cgpu cgpu (\<lambda>c. c\<lparr>c_last_share_pool := p_pool_no (the_pool s pool), c_last_share_pool_time := tv_sec (now s),
                c_last_share_diff := diff\<rparr>) s
      in upd_stats pool (\<lambda>p. p\<lparr>ps_last_share_time := tv_sec (now s), ps_last_share_diff := diff\<rparr>) s)"

definition share_rejected :: "env \<Rightarrow> work \<Rightarrow> miner \<Rightarrow> miner" where
  "share_rejected E w s =
     (let pool = w_pool w;
          diff = w_work_difficulty w;
          s = upd_cgpu (get_thr_cgpu E (w_thr_id w))
                (\<lambda>c. c\<lparr>c_rejected := c_rejected c + 1, c_diff_rejected := dadd E (c_diff_rejected c) diff\<rparr>) s;
          s = upd_gstats (\<lambda>g. g\<lparr>total_rejected := total_rejected g + 1, total_diff_rejected := dadd E (total_diff_rejected g) diff\<rparr>) s;
          s = upd_stats pool (\<lambda>p. p\<lparr>ps_rejected := ps_rejected p + 1, ps_diff_rejected := dadd E (ps_diff_rejected p) diff\<rparr>) s;
          s = upd_pool pool (\<lambda>p. p\<lparr>p_seq_rejects := p_seq_rejects p + 1\<rparr>) s
      in if p_seq_rejects (the_pool s pool) > 10 \<and> \<not> w_stale w \<and> opt_disable_pool s \<and> enabled_pools s > 1
         then (let utility = rnd_double E (rnd_double E (of_int (total_accepted (gstats s)) / total_secs (gstats s)) * 60)
               in if of_int (p_seq_rejects (the_pool s pool)) > rnd_double E (utility * 3)
                  then upd_pool pool (\<lambda>p. p\<lparr>p_seq_rejects := 0\<rparr>) (disable_pool pool POOL_REJECTING s)
                  else s)
         else s)"

text \<open>Stratum error 23: the difficulty is too low.\<close>

definition low_difficulty_error :: "'j json_api \<Rightarrow> work \<Rightarrow> 'j option \<Rightarrow> bool" where
  "low_difficulty_error J w err \<longleftrightarrow>
     w_stratum w \<and> json_is (is_array J) err \<and> array_size J (the err) \<ge> 1 \<and>
     json_is (\<lambda>errnum. is_number J errnum \<and> number_value J errnum = 23) (array_get J (the err) 0)"

definition share_result :: "env \<Rightarrow> 'j json_api \<Rightarrow> 'j option \<Rightarrow> 'j option \<Rightarrow> work \<Rightarrow> miner \<Rightarrow> miner" where
  "share_result E J res err w s =
     (let pool = w_pool w
      in if (json_is (is_null J) err \<or> err = None) \<and> (json_is (is_null J) res \<or> json_is (is_true J) res) then
           (let s = share_accepted E w s
            in if opt_shares s \<noteq> 0 \<and> total_diff_accepted (gstats s) \<ge> opt_shares s then kill_work s
               else let s = (if p_enabled (the_pool s pool) = POOL_REJECTING then enable_pool pool s else s);
                        s = (if w_block w then fst (test_work_current E (fakework w) s) else s)
                    in maybe_local_submit w s)
         else if \<not> hash_target_check (w_hash w) (w_target w) then
           (let s = (if p_diff_effective_retroactively (the_pool s pool) = BTS_UNKNOWN \<and> low_difficulty_error J w err
                     then upd_pool pool (\<lambda>p. p\<lparr>p_diff_effective_retroactively := BTS_FALSE\<rparr>) s else s)
            in maybe_local_submit w s)
         else maybe_local_submit w (share_rejected E w s))"

section \<open>Submitting a nonce\<close>

text \<open>
  In benchmark mode the program answers the share itself: it rejects a hash it has seen within the last
  337.5 seconds and stale work. Of the reason only its first word is kept.
\<close>

definition benchmark_submit :: "env \<Rightarrow> 'j json_api \<Rightarrow> work \<Rightarrow> miner \<Rightarrow> miner" where
  "benchmark_submit E J w s =
     (let jn = json_null J;
          (s, w) = work_check_for_block E w s;
          (s, result) =
            (if w_hash w \<in> fst ` set (dupe_hashes s) then (s, Some (json_string J ''duplicate''))
             else (s\<lparr>dupe_hashes := dropWhile (\<lambda>(_, tv_prune). timer_passed tv_prune (now s)) (dupe_hashes s) @
                       [(w_hash w, timer_set_delay (now s) 337500000)]\<rparr>, None));
          result = (if result \<noteq> None then result
                    else if stale_work s w True then Some (json_string J ''stale'')
                    else Some jn);
          s = share_result E J result (Some jn) w s
      in free_work w s)"

definition submit_work_async :: "env \<Rightarrow> 'j json_api \<Rightarrow> work \<Rightarrow> miner \<Rightarrow> miner" where
  "submit_work_async E J w s = (if opt_benchmark s then benchmark_submit E J w s else queue_submission w s)"

definition submit_noffset_nonce :: "env \<Rightarrow> 'j json_api \<Rightarrow> int \<Rightarrow> work \<Rightarrow> u32 \<Rightarrow> int \<Rightarrow> miner \<Rightarrow> miner \<times> bool" where
  "submit_noffset_nonce E J thr work_in nonce noffset s =
     (let (s, w) = copy_work_noffset work_in noffset s;
          tv_work_found = now s;
          w = w\<lparr>w_data := pk_u32le (w_data w) 76 nonce, w_thr_id := thr\<rparr>;
          (w, res) = test_nonce2 E s w nonce True
      in if res = TNR_BAD then (free_work w (inc_hw_errors E thr (Some w) s), False)
         else let s = upd_gstats (\<lambda>g. g\<lparr>total_diff1 := dadd E (total_diff1 g) (w_nonce_diff w)\<rparr>) s;
                  s = upd_cgpu (get_thr_cgpu E thr) (\<lambda>c. c\<lparr>c_diff1 := dadd E (c_diff1 c) (w_nonce_diff w)\<rparr>) s;
                  s = upd_stats (w_pool w) (\<lambda>p. p\<lparr>ps_diff1 := dadd E (ps_diff1 p) (w_nonce_diff w)\<rparr>) s;
                  s = upd_cgpu (get_thr_cgpu E thr) (\<lambda>c. c\<lparr>c_last_device_valid_work := tv_sec (now s)\<rparr>) s
              in if res = TNR_HIGH then (free_work w (fst (share_diff E w s)), True)
                 else (submit_work_async E J (w\<lparr>w_tv_work_found := tv_work_found\<rparr>) s, True))"

definition submit_nonce :: "env \<Rightarrow> 'j json_api \<Rightarrow> int \<Rightarrow> work \<Rightarrow> u32 \<Rightarrow> miner \<Rightarrow> miner \<times> bool" where
  "submit_nonce E J thr w nonce s = submit_noffset_nonce E J thr w nonce 0 s"

section \<open>What pool management and blocks leave alone\<close>

text \<open>The statistics and the shares on their way to a pool.\<close>

definition share_view :: "miner \<Rightarrow> global_stats \<times> (nat \<Rightarrow> cgpu_info) \<times> work list \<times> int \<times> (int \<times> work) list \<times> int \<times> int \<times> (nat \<Rightarrow> pool_stats)" where
  "share_view s = (gstats s, cgpus s, submit_waiting s, total_submitting s, stratum_shares s, swork_id s, opt_retries s,
     \<lambda>a. p_stats (the_pool s a))"

named_theorems view_simps

lemma share_view_upd_pool [view_simps]: "(\<And>p. p_stats (f p) = p_stats p) \<Longrightarrow> share_view (upd_pool a f s) = share_view s"
  by (auto simp: share_view_def upd_pool_def)

lemma share_view_upd [view_simps]:
  "share_view (upd_goal a g s) = share_view s" "share_view (upd_algo a h s) = share_view s"
  "share_view (s\<lparr>currentpool := c\<rparr>) = share_view s" "share_view (s\<lparr>enabled_pools := n\<rparr>) = share_view s"
  "share_view (s\<lparr>staged_work := l\<rparr>) = share_view s" "share_view (s\<lparr>staged_rollable := n\<rparr>) = share_view s"
  "share_view (s\<lparr>staged_spare := n\<rparr>) = share_view s" "share_view (s\<lparr>staged_full := b\<rparr>) = share_view s"
  "share_view (s\<lparr>total_work := n\<rparr>) = share_view s" "share_view (s\<lparr>total_discarded := n\<rparr>) = share_view s"
  "share_view (s\<lparr>new_blocks := m\<rparr>) = share_view s" "share_view (s\<lparr>thr_work_restart := r\<rparr>) = share_view s"
  "share_view (s\<lparr>tmpl_refs := t\<rparr>) = share_view s" "share_view (s\<lparr>found_blocks := n\<rparr>) = share_view s"
  "share_view (s\<lparr>shutting_down := b\<rparr>) = share_view s"
  by (simp_all add: share_view_def upd_goal_def upd_algo_def)

lemma share_view_fold: "(\<And>x s. share_view (f x s) = share_view s) \<Longrightarrow> share_view (fold f xs s) = share_view s"
  by (induction xs arbitrary: s) simp_all

lemma share_view_work [view_simps]:
  "share_view (free_work w s) = share_view s" "share_view (unstage_work w s) = share_view s"
  "share_view (fst (copy_work_noffset w n s)) = share_view s" "share_view (discard_work w s) = share_view s"
  by (simp_all add: free_work_def clean_work_def tmpl_decref_def tmpl_incref_def copy_work_noffset_def make_work_def zero_work_def
      unstage_work_def discard_work_def Let_def view_simps split: option.split)

lemma share_view_clear_pool_work [view_simps]: "share_view (clear_pool_work pool s) = share_view s"
  unfolding clear_pool_work_def by (rule share_view_fold) (simp add: view_simps Let_def)

lemma share_view_make_first [view_simps]: "share_view (make_first a s) = share_view s"
  unfolding make_first_def raise_below_def
  by (auto intro!: share_view_fold simp: view_simps)

lemma share_view_switch [view_simps]:
  "share_view (switch_pools_enabled sel s) = share_view s"
  by (simp add: switch_pools_enabled_def Let_def view_simps split: option.split)

lemma share_view_pools [view_simps]:
  "share_view (enable_pool a s) = share_view s" "share_view (switch_pools sel s) = share_view s"
  "share_view (disable_pool a st s) = share_view s"
  by (simp_all add: enable_pool_def switch_pools_def disable_pool_def Let_def view_simps split: option.split)

lemma share_view_blocks [view_simps]:
  "share_view (discard_stale s) = share_view s" "share_view (restart_threads s) = share_view s"
  "share_view (pool_update_work_restart_time a s) = share_view s" "share_view (new_block E w s) = share_view s"
  "share_view (update_last_work w s) = share_view s"
proof -
  show d: "share_view (discard_stale s) = share_view s" for s
    unfolding discard_stale_def by (rule share_view_fold) (simp add: view_simps)
  show "share_view (restart_threads s) = share_view s" by (simp add: restart_threads_def Let_def view_simps d)
  show p: "share_view (pool_update_work_restart_time a s) = share_view s" for a s
    by (simp add: pool_update_work_restart_time_def view_simps)
  show "share_view (new_block E w s) = share_view s" by (simp add: new_block_def set_blockdiff_def Let_def view_simps p)
  show "share_view (update_last_work w s) = share_view s"
    using share_view_work(3)
    by (simp add: update_last_work_def Let_def view_simps case_prod_unfold split: option.split)
qed

lemma share_view_known_block [view_simps]: "share_view (known_block w s) = share_view s"
  by (simp add: known_block_def Let_def view_simps case_prod_unfold)

lemma share_view_test_work_current [view_simps]: "share_view (fst (test_work_current E w s)) = share_view s"
  by (simp add: test_work_current_def Let_def view_simps)

lemma upd_pool_shares_frame [simp, frame_simps]:
  "gstats (upd_pool a f s) = gstats s" "cgpus (upd_pool a f s) = cgpus s" "submit_waiting (upd_pool a f s) = submit_waiting s"
  "total_submitting (upd_pool a f s) = total_submitting s" "stratum_shares (upd_pool a f s) = stratum_shares s"
  "swork_id (upd_pool a f s) = swork_id s" "opt_shares (upd_pool a f s) = opt_shares s" "found_blocks (upd_pool a f s) = found_blocks s"
  "tmpl_refs (upd_pool a f s) = tmpl_refs s" "opt_submit_stale (upd_pool a f s) = opt_submit_stale s"
  "opt_retries (upd_pool a f s) = opt_retries s" "opt_disable_pool (upd_pool a f s) = opt_disable_pool s"
  "dupe_hashes (upd_pool a f s) = dupe_hashes s"
  by (simp_all add: upd_pool_def)

lemma share_viewD:
  assumes "share_view t = share_view s"
  shows "gstats t = gstats s" "cgpus t = cgpus s" "submit_waiting t = submit_waiting s" "total_submitting t = total_submitting s"
    "stratum_shares t = stratum_shares s" "swork_id t = swork_id s" "opt_retries t = opt_retries s"
    "p_stats (the_pool t a) = p_stats (the_pool s a)"
  using assms by (auto simp: share_view_def dest: fun_cong)

text \<open>The statistics alone: queueing a share leaves them as they are.\<close>

definition counters :: "miner \<Rightarrow> global_stats \<times> (nat \<Rightarrow> cgpu_info) \<times> (nat \<Rightarrow> pool_stats)" where
  "counters s = (gstats s, cgpus s, \<lambda>a. p_stats (the_pool s a))"

lemma counters_view: "share_view t = share_view s \<Longrightarrow> counters t = counters s"
  by (simp add: share_view_def counters_def)

lemma countersD: "counters t = counters s \<Longrightarrow> gstats t = gstats s \<and> cgpus t = cgpus s \<and> p_stats (the_pool t a) = p_stats (the_pool s a)"
  by (auto simp: counters_def dest: fun_cong)

lemma counters_local_submit: "counters (maybe_local_submit w s) = counters s"
proof -
  have q: "counters (queue_submission v t) = counters t" for v t by (simp add: counters_def queue_submission_def)
  have c: "counters (fst (copy_work_noffset w n t)) = counters t" for n t by (rule counters_view) (rule share_view_work)
  have "counters (fold f xs t) = counters t" if "\<And>x t. counters (f x t) = counters t" for f :: "nat \<Rightarrow> miner \<Rightarrow> miner" and xs t
    using that by (induction xs arbitrary: t) simp_all
  then show ?thesis by (simp add: maybe_local_submit_def Let_def case_prod_unfold q c)
qed

lemma gstore_local_submit: "gstore (maybe_local_submit w s) = gstore s"
proof -
  have c: "gstore (fst (copy_work_noffset w n t)) = gstore t" for n t
    by (simp add: copy_work_noffset_def make_work_def clean_work_def zero_work_def tmpl_incref_def Let_def split: option.split)
  have "gstore (fold f xs t) = gstore t" if "\<And>x t. gstore (f x t) = gstore t" for f :: "nat \<Rightarrow> miner \<Rightarrow> miner" and xs t
    using that by (induction xs arbitrary: t) simp_all
  then show ?thesis by (simp add: maybe_local_submit_def queue_submission_def Let_def case_prod_unfold c)
qed

section \<open>Every answered share is counted once\<close>

definition answer_accepts :: "'j json_api \<Rightarrow> 'j option \<Rightarrow> 'j option \<Rightarrow> bool" where
  "answer_accepts J res err \<longleftrightarrow> (json_is (is_null J) err \<or> err = None) \<and> (json_is (is_null J) res \<or> json_is (is_true J) res)"

text \<open>\<^verbatim>\<open>share_result\<close> behind the counting: what follows an accepted share.\<close>

definition after_accept :: "env \<Rightarrow> work \<Rightarrow> miner \<Rightarrow> miner" where
  "after_accept E w s =
     (let s = (if p_enabled (the_pool s (w_pool w)) = POOL_REJECTING then enable_pool (w_pool w) s else s)
      in if w_block w then fst (test_work_current E (fakework w) s) else s)"

lemma share_view_after_accept: "share_view (after_accept E w s) = share_view s"
  by (simp add: after_accept_def Let_def view_simps)

lemma share_result_cases:
  "share_result E J res err w s =
     (if answer_accepts J res err then
        (let t = share_accepted E w s
         in if opt_shares t \<noteq> 0 \<and> total_diff_accepted (gstats t) \<ge> opt_shares t then kill_work t
            else maybe_local_submit w (after_accept E w t))
      else if hash_target_check (w_hash w) (w_target w) then maybe_local_submit w (share_rejected E w s)
      else maybe_local_submit w
             (if p_diff_effective_retroactively (the_pool s (w_pool w)) = BTS_UNKNOWN \<and> low_difficulty_error J w err
              then upd_pool (w_pool w) (\<lambda>p. p\<lparr>p_diff_effective_retroactively := BTS_FALSE\<rparr>) s else s))"
  by (simp add: share_result_def answer_accepts_def after_accept_def Let_def)

lemma counters_accepted:
  "gstats (share_accepted E w s) = (gstats s)\<lparr>total_accepted := total_accepted (gstats s) + 1,
     total_diff_accepted := dadd E (total_diff_accepted (gstats s)) (w_work_difficulty w)\<rparr>"
  "p_seq_rejects (the_pool (share_accepted E w s) (w_pool w)) = 0"
  "c_accepted (cgpus (share_accepted E w s) (get_thr_cgpu E (w_thr_id w))) = c_accepted (cgpus s (get_thr_cgpu E (w_thr_id w))) + 1"
  "ps_accepted (p_stats (the_pool (share_accepted E w s) (w_pool w))) = ps_accepted (p_stats (the_pool s (w_pool w))) + 1"
  "ps_rejected (p_stats (the_pool (share_accepted E w s) a)) = ps_rejected (p_stats (the_pool s a))"
  "a \<noteq> w_pool w \<Longrightarrow> p_stats (the_pool (share_accepted E w s) a) = p_stats (the_pool s a)"
  by (simp_all add: share_accepted_def Let_def upd_gstats_def upd_cgpu_def upd_stats_def upd_goal_def)

lemma counters_rejected:
  fixes s :: miner and w :: work and E :: env
  defines "t \<equiv> share_rejected E w s"
  shows "gstats t = (gstats s)\<lparr>total_rejected := total_rejected (gstats s) + 1,
     total_diff_rejected := dadd E (total_diff_rejected (gstats s)) (w_work_difficulty w)\<rparr>"
  "ps_rejected (p_stats (the_pool t (w_pool w))) = ps_rejected (p_stats (the_pool s (w_pool w))) + 1"
  "ps_accepted (p_stats (the_pool t a)) = ps_accepted (p_stats (the_pool s a))"
  "a \<noteq> w_pool w \<Longrightarrow> p_stats (the_pool t a) = p_stats (the_pool s a)"
proof -
  define u where "u = upd_pool (w_pool w) (\<lambda>p. p\<lparr>p_seq_rejects := p_seq_rejects p + 1\<rparr>)
    (upd_stats (w_pool w) (\<lambda>p. p\<lparr>ps_rejected := ps_rejected p + 1, ps_diff_rejected := dadd E (ps_diff_rejected p) (w_work_difficulty w)\<rparr>)
    (upd_gstats (\<lambda>g. g\<lparr>total_rejected := total_rejected g + 1, total_diff_rejected := dadd E (total_diff_rejected g) (w_work_difficulty w)\<rparr>)
    (upd_cgpu (get_thr_cgpu E (w_thr_id w))
       (\<lambda>c. c\<lparr>c_rejected := c_rejected c + 1, c_diff_rejected := dadd E (c_diff_rejected c) (w_work_difficulty w)\<rparr>) s)))"
  have v: "share_view t = share_view u"
    unfolding t_def share_rejected_def Let_def u_def [symmetric] by (simp add: view_simps)
  show "gstats t = (gstats s)\<lparr>total_rejected := total_rejected (gstats s) + 1,
     total_diff_rejected := dadd E (total_diff_rejected (gstats s)) (w_work_difficulty w)\<rparr>"
    "ps_rejected (p_stats (the_pool t (w_pool w))) = ps_rejected (p_stats (the_pool s (w_pool w))) + 1"
    "ps_accepted (p_stats (the_pool t a)) = ps_accepted (p_stats (the_pool s a))"
    "a \<noteq> w_pool w \<Longrightarrow> p_stats (the_pool t a) = p_stats (the_pool s a)"
    unfolding share_viewD [OF v] by (simp_all add: u_def upd_gstats_def upd_cgpu_def upd_stats_def)
qed

text \<open>C8: An answer to a share is counted exactly once, for its pool and in the totals: as accepted when the pool
  says so, as rejected when it does not although the hash meets the target, and not at all when the
  hash misses the target and the share was only tried because the pool's difficulty had changed. No
  counter of another pool moves.\<close>

theorem share_result_counted_once:
  fixes s :: miner and w :: work and E :: env and J :: "'j json_api" and res err :: "'j option"
  defines "t \<equiv> share_result E J res err w s" and "p \<equiv> w_pool w"
  shows "total_accepted (gstats t) = total_accepted (gstats s) + (if answer_accepts J res err then 1 else 0) \<and>
    ps_accepted (p_stats (the_pool t p)) = ps_accepted (p_stats (the_pool s p)) + (if answer_accepts J res err then 1 else 0) \<and>
    total_rejected (gstats t) = total_rejected (gstats s) +
      (if \<not> answer_accepts J res err \<and> hash_target_check (w_hash w) (w_target w) then 1 else 0) \<and>
    ps_rejected (p_stats (the_pool t p)) = ps_rejected (p_stats (the_pool s p)) +
      (if \<not> answer_accepts J res err \<and> hash_target_check (w_hash w) (w_target w) then 1 else 0) \<and>
    (a = p \<or> p_stats (the_pool t a) = p_stats (the_pool s a))"
proof -
  define base where "base = (if answer_accepts J res err then share_accepted E w s
    else if hash_target_check (w_hash w) (w_target w) then share_rejected E w s else s)"
  have k: "counters (kill_work u) = counters u" for u by (simp add: counters_def kill_work_def)
  have aa: "counters (after_accept E w u) = counters u" for u by (rule counters_view [OF share_view_after_accept])
  have up: "counters (upd_pool b (\<lambda>p. p\<lparr>p_diff_effective_retroactively := x\<rparr>) u) = counters u" for b x u
    by (rule counters_view) (simp add: view_simps)
  have "counters t = counters base"
    unfolding t_def share_result_cases base_def Let_def by (simp add: counters_local_submit k aa up)
  note c = countersD [OF this]
  have g: "gstats t = gstats base" "p_stats (the_pool t b) = p_stats (the_pool base b)" for b using c by blast+
  have o: "a = w_pool w \<or> p_stats (the_pool base a) = p_stats (the_pool s a)"
    by (cases "a = w_pool w") (simp_all add: base_def counters_accepted(6) counters_rejected(4))
  consider "answer_accepts J res err" | "\<not> answer_accepts J res err" "hash_target_check (w_hash w) (w_target w)"
    | "\<not> answer_accepts J res err" "\<not> hash_target_check (w_hash w) (w_target w)" by blast
  then show ?thesis
    unfolding g p_def using o by cases (simp_all add: base_def counters_accepted counters_rejected)
qed

section \<open>No block is missed\<close>

lemma now_upd: "now (upd_cgpu a c s) = now s" "now (upd_stats b p s) = now s" "now (upd_gstats g s) = now s"
  by (simp_all add: upd_cgpu_def upd_stats_def upd_gstats_def)

lemma inc_hw_errors_frame:
  "hw_errors (gstats (inc_hw_errors E thr w s)) = hw_errors (gstats s) + 1" "tmpl_refs (inc_hw_errors E thr w s) = tmpl_refs s"
  "submit_waiting (inc_hw_errors E thr w s) = submit_waiting s" "total_submitting (inc_hw_errors E thr w s) = total_submitting s"
  "staged_work (inc_hw_errors E thr w s) = staged_work s"
  by (simp_all add: inc_hw_errors_def inc_hw_errors3_def Let_def upd_cgpu_def upd_gstats_def)

lemma share_diff_frame:
  assumes "share_diff E w s = (t, d)"
  shows "d = target_diff E (w_hash w)" "gstore t = gstore s" "found_blocks t = found_blocks s"
    "p_solved (the_pool t a) = p_solved (the_pool s a)" "submit_waiting t = submit_waiting s" "tmpl_refs t = tmpl_refs s"
    "staged_work t = staged_work s" "total_submitting t = total_submitting s" "p_goal (the_pool t a) = p_goal (the_pool s a)"
    "hw_errors (gstats t) = hw_errors (gstats s)" "d \<le> best_diff (gstats t)" "best_diff (gstats s) \<le> best_diff (gstats t)"
    "stratum_shares t = stratum_shares s" "swork_id t = swork_id s"
  using assms by (auto simp: share_diff_def Let_def upd_gstats_def upd_stats_def)

text \<open>C7: No block is missed: a share whose hash is at most the block target of its goal, read as little-endian
  numbers, is marked as a block, made mandatory and counted, for its pool and in the total, whatever the
  rounding of the difficulties to floating point does as long as it keeps the order.\<close>

theorem block_not_missed:
  assumes rnd: "mono (rnd_double E)" and len: "length (w_hash w) = length target"
    and goal: "g_current_diff (pool_goal s (w_pool w)) = target_diff E target"
    and hash: "le_value (w_hash w) \<le> le_value target"
    and t: "work_check_for_block E w s = (t, v)"
  shows "w_block v \<and> w_mandatory v \<and> found_blocks t = found_blocks s + 1 \<and>
    p_solved (the_pool t (w_pool w)) = p_solved (the_pool s (w_pool w)) + 1"
proof -
  obtain u d where d: "share_diff E w s = (u, d)" by fastforce
  note f = share_diff_frame [OF d]
  have "target_diff E target \<le> d" unfolding f(1) by (rule target_diff_le [OF rnd len hash])
  then show ?thesis using t goal by (auto simp: work_check_for_block_def d Let_def f)
qed

section \<open>How much of the nonce range is scanned\<close>

text \<open>As long as \<^verbatim>\<open>abandon_work\<close> lets the scan of a work item go on, the next batch of hashes stays inside the
  nonce range: the nonces tried so far and the batch together are below 0xfffffffe, although the code
  compares with a difference that may wrap around; and the work is neither stale nor over its scan time.\<close>

theorem abandon_work_range:
  assumes "\<not> abandon_work s w wdiff max_hashes"
  shows "unat (w_blk_nonce w) + unat max_hashes < 0xfffffffe \<and> \<not> stale_work s w False \<and> tv_sec wdiff \<le> opt_scantime s"
proof -
  have a: "\<not> (ucast (w_blk_nonce w) :: u64) \<ge> 0xfffffffe - max_hashes" "\<not> max_hashes \<ge> 0xfffffffe"
    "\<not> stale_work s w False" "tv_sec wdiff \<le> opt_scantime s"
    using assms by (auto simp: abandon_work_def)
  have m: "unat max_hashes < 0xfffffffe" using a(2) by (simp add: word_le_nat_alt not_le)
  then have "unat (0xfffffffe - max_hashes) = 0xfffffffe - unat max_hashes" by (simp add: unat_sub word_le_nat_alt)
  moreover have "unat (ucast (w_blk_nonce w) :: u64) = unat (w_blk_nonce w)" 
    using unsigned_less [of "w_blk_nonce w", where 'a = nat] by (simp add: unsigned_ucast_eq take_bit_nat_eq_self_iff)
  ultimately show ?thesis using a m by (simp add: word_le_nat_alt not_le)
qed

section \<open>A nonce that is submitted\<close>

definition meets_target :: "miner \<Rightarrow> work \<Rightarrow> bytes \<Rightarrow> bool" where
  "meets_target s w h \<longleftrightarrow> hash_target_check h (w_target w) \<or>
     pool_diff_effective_retroactively (the_pool s (w_pool w)) \<and> hash_target_check h (p_next_target (the_pool s (w_pool w)))"

lemma test_nonce2_result:
  assumes "test_nonce2 E s w nonce True = (v, r)"
  shows "w_data v = pk_u32le (w_data w) 76 nonce"
    "w_hash v = hash_data_f E (work_mining_algorithm s w) (pk_u32le (w_data w) 76 nonce)"
    "r = TNR_BAD \<longleftrightarrow> \<not> test_hash (w_nonce_diff w \<ge> 1) (Htarg E (w_nonce_diff w)) (w_hash v)"
    "r = TNR_GOOD \<longleftrightarrow> test_hash (w_nonce_diff w \<ge> 1) (Htarg E (w_nonce_diff w)) (w_hash v) \<and> meets_target s w (w_hash v)"
    "w_tr v = w_tr w" "w_pool v = w_pool w" "w_thr_id v = w_thr_id w" "w_nonce_diff v = w_nonce_diff w"
  using assms
  by (auto simp: test_nonce2_def work_hash_def work_mining_algorithm_def Let_def hash_target_check_v_def meets_target_def split: if_splits)

lemma meets_target_cong:
  "the_pool s' (w_pool w) = the_pool s (w_pool w) \<Longrightarrow> w_target w' = w_target w \<Longrightarrow> w_pool w' = w_pool w \<Longrightarrow>
   meets_target s' w' h = meets_target s w h"
  by (simp add: meets_target_def)

lemma copy_work_frame:
  assumes "copy_work_noffset w n s = (t, v)"
  shows "pstore t = pstore s" "gstore t = gstore s" "gstats t = gstats s" "submit_waiting t = submit_waiting s"
    "total_submitting t = total_submitting s" "opt_benchmark t = opt_benchmark s" "staged_work t = staged_work s" "now t = now s"
    "stratum_shares t = stratum_shares s" "swork_id t = swork_id s"
    "tmpl_refs t = (case w_tr w of None \<Rightarrow> tmpl_refs s | Some r \<Rightarrow> (tmpl_refs s)(r := tmpl_refs s r + 1))"
    "v = w\<lparr>w_id := total_work s, w_data := (if n \<noteq> 0 then pk_u32be (w_data w) 68 (upk_u32be (w_data w) 68 + word_of_int n) else w_data w)\<rparr>"
  using assms
  by (auto simp: copy_work_noffset_def make_work_def clean_work_def zero_work_def tmpl_incref_def Let_def split: option.splits if_splits)

lemma pk_twice: "off + 4 \<le> length buf \<Longrightarrow> pk_u32le (pk_u32le buf off v) off v = pk_u32le buf off v"
  by (rule nth_equalityI) (auto simp: pk_u32le_def nth_list_update)


text \<open>The counts of references without that of one work item.\<close>

definition drop_ref :: "nat option \<Rightarrow> (nat \<Rightarrow> int) \<Rightarrow> nat \<Rightarrow> int" where
  "drop_ref t refs = (case t of None \<Rightarrow> refs | Some r \<Rightarrow> refs(r := refs r - 1))"

lemma free_work_refs: "tmpl_refs (free_work w s) = drop_ref (w_tr w) (tmpl_refs s)"
  by (simp add: drop_ref_def free_work_def clean_work_def tmpl_decref_def split: option.split)

lemma free_work_shares [simp]:
  "gstats (free_work w s) = gstats s" "submit_waiting (free_work w s) = submit_waiting s"
  "total_submitting (free_work w s) = total_submitting s" "stratum_shares (free_work w s) = stratum_shares s"
  "swork_id (free_work w s) = swork_id s"
  using share_viewD [OF share_view_work(1)] by blast+

text \<open>C5: Submitting a nonce: the answer is whether the hash of the header with the nonce passes the test at the
  difficulty of the device; if not, one hardware error is counted. The share is queued for the pool
  exactly when its hash also meets the target of the work or, where the pool changes the difficulty
  retroactively, the next target; what is queued carries that header, hash, thread and pool. Otherwise
  nothing is queued and the reference to the template is given back. The staged work stays.\<close>

theorem submit_nonce_outcome:
  fixes s :: miner and w :: work and nonce :: u32 and noffset :: int and E :: env
  defines "data \<equiv> pk_u32le (if noffset \<noteq> 0 then pk_u32be (w_data w) 68 (upk_u32be (w_data w) 68 + word_of_int noffset) else w_data w) 76 nonce"
  defines "h \<equiv> hash_data_f E (work_mining_algorithm s w) data"
  defines "good \<equiv> test_hash (w_nonce_diff w \<ge> 1) (Htarg E (w_nonce_diff w)) h"
  assumes len: "length (w_data w) = 128" and nb: "\<not> opt_benchmark s"
    and t: "submit_noffset_nonce E J thr w nonce noffset s = (t, ret)"
  shows "ret = good \<and> hw_errors (gstats t) = hw_errors (gstats s) + (if good then 0 else 1) \<and> staged_work t = staged_work s \<and>
    (if good \<and> meets_target s w h
     then total_submitting t = total_submitting s + 1 \<and>
       (\<exists>v. submit_waiting t = submit_waiting s @ [v] \<and> w_data v = data \<and> w_hash v = h \<and> w_thr_id v = thr \<and> w_pool v = w_pool w)
     else total_submitting t = total_submitting s \<and> submit_waiting t = submit_waiting s \<and> tmpl_refs t = tmpl_refs s)"
proof -
  obtain u c where c: "copy_work_noffset w noffset s = (u, c)" by fastforce
  note f = copy_work_frame [OF c]
  define w1 where "w1 = c\<lparr>w_data := pk_u32le (w_data c) 76 nonce, w_thr_id := thr\<rparr>"
  obtain v r where v: "test_nonce2 E u w1 nonce True = (v, r)" by fastforce
  note R = test_nonce2_result [OF v]
  have d1: "w_data w1 = data" by (simp add: w1_def f(12) data_def)
  have "76 + 4 \<le> length (if noffset \<noteq> 0 then pk_u32be (w_data w) 68 (upk_u32be (w_data w) 68 + word_of_int noffset) else w_data w)"
    using len by (simp add: f32be.pk_length)
  then have d2: "pk_u32le data 76 nonce = data" unfolding data_def by (rule pk_twice)
  have w1: "w_pool w1 = w_pool w" "w_tr w1 = w_tr w" "w_nonce_diff w1 = w_nonce_diff w" "w_target w1 = w_target w" "w_thr_id w1 = thr"
    by (simp_all add: w1_def f(12))
  have m: "work_mining_algorithm u w1 = work_mining_algorithm s w" by (simp add: work_mining_algorithm_def f w1)
  have vh: "w_data v = data" "w_hash v = h" using R(1,2) by (simp_all add: d1 d2 m h_def)
  have mt: "meets_target u w1 h = meets_target s w h" by (rule meets_target_cong) (simp_all add: f w1)
  have tr: "w_tr v = w_tr w" "w_pool v = w_pool w" "w_thr_id v = thr" "w_nonce_diff v = w_nonce_diff w" using R w1 by simp_all
  have bad: "r = TNR_BAD \<longleftrightarrow> \<not> good" "r = TNR_GOOD \<longleftrightarrow> good \<and> meets_target s w h"
    using R(3,4) by (simp_all add: good_def vh w1 mt)
  define x where "x = upd_cgpu (get_thr_cgpu E thr) (\<lambda>c. c\<lparr>c_last_device_valid_work := tv_sec (now u)\<rparr>)
    (upd_stats (w_pool v) (\<lambda>p. p\<lparr>ps_diff1 := dadd E (ps_diff1 p) (w_nonce_diff v)\<rparr>)
    (upd_cgpu (get_thr_cgpu E thr) (\<lambda>c. c\<lparr>c_diff1 := dadd E (c_diff1 c) (w_nonce_diff v)\<rparr>)
    (upd_gstats (\<lambda>g. g\<lparr>total_diff1 := dadd E (total_diff1 g) (w_nonce_diff v)\<rparr>) u)))"
  have x: "submit_waiting x = submit_waiting s" "total_submitting x = total_submitting s" "hw_errors (gstats x) = hw_errors (gstats s)"
    "staged_work x = staged_work s" "opt_benchmark x = opt_benchmark s" "tmpl_refs x = tmpl_refs u"
    by (simp_all add: x_def upd_cgpu_def upd_stats_def upd_gstats_def f)
  have T: "(t, ret) = (if r = TNR_BAD then (free_work v (inc_hw_errors E thr (Some v) u), False)
      else if r = TNR_HIGH then (free_work v (fst (share_diff E v x)), True)
      else (submit_work_async E J (v\<lparr>w_tv_work_found := now u\<rparr>) x, True))"
    using t unfolding submit_noffset_nonce_def c Let_def prod.case w1_def [symmetric] v
    by (simp only: x_def now_upd)
  have refs: "drop_ref (w_tr v) (tmpl_refs u) = tmpl_refs s"
    by (simp add: drop_ref_def tr f split: option.split)
  show ?thesis
  proof (cases r)
    case TNR_BAD
    have "t = free_work v (inc_hw_errors E thr (Some v) u)" "ret = False" using T TNR_BAD by simp_all
    then show ?thesis using bad TNR_BAD refs
      by (simp add: inc_hw_errors_frame f free_work_refs)
  next
    case TNR_HIGH
    obtain y e where y: "share_diff E v x = (y, e)" by fastforce
    note Y = share_diff_frame [OF y]
    have "t = free_work v y" "ret = True" using T TNR_HIGH y by simp_all
    then show ?thesis using bad TNR_HIGH refs by (auto simp: Y x free_work_refs)
  next
    case TNR_GOOD
    have "t = submit_work_async E J (v\<lparr>w_tv_work_found := now u\<rparr>) x" "ret = True" using T TNR_GOOD by simp_all
    then show ?thesis using bad TNR_GOOD nb by (simp add: submit_work_async_def queue_submission_def x vh tr)
  qed
qed

section \<open>A block that is accepted\<close>

lemma fakework_fields:
  assumes "length (w_data w) = 128"
  shows "w_pool (fakework w) = w_pool w" "\<not> w_mandatory (fakework w)" "take 0x20 (drop 4 (w_data (fakework w))) = swap32yes (w_hash w) 8"
    "take 4 (w_data (fakework w)) = take 4 (w_data w)" "take 8 (drop 68 (w_data (fakework w))) = take 8 (drop 68 (w_data w))"
    "length (w_data (fakework w)) = 128"
proof -
  define a where "a = take 4 (w_data w)"
  define b where "b = take 8 (drop 68 (w_data w))"
  define h where "h = swap32yes (w_hash w) 8"
  have l: "length a = 4" "length b = 8" "length h = 32" using assms by (simp_all add: a_def b_def h_def len_simps)
  have d: "w_data (fakework w) = a @ h @ replicate 32 0 @ b @ replicate 52 0"
    by (simp add: fakework_def Let_def zero_work_def mem_write_def a_def [symmetric] b_def [symmetric] h_def [symmetric] l)
  show "w_pool (fakework w) = w_pool w" "\<not> w_mandatory (fakework w)" by (simp_all add: fakework_def Let_def zero_work_def)
  show "take 0x20 (drop 4 (w_data (fakework w))) = swap32yes (w_hash w) 8" "take 4 (w_data (fakework w)) = take 4 (w_data w)"
    "take 8 (drop 68 (w_data (fakework w))) = take 8 (drop 68 (w_data w))" "length (w_data (fakework w)) = 128"
    unfolding d using l by (simp_all add: a_def [symmetric] b_def [symmetric] h_def [symmetric])
qed

lemma share_accepted_frame:
  "g_blkchain (gstore (share_accepted E w s) g) = g_blkchain (gstore s g)" "p_goal (the_pool (share_accepted E w s) a) = p_goal (the_pool s a)"
  "p_enabled (the_pool (share_accepted E w s) a) = p_enabled (the_pool s a)" "opt_shares (share_accepted E w s) = opt_shares s"
  "staged_same s (share_accepted E w s)"
  by (simp_all add: share_accepted_def Let_def upd_gstats_def upd_cgpu_def upd_stats_def upd_goal_def staged_same_def)

text \<open>C27: A block the pool accepts becomes the previous block of the miner at once, without waiting for new work: the
  current block of the goal is then the hash of the share, word-swapped as headers hold it, and the
  tables of all goals stay well formed.\<close>

theorem accepted_block_moves_goal:
  fixes s :: miner and w :: work and E :: env and J :: "'j json_api" and res err :: "'j option"
  defines "t \<equiv> share_result E J res err w s"
  assumes ok: "staged_ok s" and inv: "\<forall>g. blocks_ok (g_blkchain (gstore s g))" and srt: "sorts (block_hash_sort E) block_sort"
    and acc: "answer_accepts J res err" and block: "w_block w" and len: "length (w_data w) = 128"
    and go_on: "opt_shares s = 0" "p_enabled (the_pool s (w_pool w)) = POOL_ENABLED" "\<not> dudwork (fakework w)"
    and new: "block_exists (g_blkchain (pool_goal s (w_pool w))) (swap32yes (w_hash w) 8) = None"
  shows "bi_prevblkhash (currentblk (g_blkchain (gstore t (p_goal (the_pool s (w_pool w)))))) = swap32yes (w_hash w) 8 \<and>
    (\<forall>g. blocks_ok (g_blkchain (gstore t g)))"
proof -
  define u where "u = share_accepted E w s"
  define G where "G = p_goal (the_pool s (w_pool w))"
  define f where "f = fakework w"
  note F = fakework_fields [OF len, folded f_def]
  have inv_u: "\<forall>g. blocks_ok (g_blkchain (gstore u g))" using inv by (simp add: u_def share_accepted_frame)
  have G: "p_goal (the_pool u (w_pool f)) = G" by (simp add: F(1) G_def u_def share_accepted_frame)
  have nu: "block_exists (g_blkchain (gstore u (p_goal (the_pool u (w_pool f))))) (take 0x20 (drop 4 (w_data f))) = None"
    using new unfolding G by (simp add: F(3) G_def u_def share_accepted_frame)
  define n where "n = new_block E f u"
  note N = new_block_goal [OF inv_u srt nu, folded n_def, unfolded G F(3)]
  have okn: "staged_ok n"
    using staged_same_ok [OF staged_same_new_block staged_same_ok [OF share_accepted_frame(5) ok]] unfolding n_def u_def by blast
  have fst_t: "fst (test_work_current E f u) = (if new_blocks n = 1 then n else restart_threads n)"
    using F(2) go_on(3) nu by (simp add: test_work_current_def f_def n_def Let_def)
  have gs: "gstore (fst (test_work_current E f u)) = gstore n"
    unfolding fst_t using restart_threads_result(2) [OF okn] by simp
  have "t = maybe_local_submit w (fst (test_work_current E f u))"
    unfolding t_def share_result_cases Let_def u_def [symmetric] after_accept_def f_def [symmetric]
    using acc block go_on(1,2) by (simp add: u_def share_accepted_frame)
  then have "gstore t = gstore n" by (simp only: gstore_local_submit gs)
  then show ?thesis using N(1,3) unfolding G_def [symmetric] by simp
qed

end
