(* ===== verification/Submission.thy ===== *)
theory Submission
  imports Shares
begin

text \<open>
  The submission of shares (\<^verbatim>\<open>submit_work_thread\<close> and what it calls in \<^verbatim>\<open>miner.c\<close>): shares wait in
  \<open>submit_waiting\<close>, the thread takes them and hands them to a stratum connection or to a curl request,
  and the shares sent over stratum stay in \<open>stratum_shares\<close> until the pool answers or disconnects. What
  sockets and curl report are arguments: whether a curl handle is free, whether a send succeeds, what a
  request returns.
\<close>

section \<open>State\<close>

record submit_work_state =
  sws_work :: work
  sws_resubmit :: bool
  sws_failures :: int
  sws_tv_staleexpire :: timeval
  sws_tv_submit :: timeval

text \<open>
  The local variables of the thread next to the state of the program: \<open>write_sws\<close> are the shares to be
  written to a stratum socket, \<open>curl_sws\<close> those whose request is running and \<open>waiting_sws\<close> those in the
  lists \<^verbatim>\<open>sws_waiting_on_curl\<close> of all pools, the last one first.
\<close>

record submitter =
  core :: miner
  wip :: int
  tsreduce :: int
  write_sws :: "submit_work_state list"
  curl_sws :: "submit_work_state list"
  waiting_sws :: "submit_work_state list"

definition GETWORK_MODE_STRATUM :: char where
  "GETWORK_MODE_STRATUM = CHR ''S''"

section \<open>Taking a share\<close>

definition begin_submission :: "env \<Rightarrow> work \<Rightarrow> miner \<Rightarrow> miner \<times> work \<times> submit_work_state option" where
  "begin_submission E w s =
     (let pool = the_pool s (w_pool w);
          (s, w) = work_check_for_block E w s;
          sws = \<lparr>sws_work = w, sws_resubmit = False, sws_failures = 0, sws_tv_staleexpire = tv 0 0, sws_tv_submit = tv 0 0\<rparr>
      in if stale_work s w True
         then (let w = w\<lparr>w_stale := True\<rparr>
               in if \<not> opt_submit_stale s \<and> \<not> p_submit_old pool then (submit_discard_share E w s, w, None)
                  else (s, w, Some (sws\<lparr>sws_work := w, sws_tv_staleexpire := timer_set_delay (now s) 300000000\<rparr>)))
         else (s, w, Some sws))"

definition sws_has_ce :: "miner \<Rightarrow> submit_work_state \<Rightarrow> submit_work_state" where
  "sws_has_ce s sws = sws\<lparr>sws_tv_submit := now s\<rparr>"

text \<open>One round of the loop over \<^verbatim>\<open>submit_waiting\<close>; \<open>got_ce\<close> tells whether \<^verbatim>\<open>pop_curl_entry2\<close> has a handle.\<close>

definition receive_one :: "env \<Rightarrow> (work \<Rightarrow> bool) \<Rightarrow> submitter \<Rightarrow> submitter" where
  "receive_one E got_ce T =
     (case submit_waiting (core T) of
        [] \<Rightarrow> T
      | w # ws \<Rightarrow>
          let s = (core T)\<lparr>submit_waiting := ws\<rparr>;
              (s, w, r) = begin_submission E w s
          in case r of
               None \<Rightarrow> T\<lparr>core := free_work w (s\<lparr>total_submitting := total_submitting s - 1\<rparr>)\<rparr>
             | Some sws \<Rightarrow>
                 let T = T\<lparr>core := s, wip := wip T + 1\<rparr>
                 in if w_getwork_mode w = GETWORK_MODE_STRATUM then T\<lparr>write_sws := sws # write_sws T\<rparr>
                    else if got_ce w then T\<lparr>curl_sws := curl_sws T @ [sws_has_ce s sws]\<rparr>
                    else T\<lparr>waiting_sws := sws # waiting_sws T\<rparr>)"

definition receive :: "env \<Rightarrow> (work \<Rightarrow> bool) \<Rightarrow> submitter \<Rightarrow> submitter" where
  "receive E got_ce T =
     (let T = T\<lparr>core := (core T)\<lparr>total_submitting := total_submitting (core T) - tsreduce T\<rparr>, tsreduce := 0\<rparr>
      in (receive_one E got_ce ^^ length (submit_waiting (core T))) T)"

section \<open>Shares sent over stratum\<close>

definition HASH_DEL_id :: "int \<Rightarrow> (int \<times> work) list \<Rightarrow> (int \<times> work) list" where
  "HASH_DEL_id sid = List.filter (\<lambda>(i, _). i \<noteq> sid)"

text \<open>The statistics of \<^verbatim>\<open>clear_stratum_shares\<close>: the sums over all cleared shares and over those of each thread.\<close>

definition count_cleared :: "env \<Rightarrow> nat \<Rightarrow> work list \<Rightarrow> miner \<Rightarrow> miner" where
  "count_cleared E pool ws s =
     (let cleared = length ws;
          total_diff = (\<lambda>ws. fold (\<lambda>w d. dadd E d (w_work_difficulty w)) ws 0);
          s = upd_stats pool (\<lambda>p. p\<lparr>ps_stale_shares := ps_stale_shares p + cleared, ps_diff_stale := dadd E (ps_diff_stale p) (total_diff ws)\<rparr>) s;
          s = upd_gstats (\<lambda>g. g\<lparr>total_stale := total_stale g + int cleared,
                total_diff_stale := dadd E (total_diff_stale g) (total_diff ws)\<rparr>) s
      in fold (\<lambda>i s.
           let own = List.filter (\<lambda>w. w_thr_id w = int i) ws
           in if own = [] then s
              else upd_cgpu (get_thr_cgpu E (int i)) (\<lambda>c. c\<lparr>c_diff_stale := dadd E (c_diff_stale c) (total_diff own),
                     c_stale := c_stale c + int (length own)\<rparr>) s) [0..<nat (mining_threads s)] s)"

definition clear_stratum_shares :: "env \<Rightarrow> nat \<Rightarrow> miner \<Rightarrow> miner" where
  "clear_stratum_shares E pool s =
     (let hit = (\<lambda>(_, w). w_pool w = pool \<and> w_thr_id w < mining_threads s);
          ws = map snd (List.filter hit (stratum_shares s));
          s = s\<lparr>stratum_shares := List.filter (\<lambda>x. \<not> hit x) (stratum_shares s)\<rparr>;
          s = fold free_work ws s
      in if ws \<noteq> [] then (let s = count_cleared E pool ws s in s\<lparr>total_submitting := total_submitting s - int (length ws)\<rparr>) else s)"

definition resubmit_stratum_shares :: "nat \<Rightarrow> miner \<Rightarrow> miner" where
  "resubmit_stratum_shares pool s =
     s\<lparr>submit_waiting := submit_waiting s @ map snd (List.filter (\<lambda>(_, w). w_pool w = pool) (stratum_shares s)),
       stratum_shares := List.filter (\<lambda>(_, w). w_pool w \<noteq> pool) (stratum_shares s)\<rparr>"

text \<open>The answer with an id to a share, tracked or not.\<close>

definition stratum_share_response ::
  "env \<Rightarrow> 'j json_api \<Rightarrow> nat \<Rightarrow> int \<Rightarrow> 'j option \<Rightarrow> 'j option \<Rightarrow> miner \<Rightarrow> miner \<times> bool"
where
  "stratum_share_response E J pool sid res err s =
     (case map_of (stratum_shares s) sid of
        None \<Rightarrow>
          let pool_diff = target_diff E (sw_target (p_swork (the_pool s pool)))
          in (if json_is (is_true J) res then
                (let s = upd_gstats (\<lambda>g. g\<lparr>total_accepted := total_accepted g + 1, total_diff_accepted := dadd E (total_diff_accepted g) pool_diff\<rparr>) s;
                     s = upd_stats pool (\<lambda>p. p\<lparr>ps_accepted := ps_accepted p + 1, ps_diff_accepted := dadd E (ps_diff_accepted p) pool_diff\<rparr>) s
                 in upd_goal (p_goal (the_pool s pool)) (\<lambda>g. g\<lparr>g_diff_accepted := dadd E (g_diff_accepted g) pool_diff\<rparr>) s)
              else
                (let s = upd_gstats (\<lambda>g. g\<lparr>total_rejected := total_rejected g + 1, total_diff_rejected := dadd E (total_diff_rejected g) pool_diff\<rparr>) s
                 in upd_stats pool (\<lambda>p. p\<lparr>ps_rejected := ps_rejected p + 1, ps_diff_rejected := dadd E (ps_diff_rejected p) pool_diff\<rparr>) s),
              False)
      | Some w \<Rightarrow>
          let s = s\<lparr>stratum_shares := HASH_DEL_id sid (stratum_shares s), total_submitting := total_submitting s - 1\<rparr>;
              s = share_result E J res err w s
          in (free_work w s, True))"

text \<open>What the stratum thread may do while the submission thread holds no lock.\<close>

inductive other_thread :: "env \<Rightarrow> 'j json_api \<Rightarrow> miner \<Rightarrow> miner \<Rightarrow> bool" for E J where
  ot_nothing: "other_thread E J s s"
| ot_clear: "other_thread E J s (clear_stratum_shares E pool s)"
| ot_resubmit: "other_thread E J s (resubmit_stratum_shares pool s)"
| ot_response: "other_thread E J s (fst (stratum_share_response E J pool sid res err s))"

section \<open>Writing to a stratum socket\<close>

datatype send_ret = SEND_OK | SEND_SELECTFAIL | SEND_SENDFAIL | SEND_INACTIVE

definition suspend_stratum :: "nat \<Rightarrow> miner \<Rightarrow> miner" where
  "suspend_stratum pool s = upd_pool pool (\<lambda>p. p\<lparr>p_stratum_active := False, p_stratum_notify := False\<rparr>) s"

definition stratum_send :: "send_ret \<Rightarrow> nat \<Rightarrow> miner \<Rightarrow> miner" where
  "stratum_send ret pool s = 
     (if ret = SEND_SELECTFAIL \<or> ret = SEND_SENDFAIL then suspend_stratum pool s else s)"

definition list_delete :: "nat \<Rightarrow> 'a list \<Rightarrow> 'a list" where
  "list_delete i xs = take i xs @ drop (Suc i) xs"

text \<open>
  The share \<open>write_sws T ! i\<close> when its socket is ready: first the share is entered under a new id, then it
  is sent, and on the first failure it is taken out again unless the stratum thread (\<open>mid\<close>) has taken
  it. The flag says that the loop goes on to the next share; otherwise it looks at the same one again.
\<close>

definition write_share :: "env \<Rightarrow> (miner \<Rightarrow> miner) \<Rightarrow> send_ret \<Rightarrow> nat \<Rightarrow> submitter \<Rightarrow> submitter \<times> bool" where
  "write_share E mid ret i T =
     (let s = core T;
          w = sws_work (write_sws T ! i);
          pool = w_pool w;
          next_write_sws_del = (\<lambda>T. T\<lparr>core := free_work w (core T), write_sws := list_delete i (write_sws T), wip := wip T - 1\<rparr>);
          nonce1 = sw_nonce1 (p_swork (the_pool s pool));
          sessionid_match = (nonce1 = None \<or> w_nonce1 w = nonce1)
      in if \<not> sessionid_match
         then (next_write_sws_del (T\<lparr>core := submit_discard_share E w s, tsreduce := tsreduce T + 1\<rparr>), True)
         else
           let (s, v) = copy_work_noffset w 0 s;
               sshare_id = swork_id s;
               s = s\<lparr>swork_id := swork_id s + 1, stratum_shares := stratum_shares s @ [(sshare_id, v)]\<rparr>;
               s = stratum_send ret pool s
           in if ret = SEND_OK
              then (next_write_sws_del (T\<lparr>core := upd_stats pool (\<lambda>p. p\<lparr>ps_submit_fail := False\<rparr>) s\<rparr>), True)
              else if \<not> ps_submit_fail (p_stats (the_pool s pool)) then
                (let s = upd_stats pool (\<lambda>p. p\<lparr>ps_submit_fail := True\<rparr>) s;
                     s = mid s;
                     sshare = map_of (stratum_shares s) sshare_id;
                     s = s\<lparr>stratum_shares := HASH_DEL_id sshare_id (stratum_shares s)\<rparr>;
                     s = (case sshare of Some v \<Rightarrow> free_work v s | None \<Rightarrow> s);
                     s = upd_gstats (\<lambda>g. g\<lparr>total_ro := total_ro g + 1\<rparr>) s;
                     s = upd_stats pool (\<lambda>p. p\<lparr>ps_remotefail_occasions := ps_remotefail_occasions p + 1\<rparr>) s;
                     T = T\<lparr>core := s\<rparr>
                 in (if sshare = None then next_write_sws_del T else T, True))
              else (T\<lparr>core := s\<rparr>, False))"

section \<open>Requests that are done\<close>

definition submit_upstream_work_completed ::
  "env \<Rightarrow> 'j json_api \<Rightarrow> ('j option \<times> 'j option) option \<Rightarrow> work \<Rightarrow> miner \<Rightarrow> miner \<times> bool"
where
  "submit_upstream_work_completed E J val w s =
     (let pool = w_pool w;
          submit_fail = ps_submit_fail (p_stats (the_pool s pool))
      in case val of
           None \<Rightarrow>
             let s = upd_stats pool (\<lambda>p. p\<lparr>ps_submit_fail := True\<rparr>) s
             in (if submit_fail then s
                 else upd_stats pool (\<lambda>p. p\<lparr>ps_remotefail_occasions := ps_remotefail_occasions p + 1\<rparr>)
                        (upd_gstats (\<lambda>g. g\<lparr>total_ro := total_ro g + 1\<rparr>) s), False)
         | Some (res, err) \<Rightarrow>
             let s = upd_stats pool (\<lambda>p. p\<lparr>ps_submit_fail := False\<rparr>) s
             in (share_result E J res err w s, True))"

definition retry_submission :: "env \<Rightarrow> submit_work_state \<Rightarrow> miner \<Rightarrow> miner \<times> submit_work_state \<times> bool" where
  "retry_submission E sws s =
     (let sws = sws\<lparr>sws_resubmit := True\<rparr>;
          w = sws_work sws;
          pool = the_pool s (w_pool w);
          became_stale = (\<not> w_stale w \<and> stale_work s w True);
          w = (if became_stale then w\<lparr>w_stale := True\<rparr> else w);
          sws = sws\<lparr>sws_work := w\<rparr>
      in if became_stale \<and> \<not> opt_submit_stale s \<and> \<not> p_submit_old pool then (submit_discard_share E w s, sws, False)
         else
           let sws = (if became_stale then sws\<lparr>sws_tv_staleexpire := timer_set_delay (now s) 300000000\<rparr> else sws);
               sws = (if opt_retries s \<ge> 0 then sws\<lparr>sws_failures := sws_failures sws + 1\<rparr> else sws)
           in if opt_retries s \<ge> 0 \<and> sws_failures sws > opt_retries s then (submit_discard_share E w s, sws, False)
              else if w_stale w \<and> opt_retries s < 0 \<and> timer_passed (sws_tv_staleexpire sws) (now s)
              then (submit_discard_share E w s, sws, False)
              else (s, sws\<lparr>sws_tv_submit := now s\<rparr>, True))"

text \<open>A finished request gives its curl handle to the newest share of the pool that waits for one.\<close>

definition finish_submission :: "nat \<Rightarrow> submit_work_state \<Rightarrow> submitter \<Rightarrow> submitter" where
  "finish_submission i sws T =
     (let pool = w_pool (sws_work sws);
          T = T\<lparr>wip := wip T - 1, tsreduce := tsreduce T + 1, curl_sws := list_delete i (curl_sws T)\<rparr>;
          T = (case List.find (\<lambda>x. w_pool (sws_work x) = pool) (waiting_sws T) of
                 None \<Rightarrow> T
               | Some x \<Rightarrow> T\<lparr>waiting_sws := remove1 x (waiting_sws T), curl_sws := curl_sws T @ [sws_has_ce (core T) x]\<rparr>)
      in T\<lparr>core := free_work (sws_work sws) (core T)\<rparr>)"

definition complete_curl ::
  "env \<Rightarrow> 'j json_api \<Rightarrow> ('j option \<times> 'j option) option \<Rightarrow> nat \<Rightarrow> submitter \<Rightarrow> submitter"
where
  "complete_curl E J val i T =
     (let sws = curl_sws T ! i;
          (s, finished) = submit_upstream_work_completed E J val (sws_work sws) (core T)
      in if finished then finish_submission i sws (T\<lparr>core := s\<rparr>)
         else let (s, sws, again) = retry_submission E sws s;
                  T = T\<lparr>core := s\<rparr>
              in if again then T\<lparr>curl_sws := (curl_sws T)[i := sws]\<rparr> else finish_submission i sws T)"

section \<open>The accounting of shares\<close>

text \<open>
  \<open>load\<close> is by how much the shares in the lists of the program exceed \<^verbatim>\<open>total_submitting\<close>; the shares in the
  hands of the thread make up for it. \<open>sub_view\<close> is what most operations leave alone.
\<close>

definition load :: "miner \<Rightarrow> int" where
  "load s = int (length (submit_waiting s)) + int (length (stratum_shares s)) - total_submitting s"

definition sub_view :: "miner \<Rightarrow> int \<times> (int \<times> work) list \<times> int \<times> int" where
  "sub_view s = (load s, stratum_shares s, swork_id s, opt_retries s)"

named_theorems sub_simps

lemma sub_view_share_view: "share_view t = share_view s \<Longrightarrow> sub_view t = sub_view s"
  by (simp add: sub_view_def load_def share_view_def)

lemma sub_view_upd [sub_simps]:
  "sub_view (upd_pool a f s) = sub_view s" "sub_view (upd_stats a p s) = sub_view s" "sub_view (upd_gstats g s) = sub_view s"
  "sub_view (upd_cgpu a c s) = sub_view s" "sub_view (upd_goal a h s) = sub_view s" "sub_view (kill_work s) = sub_view s"
  "sub_view (queue_submission w s) = sub_view s" "sub_view (free_work w s) = sub_view s" "sub_view (disable_pool a st s) = sub_view s"
  "sub_view (fst (copy_work_noffset w n s)) = sub_view s" "sub_view (after_accept E w s) = sub_view s"
  "sub_view (s\<lparr>found_blocks := k\<rparr>) = sub_view s"
proof -
  note v = sub_view_share_view
  show "sub_view (free_work w s) = sub_view s" "sub_view (disable_pool a st s) = sub_view s"
    "sub_view (fst (copy_work_noffset w n s)) = sub_view s" "sub_view (after_accept E w s) = sub_view s"
    by (rule v, simp add: view_simps share_view_after_accept)+
qed (simp_all add: sub_view_def load_def upd_pool_def upd_stats_def upd_gstats_def upd_cgpu_def upd_goal_def kill_work_def queue_submission_def)

lemma sub_view_fold: "(\<And>x s. sub_view (f x s) = sub_view s) \<Longrightarrow> sub_view (fold f xs s) = sub_view s"
  by (induction xs arbitrary: s) simp_all

lemma sub_view_local_submit [sub_simps]: "sub_view (maybe_local_submit w s) = sub_view s"
  unfolding maybe_local_submit_def
  by (auto intro!: sub_view_fold simp: sub_simps Let_def case_prod_unfold)

lemma sub_view_answers [sub_simps]:
  "sub_view (share_accepted E w s) = sub_view s" "sub_view (share_rejected E w s) = sub_view s"
  "sub_view (submit_discard_share E w s) = sub_view s" "sub_view (share_result E J res err w s) = sub_view s"
proof -
  show a: "sub_view (share_accepted E w s) = sub_view s" by (simp add: share_accepted_def Let_def sub_simps)
  show r: "sub_view (share_rejected E w s) = sub_view s" by (simp add: share_rejected_def Let_def sub_simps)
  show "sub_view (submit_discard_share E w s) = sub_view s" by (simp add: submit_discard_share_def Let_def sub_simps)
  show "sub_view (share_result E J res err w s) = sub_view s" by (simp add: share_result_cases Let_def sub_simps a r)
qed

lemma sub_view_check_block [sub_simps]: "sub_view (fst (work_check_for_block E w s)) = sub_view s"
proof -
  have "sub_view (fst (share_diff E w s)) = sub_view s" by (simp add: share_diff_def Let_def sub_simps)
  then show ?thesis by (simp add: work_check_for_block_def Let_def case_prod_unfold sub_simps)
qed

lemma sub_view_begin [sub_simps]: "sub_view (fst (begin_submission E w s)) = sub_view s"
  using sub_view_check_block by (simp add: begin_submission_def Let_def case_prod_unfold sub_simps)

lemma sub_view_completed [sub_simps]: "sub_view (fst (submit_upstream_work_completed E J val w s)) = sub_view s"
  by (simp add: submit_upstream_work_completed_def Let_def sub_simps split: option.split)

lemma sub_view_retry [sub_simps]: "sub_view (fst (retry_submission E sws s)) = sub_view s"
  by (simp add: retry_submission_def Let_def sub_simps)

lemma sub_view_send [sub_simps]: "sub_view (stratum_send ret pool s) = sub_view s"
  by (simp add: stratum_send_def suspend_stratum_def sub_simps)

lemma sub_viewD: "sub_view t = sub_view s \<Longrightarrow> load t = load s \<and> stratum_shares t = stratum_shares s \<and> swork_id t = swork_id s \<and> opt_retries t = opt_retries s"
  by (simp add: sub_view_def)

definition ids_ok :: "miner \<Rightarrow> bool" where
  "ids_ok s \<longleftrightarrow> distinct (map fst (stratum_shares s)) \<and> (\<forall>i\<in>fst ` set (stratum_shares s). i < swork_id s)"

lemma ids_ok_view: "sub_view t = sub_view s \<Longrightarrow> ids_ok t = ids_ok s"
  by (simp add: sub_view_def ids_ok_def)

lemma ids_ok_filter: "ids_ok s \<Longrightarrow> stratum_shares t = List.filter P (stratum_shares s) \<Longrightarrow> swork_id t = swork_id s \<Longrightarrow> ids_ok t"
  by (auto simp: ids_ok_def distinct_map_filter)

lemma length_HASH_DEL:
  "distinct (map fst xs) \<Longrightarrow> int (length (HASH_DEL_id sid xs)) = int (length xs) - (if map_of xs sid = None then 0 else 1)"
proof (induction xs)
  case (Cons x xs)
  have "HASH_DEL_id sid xs = xs" if "sid \<notin> fst ` set xs" using that by (force simp: HASH_DEL_id_def filter_id_conv)
  then show ?case using Cons
    by (cases x; cases "sid \<in> fst ` set xs") (auto simp: HASH_DEL_id_def map_of_eq_None_iff intro: rev_image_eqI)
qed (simp add: HASH_DEL_id_def)

lemma count_cleared_view: "sub_view (count_cleared E pool ws s) = sub_view s"
  unfolding count_cleared_def Let_def by (subst sub_view_fold) (simp_all add: sub_simps)

lemma clear_stratum_shares_result:
  fixes s :: miner and E :: env and pool :: nat
  defines "t \<equiv> clear_stratum_shares E pool s"
  shows "load t = load s \<and> swork_id t = swork_id s \<and> opt_retries t = opt_retries s \<and> (ids_ok s \<longrightarrow> ids_ok t)"
proof -
  define hit where "hit = (\<lambda>(i :: int, w :: work). w_pool w = pool \<and> w_thr_id w < mining_threads s)"
  define rest where "rest = List.filter (\<lambda>x. \<not> hit x) (stratum_shares s)"
  define ws where "ws = map snd (List.filter hit (stratum_shares s))"
  define u where "u = fold free_work ws (s\<lparr>stratum_shares := rest\<rparr>)"
  define v where "v = count_cleared E pool ws u"
  have vu: "sub_view u = sub_view (s\<lparr>stratum_shares := rest\<rparr>)"
    unfolding u_def by (rule sub_view_fold) (simp add: sub_simps)
  have vv: "sub_view v = sub_view u" unfolding v_def by (rule count_cleared_view)
  have t: "t = (if ws \<noteq> [] then v\<lparr>total_submitting := total_submitting v - int (length ws)\<rparr> else u)"
    unfolding t_def clear_stratum_shares_def Let_def hit_def [symmetric] rest_def [symmetric] ws_def [symmetric] u_def [symmetric] v_def [symmetric]
    by (rule refl)
  have l: "length ws + length rest = length (stratum_shares s)" by (simp add: ws_def rest_def sum_length_filter_compl)
  have "load u = load s - int (length ws)" "load v = load s - int (length ws)" "stratum_shares u = rest" "stratum_shares v = rest"
    "swork_id u = swork_id s" "swork_id v = swork_id s" "opt_retries u = opt_retries s" "opt_retries v = opt_retries s"
    using vu vv l by (auto simp: sub_view_def load_def)
  then have "load t = load s" "stratum_shares t = rest" "swork_id t = swork_id s" "opt_retries t = opt_retries s"
    by (auto simp: t load_def)
  then show ?thesis using ids_ok_filter [of s t] by (simp add: rest_def)
qed

lemma resubmit_stratum_shares_result:
  fixes s :: miner and pool :: nat
  defines "t \<equiv> resubmit_stratum_shares pool s"
  shows "load t = load s \<and> swork_id t = swork_id s \<and> opt_retries t = opt_retries s \<and> (ids_ok s \<longrightarrow> ids_ok t)"
proof -
  define P where "P = (\<lambda>(i :: int, w :: work). w_pool w = pool)"
  have n: "(\<lambda>(i :: int, w :: work). w_pool w \<noteq> pool) = (\<lambda>x. \<not> P x)" by (auto simp: P_def)
  have "length (List.filter P (stratum_shares s)) + length (List.filter (\<lambda>x. \<not> P x) (stratum_shares s)) = length (stratum_shares s)"
    by (rule sum_length_filter_compl)
  then have "load t = load s" unfolding t_def resubmit_stratum_shares_def load_def P_def [symmetric] n by simp
  then show ?thesis using ids_ok_filter [of s t] by (simp add: t_def resubmit_stratum_shares_def)
qed

lemma stratum_share_response_result:
  fixes s :: miner
  assumes "ids_ok s"
  shows "load (fst (stratum_share_response E J pool sid res err s)) = load s \<and>
    swork_id (fst (stratum_share_response E J pool sid res err s)) = swork_id s \<and>
    opt_retries (fst (stratum_share_response E J pool sid res err s)) = opt_retries s \<and>
    ids_ok (fst (stratum_share_response E J pool sid res err s))"
proof (cases "map_of (stratum_shares s) sid")
  case None
  have "sub_view (fst (stratum_share_response E J pool sid res err s)) = sub_view s"
    by (simp add: stratum_share_response_def None Let_def sub_simps)
  then show ?thesis using assms sub_viewD ids_ok_view by blast
next
  case (Some w)
  define u where "u = s\<lparr>stratum_shares := HASH_DEL_id sid (stratum_shares s), total_submitting := total_submitting s - 1\<rparr>"
  have "fst (stratum_share_response E J pool sid res err s) = free_work w (share_result E J res err w u)"
    by (simp add: stratum_share_response_def Some Let_def u_def)
  then have v: "sub_view (fst (stratum_share_response E J pool sid res err s)) = sub_view u" by (simp add: sub_simps)
  have "load u = load s" using length_HASH_DEL [of "stratum_shares s" sid] assms Some by (simp add: u_def load_def ids_ok_def)
  moreover have "ids_ok u" by (rule ids_ok_filter [OF assms]) (simp_all add: u_def HASH_DEL_id_def)
  ultimately show ?thesis using sub_viewD [OF v] ids_ok_view [OF v] by (simp add: u_def)
qed

lemma other_thread_result:
  "other_thread E J s t \<Longrightarrow> ids_ok s \<Longrightarrow> load t = load s \<and> swork_id t = swork_id s \<and> opt_retries t = opt_retries s \<and> ids_ok t"
  by (induction rule: other_thread.induct)
    (use clear_stratum_shares_result resubmit_stratum_shares_result stratum_share_response_result in blast)+

section \<open>The shares are all accounted for\<close>

definition in_hand :: "submitter \<Rightarrow> int" where
  "in_hand T = int (length (write_sws T)) + int (length (curl_sws T)) + int (length (waiting_sws T))"

definition submit_ok :: "submitter \<Rightarrow> bool" where
  "submit_ok T \<longleftrightarrow> load (core T) + tsreduce T + in_hand T = 0 \<and> wip T = in_hand T \<and> ids_ok (core T) \<and>
     (\<forall>x\<in>set (write_sws T) \<union> set (waiting_sws T). sws_failures x = 0) \<and>
     (0 \<le> opt_retries (core T) \<longrightarrow> (\<forall>x\<in>set (curl_sws T). sws_failures x \<le> opt_retries (core T)))"

lemma begin_failures: "begin_submission E w s = (t, v, Some x) \<Longrightarrow> sws_failures x = 0"
  by (auto simp: begin_submission_def Let_def case_prod_unfold split: if_splits)

lemma sws_has_ce_failures [simp]: "sws_failures (sws_has_ce s x) = sws_failures x"
  by (simp add: sws_has_ce_def)

lemma receive_one_ok:
  assumes "submit_ok T"
  shows "submit_ok (receive_one E got_ce T)"
proof (cases "submit_waiting (core T)")
  case Nil
  then show ?thesis using assms by (simp add: receive_one_def)
next
  case (Cons w ws)
  define s where "s = (core T)\<lparr>submit_waiting := ws\<rparr>"
  obtain t v r where b: "begin_submission E w s = (t, v, r)" by (rule prod_cases3)
  have "sub_view t = sub_view s" using sub_view_begin [of E w s] b by simp
  note V = sub_viewD [OF this] and I = ids_ok_view [OF this]
  have s: "load s = load (core T) - 1" "ids_ok s = ids_ok (core T)" "opt_retries s = opt_retries (core T)"
    using Cons by (simp_all add: s_def load_def ids_ok_def)
  show ?thesis
  proof (cases r)
    case None
    define u where "u = t\<lparr>total_submitting := total_submitting t - 1\<rparr>"
    have u: "load u = load t + 1" "ids_ok u = ids_ok t" "opt_retries u = opt_retries t" by (simp_all add: u_def load_def ids_ok_def)
    have "sub_view (free_work v u) = sub_view u" by (rule sub_view_upd)
    note F = sub_viewD [OF this] ids_ok_view [OF this]
    have "receive_one E got_ce T = T\<lparr>core := free_work v u\<rparr>"
      by (simp add: receive_one_def Cons s_def [symmetric] b None u_def Let_def)
    then show ?thesis using assms F u V I s by (simp add: submit_ok_def in_hand_def)
  next
    case (Some x)
    have x: "sws_failures x = 0" using begin_failures b Some by blast
    define U where "U = T\<lparr>core := t, wip := wip T + 1\<rparr>"
    have "receive_one E got_ce T = (if w_getwork_mode v = GETWORK_MODE_STRATUM then U\<lparr>write_sws := x # write_sws T\<rparr>
        else if got_ce v then U\<lparr>curl_sws := curl_sws T @ [sws_has_ce t x]\<rparr> else U\<lparr>waiting_sws := x # waiting_sws T\<rparr>)"
      by (simp add: receive_one_def Cons s_def [symmetric] b Some U_def Let_def)
    then show ?thesis using assms V I s x by (auto simp: submit_ok_def in_hand_def U_def)
  qed
qed

lemma receive_ok: "submit_ok T \<Longrightarrow> submit_ok (receive E got_ce T)"
proof -
  assume ok: "submit_ok T"
  define U where "U = T\<lparr>core := (core T)\<lparr>total_submitting := total_submitting (core T) - tsreduce T\<rparr>, tsreduce := 0\<rparr>"
  have "submit_ok U" using ok by (simp add: U_def submit_ok_def load_def ids_ok_def in_hand_def)
  moreover have "submit_ok V \<Longrightarrow> submit_ok ((receive_one E got_ce ^^ n) V)" for n V
    by (induction n) (simp_all add: receive_one_ok)
  ultimately show ?thesis by (simp add: receive_def U_def Let_def)
qed

lemma list_delete_props: "i < length xs \<Longrightarrow> int (length (list_delete i xs)) = int (length xs) - 1"
  "set (list_delete i xs) \<subseteq> set xs"
  by (auto simp: list_delete_def dest: in_set_takeD in_set_dropD)

lemma submit_ok_core:
  "submit_ok T \<Longrightarrow> load t = load (core T) \<Longrightarrow> ids_ok t \<Longrightarrow> opt_retries t = opt_retries (core T) \<Longrightarrow> submit_ok (T\<lparr>core := t\<rparr>)"
  by (simp add: submit_ok_def in_hand_def)

lemma submit_ok_view: "submit_ok T \<Longrightarrow> sub_view t = sub_view (core T) \<Longrightarrow> submit_ok (T\<lparr>core := t\<rparr>)"
proof (rule submit_ok_core)
  assume ok: "submit_ok T" and v: "sub_view t = sub_view (core T)"
  show "load t = load (core T)" "opt_retries t = opt_retries (core T)" using sub_viewD [OF v] by blast+
  show "ids_ok t" using ids_ok_view [OF v] ok by (simp add: submit_ok_def)
qed

lemma find_first_remove: "List.find P xs = Some x \<Longrightarrow> x \<in> set xs"
  by (auto simp: find_Some_iff)

lemma finish_submission_ok:
  assumes ok: "submit_ok T" and i: "i < length (curl_sws T)"
  shows "submit_ok (finish_submission i sws T)"
proof -
  define U where "U = T\<lparr>wip := wip T - 1, tsreduce := tsreduce T + 1, curl_sws := list_delete i (curl_sws T)\<rparr>"
  have U: "submit_ok U"
    using ok list_delete_props(1) [OF i] list_delete_props(2) [of i "curl_sws T"]
    by (auto simp: submit_ok_def U_def in_hand_def)
  define V where "V = (case List.find (\<lambda>x. w_pool (sws_work x) = w_pool (sws_work sws)) (waiting_sws U) of None \<Rightarrow> U
    | Some x \<Rightarrow> U\<lparr>waiting_sws := remove1 x (waiting_sws U), curl_sws := curl_sws U @ [sws_has_ce (core U) x]\<rparr>)"
  have "submit_ok V"
  proof (cases "List.find (\<lambda>x. w_pool (sws_work x) = w_pool (sws_work sws)) (waiting_sws U)")
    case None
    then show ?thesis using U by (simp add: V_def)
  next
    case (Some x)
    then have x: "x \<in> set (waiting_sws U)" by (rule find_first_remove)
    then have n: "int (length (remove1 x (waiting_sws U))) = int (length (waiting_sws U)) - 1"
      using length_pos_if_in_set [OF x] by (simp add: length_remove1 of_nat_diff Suc_le_eq)
    have "sws_failures x = 0" using U x by (simp add: submit_ok_def)
    moreover have "set (remove1 x (waiting_sws U)) \<subseteq> set (waiting_sws U)" by (rule set_remove1_subset)
    ultimately show ?thesis using n U Some by (auto simp: V_def submit_ok_def in_hand_def)
  qed
  then have "submit_ok (V\<lparr>core := free_work (sws_work sws) (core V)\<rparr>)" by (rule submit_ok_view) (rule sub_view_upd)
  then show ?thesis by (simp only: finish_submission_def Let_def U_def V_def)
qed

lemma retry_failures:
  "retry_submission E x s = (t, y, True) \<Longrightarrow> 0 \<le> opt_retries s \<Longrightarrow> sws_failures y \<le> opt_retries s"
  by (auto simp: retry_submission_def Let_def split: if_splits)

lemma complete_curl_ok:
  assumes ok: "submit_ok T" and i: "i < length (curl_sws T)"
  shows "submit_ok (complete_curl E J val i T)"
proof -
  define x where "x = curl_sws T ! i"
  obtain s fin where c: "submit_upstream_work_completed E J val (sws_work x) (core T) = (s, fin)" by fastforce
  have s: "sub_view s = sub_view (core T)" using sub_view_completed [of E J val "sws_work x" "core T"] c by simp
  note T1 = submit_ok_view [OF ok s]
  show ?thesis
  proof (cases fin)
    case True
    then have "complete_curl E J val i T = finish_submission i x (T\<lparr>core := s\<rparr>)"
      by (simp add: complete_curl_def x_def [symmetric] c)
    then show ?thesis using finish_submission_ok [OF T1] i by simp
  next
    case False
    obtain t y again where r: "retry_submission E x s = (t, y, again)" by (rule prod_cases3)
    have t: "sub_view t = sub_view (core T)" using sub_view_retry [of E x s] r s by simp
    note T2 = submit_ok_view [OF ok t]
    have e: "complete_curl E J val i T = (if again then T\<lparr>core := t, curl_sws := (curl_sws T)[i := y]\<rparr> else finish_submission i y (T\<lparr>core := t\<rparr>))"
      using False by (simp add: complete_curl_def x_def [symmetric] c r Let_def)
    have "sws_failures y \<le> opt_retries t" if again "0 \<le> opt_retries t"
      using retry_failures [of E x s t y] r that sub_viewD [OF s] sub_viewD [OF t] by simp
    then have "again \<Longrightarrow> submit_ok (T\<lparr>core := t, curl_sws := (curl_sws T)[i := y]\<rparr>)"
      using T2 set_update_subset_insert [of "curl_sws T" i y] by (auto simp: submit_ok_def in_hand_def)
    then show ?thesis unfolding e using finish_submission_ok [OF T2] i by simp
  qed
qed


lemma write_share_ok:
  assumes ok: "submit_ok T" and i: "i < length (write_sws T)" and mid: "\<And>s. other_thread E J s (mid s)"
    and go: "snd (write_share E mid ret i T)"
  shows "submit_ok (fst (write_share E mid ret i T))"
proof -
  define w where "w = sws_work (write_sws T ! i)"
  define pool where "pool = w_pool w"
  define del where "del = (\<lambda>T :: submitter. T\<lparr>core := free_work w (core T), write_sws := list_delete i (write_sws T), wip := wip T - 1\<rparr>)"
  have load_del: "load (core (del U)) = load (core U)" "ids_ok (core (del U)) = ids_ok (core U)" "opt_retries (core (del U)) = opt_retries (core U)" for U
    using sub_viewD [OF sub_view_upd(8)] ids_ok_view [OF sub_view_upd(8)] by (auto simp: del_def)
  have del: "submit_ok (del U)"
    if "load (core U) + tsreduce U + in_hand U = 1" "wip U = in_hand U" "ids_ok (core U)" "opt_retries (core U) = opt_retries (core T)"
      "write_sws U = write_sws T" "curl_sws U = curl_sws T" "waiting_sws U = waiting_sws T" for U
    using that ok i list_delete_props(1) [OF i] list_delete_props(2) [of i "write_sws T"] load_del [of U]
    by (auto simp: submit_ok_def in_hand_def del_def)
  define match where "match \<longleftrightarrow> sw_nonce1 (p_swork (the_pool (core T) pool)) = None \<or> w_nonce1 w = sw_nonce1 (p_swork (the_pool (core T) pool))"
  obtain c v where c: "copy_work_noffset w 0 (core T) = (c, v)" by fastforce
  have vc: "sub_view c = sub_view (core T)" using sub_view_upd(10) [of w 0 "core T"] c by simp
  define a where "a = c\<lparr>swork_id := swork_id c + 1, stratum_shares := stratum_shares c @ [(swork_id c, v)]\<rparr>"
  have a: "load a = load (core T) + 1" "ids_ok a" "opt_retries a = opt_retries (core T)" "swork_id a = swork_id c + 1"
    using sub_viewD [OF vc] ids_ok_view [OF vc] ok by (auto simp: a_def load_def ids_ok_def submit_ok_def)
  define b where "b = stratum_send ret pool a"
  have vb: "sub_view b = sub_view a" unfolding b_def by (rule sub_view_send)
  note W = write_share_def [of E mid ret i T, unfolded Let_def, folded w_def, folded pool_def, folded del_def match_def, unfolded c prod.case, folded a_def, folded b_def]
  consider "\<not> match" | "match" "ret = SEND_OK" | "match" "ret \<noteq> SEND_OK" "\<not> ps_submit_fail (p_stats (the_pool b pool))"
    using go W by (auto split: if_splits)
  then show ?thesis
  proof cases
    case 1
    have v: "sub_view (submit_discard_share E w (core T)) = sub_view (core T)" by (rule sub_view_answers)
    have e: "fst (write_share E mid ret i T) = del (T\<lparr>core := submit_discard_share E w (core T), tsreduce := tsreduce T + 1\<rparr>)"
      unfolding W using 1 by (simp add: del_def)
    show ?thesis unfolding e by (rule del) (use sub_viewD [OF v] ids_ok_view [OF v] ok in \<open>simp_all add: submit_ok_def in_hand_def\<close>)
  next
    case 2
    have v: "sub_view (upd_stats pool (\<lambda>p. p\<lparr>ps_submit_fail := False\<rparr>) b) = sub_view a" by (simp add: sub_simps vb)
    have e: "fst (write_share E mid ret i T) = del (T\<lparr>core := upd_stats pool (\<lambda>p. p\<lparr>ps_submit_fail := False\<rparr>) b\<rparr>)"
      unfolding W using 2 by (simp add: del_def)
    show ?thesis unfolding e by (rule del) (use sub_viewD [OF v] ids_ok_view [OF v] ok a in \<open>simp_all add: submit_ok_def in_hand_def\<close>)
  next
    case 3
    define d where "d = upd_stats pool (\<lambda>p. p\<lparr>ps_submit_fail := True\<rparr>) b"
    have vd: "sub_view d = sub_view a" by (simp add: d_def sub_simps vb)
    define e where "e = mid d"
    have e: "load e = load a" "ids_ok e" "opt_retries e = opt_retries a"
      using other_thread_result [OF mid [of d]] sub_viewD [OF vd] ids_ok_view [OF vd] a by (auto simp: e_def)
    define sshare where "sshare = map_of (stratum_shares e) (swork_id c)"
    define f where "f = e\<lparr>stratum_shares := HASH_DEL_id (swork_id c) (stratum_shares e)\<rparr>"
    have f: "load f = load a - (if sshare = None then 0 else 1)" "ids_ok f" "opt_retries f = opt_retries (core T)"
      using length_HASH_DEL [of "stratum_shares e" "swork_id c"] e ids_ok_filter [OF e(2), of f] a(3)
      by (auto simp: f_def load_def ids_ok_def sshare_def HASH_DEL_id_def)
    define g where "g = upd_stats pool (\<lambda>p. p\<lparr>ps_remotefail_occasions := ps_remotefail_occasions p + 1\<rparr>)
      (upd_gstats (\<lambda>g. g\<lparr>total_ro := total_ro g + 1\<rparr>) (case sshare of Some v \<Rightarrow> free_work v f | None \<Rightarrow> f))"
    have vg: "sub_view g = sub_view f" by (simp add: g_def sub_simps split: option.split)
    have r: "fst (write_share E mid ret i T) = (if sshare = None then del (T\<lparr>core := g\<rparr>) else T\<lparr>core := g\<rparr>)"
      unfolding W del_def g_def f_def sshare_def e_def d_def using 3 by simp
    show ?thesis
    proof (cases "sshare = None")
      case True
      then have e: "fst (write_share E mid ret i T) = del (T\<lparr>core := g\<rparr>)" unfolding r by simp
      show ?thesis unfolding e
        by (rule del) (use True sub_viewD [OF vg] ids_ok_view [OF vg] f ok a(1) in \<open>simp_all add: submit_ok_def in_hand_def\<close>)
    next
      case False
      then have e: "fst (write_share E mid ret i T) = T\<lparr>core := g\<rparr>" unfolding r by (simp only: if_False)
      show ?thesis unfolding e
        by (rule submit_ok_core [OF ok]) (use False sub_viewD [OF vg] ids_ok_view [OF vg] f ok a(1) in \<open>simp_all add: submit_ok_def\<close>)
    qed
  qed
qed


section \<open>What the submission thread and its peers can do\<close>

text \<open>
  One step: a mining thread submits a nonce, the stratum thread works on the shares sent, or the
  submission thread takes new shares, writes one, or finishes a request. The write of a share that fails
  a second time in a row is left out here: see \<open>write_share_leaks\<close>.
\<close>

inductive submit_event :: "env \<Rightarrow> 'j json_api \<Rightarrow> submitter \<Rightarrow> submitter \<Rightarrow> bool" for E J where
  se_nonce: "submit_event E J T (T\<lparr>core := fst (submit_noffset_nonce E J thr w nonce noffset (core T))\<rparr>)"
| se_stratum: "submit_event E J T (T\<lparr>core := s\<rparr>)" if "other_thread E J (core T) s"
| se_receive: "submit_event E J T (receive E got_ce T)"
| se_write: "submit_event E J T (fst (write_share E mid ret i T))"
    if "i < length (write_sws T)" "\<forall>s. other_thread E J s (mid s)" "snd (write_share E mid ret i T)"
| se_curl: "submit_event E J T (complete_curl E J val i T)" if "i < length (curl_sws T)"

definition initial_submitter :: "miner \<Rightarrow> submitter" where
  "initial_submitter s =
     \<lparr>core = s\<lparr>submit_waiting := [], total_submitting := 0, stratum_shares := []\<rparr>, wip = 0, tsreduce = 0,
      write_sws = [], curl_sws = [], waiting_sws = []\<rparr>"

inductive submit_reachable :: "env \<Rightarrow> 'j json_api \<Rightarrow> submitter \<Rightarrow> bool" for E J where
  sr_init: "submit_reachable E J (initial_submitter s)"
| sr_step: "submit_reachable E J U" if "submit_reachable E J T" "submit_event E J T U"

lemma sub_view_benchmark: "sub_view (benchmark_submit E J w s) = sub_view s"
proof -
  have d: "sub_view (s\<lparr>dupe_hashes := l\<rparr>) = sub_view s" for s l by (simp add: sub_view_def load_def)
  show ?thesis using sub_view_check_block [of E w s]
    by (simp add: benchmark_submit_def Let_def case_prod_unfold sub_simps d)
qed

lemma sub_view_submit_nonce: "sub_view (fst (submit_noffset_nonce E J thr w nonce noffset s)) = sub_view s"
proof -
  have h: "sub_view (inc_hw_errors E thr x t) = sub_view t" "sub_view (fst (share_diff E v t)) = sub_view t" for x v t
    by (simp_all add: inc_hw_errors_def inc_hw_errors3_def share_diff_def Let_def sub_simps)
  show ?thesis
    by (simp add: submit_noffset_nonce_def submit_work_async_def Let_def case_prod_unfold sub_simps h sub_view_benchmark)
qed

lemma submit_event_ok: "submit_event E J T U \<Longrightarrow> submit_ok T \<Longrightarrow> submit_ok U"
proof (induction rule: submit_event.induct)
  case (se_nonce T thr w nonce noffset)
  then show ?case by (rule submit_ok_view) (rule sub_view_submit_nonce)
next
  case (se_stratum T s)
  then show ?case using other_thread_result [OF se_stratum.hyps]
    by (intro submit_ok_core) (simp_all add: submit_ok_def)
next
  case (se_receive T got_ce)
  then show ?case by (rule receive_ok)
next
  case (se_write i T mid ret)
  then show ?case by (intro write_share_ok [where J = J]) simp_all
next
  case (se_curl i T val)
  then show ?case by (intro complete_curl_ok)
qed

lemma submit_reachable_ok: "submit_reachable E J T \<Longrightarrow> submit_ok T"
proof (induction rule: submit_reachable.induct)
  case (sr_init s)
  show ?case by (simp add: submit_ok_def initial_submitter_def load_def in_hand_def ids_ok_def)
next
  case (sr_step T U)
  then show ?case using submit_event_ok by blast
qed


text \<open>A share leaks: when a send fails and the pool is already known to fail, the loop of the thread looks at
  the same share again and has entered one more copy of it among the shares sent; while the sends fail
  for want of an active connection nothing else changes, so after n rounds there are n copies more,
  none of them counted in \<^verbatim>\<open>total_submitting\<close>.\<close>

theorem write_share_leaks:
  fixes T :: submitter and E :: env and mid :: "miner \<Rightarrow> miner" and i n :: nat
  assumes fail: "ps_submit_fail (p_stats (the_pool (core T) (w_pool (sws_work (write_sws T ! i)))))"
    and session: "sw_nonce1 (p_swork (the_pool (core T) (w_pool (sws_work (write_sws T ! i))))) = None"
  defines "U \<equiv> ((\<lambda>T. fst (write_share E mid SEND_INACTIVE i T)) ^^ n) T"
  shows "\<not> snd (write_share E mid SEND_INACTIVE i U) \<and> write_sws U = write_sws T \<and>
    length (stratum_shares (core U)) = length (stratum_shares (core T)) + n \<and>
    total_submitting (core U) = total_submitting (core T) \<and> wip U = wip T"
proof -
  define w where "w = sws_work (write_sws T ! i)"
  have step: "\<not> snd (write_share E mid SEND_INACTIVE i V) \<and> write_sws (fst (write_share E mid SEND_INACTIVE i V)) = write_sws V \<and>
      length (stratum_shares (core (fst (write_share E mid SEND_INACTIVE i V)))) = Suc (length (stratum_shares (core V))) \<and>
      total_submitting (core (fst (write_share E mid SEND_INACTIVE i V))) = total_submitting (core V) \<and>
      wip (fst (write_share E mid SEND_INACTIVE i V)) = wip V \<and>
      pstore (core (fst (write_share E mid SEND_INACTIVE i V))) = pstore (core V)"
    if "write_sws V = write_sws T" "pstore (core V) = pstore (core T)" for V
  proof -
    obtain c v where c: "copy_work_noffset w 0 (core V) = (c, v)" by fastforce
    note f = copy_work_frame [OF c]
    have x: "sws_work (write_sws V ! i) = w" by (simp add: that w_def)
    have "write_share E mid SEND_INACTIVE i V =
        (V\<lparr>core := c\<lparr>swork_id := swork_id c + 1, stratum_shares := stratum_shares c @ [(swork_id c, v)]\<rparr>\<rparr>, False)"
      using fail session that by (simp add: write_share_def x c stratum_send_def f w_def [symmetric] Let_def)
    then show ?thesis by (simp add: f that)
  qed
  have "write_sws U = write_sws T \<and> pstore (core U) = pstore (core T) \<and>
      length (stratum_shares (core U)) = length (stratum_shares (core T)) + n \<and>
      total_submitting (core U) = total_submitting (core T) \<and> wip U = wip T"
    unfolding U_def using step by (induction n) simp_all
  then show ?thesis using step [of U] by blast
qed

end
