(* ===== verification/Staging.thy ===== *)
theory Staging
  imports Blocks
begin

text \<open>
  The life of a work item between the pool and the mining thread (\<^verbatim>\<open>miner.c\<close>): rolling its time or its
  template, cloning it, staging it, and taking the best staged item for a device. The items in the
  table are changed in place, at their position in the list.
\<close>

section \<open>Rolling\<close>

definition should_roll :: "miner \<Rightarrow> work \<Rightarrow> bool" where
  "should_roll s w =
     (if \<not> pool_actively_in_use s (w_pool w) None then False
      else if stale_work s w False then False
      else let expiry = (if w_rolltime w > opt_scantime s then w_rolltime w else opt_scantime s);
               expiry = expiry * 2 sdiv 3
           in \<not> tv_sec (now s) - tv_sec (w_tv_staged w) > expiry)"

definition can_roll :: "env \<Rightarrow> miner \<Rightarrow> work \<Rightarrow> bool" where
  "can_roll E s w =
     (if w_stratum w then False
      else if \<not> (w_pool w \<noteq> 0 \<and> \<not> w_clone w) then False
      else case w_tr w of
        Some t \<Rightarrow> if stale_work s w False then False else work_left E (tmpl_state s t)
      | None \<Rightarrow> w_rolltime w \<noteq> 0 \<and> w_rolls w < 7000 \<and> \<not> stale_work s w False)"

definition roll_work :: "env \<Rightarrow> work \<Rightarrow> miner \<Rightarrow> miner \<times> work" where
  "roll_work E w s =
     (let (s, w) =
        (case w_tr w of
           Some t \<Rightarrow>
             (let (header, dataid, size, state) = get_data E (tmpl_state s t) (tv_sec (now s)) (take 80 (w_data w));
                  s = s\<lparr>tmpl_state := (tmpl_state s)(t := state)\<rparr>;
                  data = mem_write (w_data w) 0 (take 80 header);
                  data = mem_write data 0 (swap32yes data (80 div 4))
              in (s, w\<lparr>w_data := data, w_dataid := dataid, w_midstate := calc_midstate (sha_junk E) data\<rparr>))
         | None \<Rightarrow>
             (let ntime = upk_u32be (w_data w) 68;
                  data = pk_u32be (w_data w) 68 (ntime + 1)
              in (s, w\<lparr>w_data := data,
                       w_ntime_roll_limits := work_set_simple_ntime_roll_limit data 0 (nrl_tv_ref (w_ntime_roll_limits w))\<rparr>)));
          s = s\<lparr>local_work := local_work s + 1\<rparr>;
          w = w\<lparr>w_rolls := w_rolls w + 1, w_blk_nonce := 0, w_id := total_work s\<rparr>
      in (s\<lparr>total_work := total_work s + 1\<rparr>, w))"

definition make_clone :: "work \<Rightarrow> miner \<Rightarrow> miner \<times> work" where
  "make_clone w s =
     (let (s, v) = copy_work_noffset w 0 s
      in (s, v\<lparr>w_clone := True, w_tv_cloned := now s, w_longpoll := False, w_mandatory := False,
               w_tv_staged := (w_tv_staged v)\<lparr>tv_sec := tv_sec (w_tv_staged v) - 1\<rparr>\<rparr>))"

section \<open>Staging\<close>

definition stage_work :: "env \<Rightarrow> work \<Rightarrow> miner \<Rightarrow> miner" where
  "stage_work E w s =
     (let w = w\<lparr>w_work_restart_id := p_work_restart_id (the_pool s (w_pool w))\<rparr>;
          s = upd_pool (w_pool w) (\<lambda>p. p\<lparr>p_last_work_time := tv_sec (now s), p_tv_last_work_time := now s\<rparr>) s;
          (s, w, _) = test_work_current E w s;
          s = upd_pool (w_pool w) (\<lambda>p. p\<lparr>p_works := p_works p + 1\<rparr>) s
      in fst (hash_push E w s))"

definition clone_available :: "env \<Rightarrow> miner \<Rightarrow> miner \<times> bool" where
  "clone_available E s =
     (if staged_rollable s = 0 then (s, False)
      else case List.find (\<lambda>i. can_roll E s (staged_work s ! i) \<and> should_roll s (staged_work s ! i)) [0..<length (staged_work s)] of
        None \<Rightarrow> (s, False)
      | Some i \<Rightarrow>
          let (s, w) = roll_work E (staged_work s ! i) s;
              (s, work_clone) = make_clone w s;
              (s, w) = roll_work E w s;
              s = s\<lparr>staged_work := (staged_work s)[i := w]\<rparr>
          in (stage_work E work_clone s, True))"

text \<open>
  The scores of \<^verbatim>\<open>hash_pop\<close> and its pass over the table. \<open>min_diff\<close> is \<^verbatim>\<open>drv_min_nonce_diff\<close> of the device for an
  algorithm; \<open>hc\<close> is the number of staged items.
\<close>

definition HPWS_NONE :: nat where "HPWS_NONE = 0"
definition HPWS_LOWDIFF :: nat where "HPWS_LOWDIFF = 1"
definition HPWS_SPARE :: nat where "HPWS_SPARE = 2"
definition HPWS_ROLLABLE :: nat where "HPWS_ROLLABLE = 3"
definition HPWS_PERFECT :: nat where "HPWS_PERFECT = 4"

text \<open>
  The macro \<^verbatim>\<open>FOUND_WORK\<close> on the item found so far and its score. Its \<^verbatim>\<open>continue\<close> stands inside
  \<^verbatim>\<open>do { ... } while(0)\<close>: it ends that loop and not the pass over the table, so what follows the macro is
  executed as well.
\<close>

definition FOUND_WORK :: "nat \<Rightarrow> work \<Rightarrow> work option \<times> nat \<Rightarrow> work option \<times> nat" where
  "FOUND_WORK score w st = (if snd st < score then (Some w, score) else st)"

fun pop_scan :: "(nat \<Rightarrow> rat) \<Rightarrow> int \<Rightarrow> miner \<Rightarrow> work list \<Rightarrow> work option \<times> nat \<Rightarrow> work option \<times> nat" where
  "pop_scan min_diff hc s [] st = st"
| "pop_scan min_diff hc s (w # ws) st =
     (let min_nonce_diff = min_diff (work_mining_algorithm s w)
      in if min_nonce_diff < w_work_difficulty w \<and> min_nonce_diff < 0 then pop_scan min_diff hc s ws st
         else let st = (if min_nonce_diff < w_work_difficulty w then FOUND_WORK HPWS_LOWDIFF w st else st);
                  st = (if w_spare w then FOUND_WORK HPWS_SPARE w st else st);
                  st = (if w_rolltime w \<noteq> 0 \<and> hc > staged_rollable s then FOUND_WORK HPWS_ROLLABLE w st else st)
              in (Some w, HPWS_PERFECT))"

definition pop_select :: "(nat \<Rightarrow> rat) \<Rightarrow> miner \<Rightarrow> work option" where
  "pop_select min_diff s =
     fst (pop_scan min_diff (int (length (staged_work s))) s (staged_work s) (None, HPWS_NONE))"

text \<open>Nothing fits: the underrun is noted and the thread waits.\<close>

definition pop_underrun :: "miner \<Rightarrow> miner" where
  "pop_underrun s =
     (if staged_full s
      then s\<lparr>opt_queue := (if opt_queue s < 10 + mining_threads s then opt_queue s + 1 else opt_queue s),
             staged_full := False, no_work := True\<rparr>
      else s)"

text \<open>
  One call until it returns an item (\<open>Some w\<close>) or waits for a push (\<open>None\<close> inside); \<open>fuel\<close> bounds the
  rounds of \<^verbatim>\<open>retry\<close>, the outer \<open>None\<close> is its end.
\<close>

fun hash_pop :: "env \<Rightarrow> (nat \<Rightarrow> rat) \<Rightarrow> nat \<Rightarrow> miner \<Rightarrow> (miner \<times> work option) option" where
  "hash_pop E min_diff 0 s = None"
| "hash_pop E min_diff (Suc fuel) s =
     (case pop_select min_diff s of
        None \<Rightarrow> Some (pop_underrun s, None)
      | Some w \<Rightarrow>
          let s = s\<lparr>no_work := False\<rparr>
          in if can_roll E s w \<and> should_roll s w then hash_pop E min_diff fuel (fst (clone_available E s))
             else let s = unstage_work w s;
                      s = upd_pool (w_pool w) (\<lambda>p. p\<lparr>p_last_work_time := tv_sec (now s), p_tv_last_work_time := now s\<rparr>) s
                  in Some (s, Some w))"

text \<open>The loop of \<^verbatim>\<open>clone_work\<close>, \<open>mrs\<close> rounds left.\<close>

fun clone_work_loop :: "env \<Rightarrow> nat \<Rightarrow> work \<Rightarrow> work \<Rightarrow> bool \<Rightarrow> miner \<Rightarrow> miner \<times> work \<times> work \<times> bool" where
  "clone_work_loop E 0 w work_clone cloned s = (s, w, work_clone, cloned)"
| "clone_work_loop E (Suc mrs) w work_clone cloned s =
     (if can_roll E s w \<and> should_roll s w then
        (let s = stage_work E work_clone s;
             (s, w) = roll_work E w s;
             (s, work_clone) = make_clone w s;
             (s, w) = roll_work E w s
         in clone_work_loop E mrs w work_clone True s)
      else (s, w, work_clone, cloned))"

definition clone_work :: "env \<Rightarrow> work \<Rightarrow> miner \<Rightarrow> miner \<times> work" where
  "clone_work E w s =
     (let mrs = mining_threads s + opt_queue s - total_staged False s
      in if mrs < 1 then (s, w)
         else let (s, work_clone) = make_clone w s;
                  (s, w, work_clone, cloned) = clone_work_loop E (nat mrs) w work_clone False s
              in if cloned then (stage_work E w s, work_clone) else (free_work work_clone s, w))"

section \<open>The choice of an item\<close>

definition acceptable :: "(nat \<Rightarrow> rat) \<Rightarrow> miner \<Rightarrow> work \<Rightarrow> bool" where
  "acceptable min_diff s w \<longleftrightarrow>
     \<not> (min_diff (work_mining_algorithm s w) < w_work_difficulty w \<and> min_diff (work_mining_algorithm s w) < 0)"

lemma pop_select_find: "pop_select min_diff s = List.find (acceptable min_diff s) (staged_work s)"
proof -
  have "fst (pop_scan min_diff hc s ws (None, score)) = List.find (acceptable min_diff s) ws" for hc ws score
    by (induction ws) (simp_all add: Let_def acceptable_def)
  then show ?thesis by (simp add: pop_select_def)
qed

text \<open>\<^verbatim>\<open>hash_pop\<close> takes the first staged item the device can work on at all, whatever comes behind it: the scores
  for a low difficulty, a spare and a rollable item, which are meant to keep looking for a better match,
  have no effect.\<close>

theorem pop_select_first:
  assumes "staged_work s = before @ w # behind" "\<forall>v\<in>set before. \<not> acceptable min_diff s v" "acceptable min_diff s w"
  shows "pop_select min_diff s = Some w"
proof -
  have "List.find (acceptable min_diff s) (before @ w # behind) = Some w"
    using assms(2,3) by (induction before) simp_all
  then show ?thesis by (simp add: pop_select_find assms(1))
qed

section \<open>Rolling\<close>

lemma roll_work_result:
  assumes "roll_work E w s = (t, v)"
  shows "staged_same s t" "total_work t = total_work s + 1" "w_id v = total_work s" "w_rolls v = w_rolls w + 1"
    "w_clone v = w_clone w" "w_rolltime v = w_rolltime w" "w_spare v = w_spare w" "w_pool v = w_pool w" "w_tr v = w_tr w"
    "gstore t = gstore s" "new_blocks t = new_blocks s" "pstore t = pstore s"
  using assms by (auto simp: roll_work_def Let_def staged_same_def split: option.splits prod.splits)

text \<open>Rolling an item without a template advances its header time by exactly one second, modulo 2 to the 32, and
  changes no other byte of the header; the nonce starts again at 0 and the item gets a fresh id.\<close>

theorem roll_work_time:
  assumes "w_tr w = None" "length (w_data w) = 128" "roll_work E w s = (t, v)"
  shows "work_get_ntime (w_data v) = work_get_ntime (w_data w) + 1 \<and> length (w_data v) = 128 \<and>
    (\<forall>i. i < 68 \<or> 72 \<le> i \<longrightarrow> w_data v ! i = w_data w ! i) \<and>
    w_blk_nonce v = 0 \<and> w_id v = total_work s \<and> total_work t = total_work s + 1 \<and>
    nrl_min (w_ntime_roll_limits v) = work_get_ntime (w_data v)"
proof -
  have d: "w_data v = pk_u32be (w_data w) 68 (upk_u32be (w_data w) 68 + 1)"
    using assms by (auto simp: roll_work_def Let_def)
  have l: "w_ntime_roll_limits v = work_set_simple_ntime_roll_limit (w_data v) 0 (nrl_tv_ref (w_ntime_roll_limits w))"
    using assms by (auto simp: roll_work_def Let_def)
  have "upk_u32be (w_data v) 68 = upk_u32be (w_data w) 68 + 1"
    unfolding d by (rule f32be.upk_pk) (simp add: assms(2))
  then show ?thesis
    using roll_work_result [OF assms(3)] assms
    by (auto simp: d l work_get_ntime_def work_set_simple_ntime_roll_limit_def set_simple_ntime_roll_limit_def Let_def pk_u32be_def
        roll_work_def)
qed

section \<open>The counters through staging and popping\<close>

lemma make_clone_result:
  assumes "make_clone w s = (t, v)"
  shows "staged_same s t" "total_work t = total_work s + 1" "w_id v = total_work s" "w_clone v" "w_tr v = w_tr w"
    "gstore t = gstore s" "new_blocks t = new_blocks s" "pstore t = pstore s" "w_pool v = w_pool w"
  using assms
  by (auto simp: make_clone_def copy_work_noffset_def make_work_def clean_work_def zero_work_def tmpl_incref_def Let_def
      staged_same_def split: option.splits)

lemma test_work_current_result:
  assumes ok: "staged_ok s" and t: "test_work_current E w s = (t, v, known)"
  shows "staged_ok t" "set (staged_work t) \<subseteq> set (staged_work s)" "total_work s \<le> total_work t" "getq_frozen t = getq_frozen s"
    "w_id v = w_id w" "w_clone v = w_clone w" "w_tr v = w_tr w" "w_pool v = w_pool w"
proof -
  have n: "staged_same s (new_block E w s)" by (rule staged_same_new_block)
  then have okn: "staged_ok (new_block E w s)" using staged_same_ok ok by blast
  note r = restart_threads_result [OF okn] and k = known_block_result [OF ok, of w]
  have *: "t = s \<or> t = new_block E w s \<or> t = restart_threads (new_block E w s) \<or> t = known_block w s"
    and v: "v = w \<or> v = w\<lparr>w_longpoll := False\<rparr>"
    using t by (auto simp: test_work_current_def Let_def split: if_splits)
  show "staged_ok t" "set (staged_work t) \<subseteq> set (staged_work s)" "total_work s \<le> total_work t" "getq_frozen t = getq_frozen s"
  proof -
    have nf: "staged_work (new_block E w s) = staged_work s" "total_work s \<le> total_work (new_block E w s)"
      "getq_frozen (new_block E w s) = getq_frozen s"
      using n by (simp_all add: staged_same_def)
    show "staged_ok t" using * by (elim disjE) (simp_all only: ok okn r(1) k(1))
    show "set (staged_work t) \<subseteq> set (staged_work s)" using * by (elim disjE) (simp_all only: nf(1) r(4) k(4) filter_is_subset order_refl)
    show "total_work s \<le> total_work t" using * nf(2) r(6) k(5) by (elim disjE) simp_all
    show "getq_frozen t = getq_frozen s" using * nf(3) r(8) k(6) by (elim disjE) simp_all
  qed
  show "w_id v = w_id w" "w_clone v = w_clone w" "w_tr v = w_tr w" "w_pool v = w_pool w" using v by auto
qed

text \<open>What staging one item does to the table.\<close>

lemma stage_work_result:
  assumes ok: "staged_ok s" "\<not> getq_frozen s" and srt: "sorts (hash_sort E) tv_sort"
    and new: "w_id w \<notin> w_id ` set (staged_work s)" "w_id w < total_work s"
  shows "staged_ok (stage_work E w s)" "\<not> getq_frozen (stage_work E w s)" "total_work s \<le> total_work (stage_work E w s)"
    "\<exists>v. set (staged_work (stage_work E w s)) \<subseteq> insert v (set (staged_work s)) \<and> v \<in> set (staged_work (stage_work E w s)) \<and>
       w_id v = w_id w \<and> w_clone v = w_clone w \<and> w_tr v = w_tr w \<and> w_rolls v = w_rolls w"
proof -
  define w1 where "w1 = w\<lparr>w_work_restart_id := p_work_restart_id (the_pool s (w_pool w))\<rparr>"
  define s1 where "s1 = upd_pool (w_pool w) (\<lambda>p. p\<lparr>p_last_work_time := tv_sec (now s), p_tv_last_work_time := now s\<rparr>) s"
  obtain s2 w2 k where t: "test_work_current E w1 s1 = (s2, w2, k)" by (rule prod_cases3)
  define s3 where "s3 = upd_pool (w_pool w2) (\<lambda>p. p\<lparr>p_works := p_works p + 1\<rparr>) s2"
  have s1: "staged_same s s1" unfolding s1_def by (rule staged_same_upd_pool) simp
  then have ok1: "staged_ok s1" using staged_same_ok ok by blast
  note r = test_work_current_result [OF ok1 t]
  have s3: "staged_same s2 s3" unfolding s3_def by (rule staged_same_upd_pool) simp
  then have ok3: "staged_ok s3" using staged_same_ok r(1) by blast
  have fr: "\<not> getq_frozen s3" using ok(2) s1 r(4) s3 by (simp add: staged_same_def)
  have sub: "set (staged_work s3) \<subseteq> set (staged_work s)" using s1 r(2) s3 by (simp add: staged_same_def)
  have id: "w_id w2 = w_id w" using r(5) by (simp add: w1_def)
  have rolls: "w_rolls w2 = w_rolls w"
    using t by (auto simp: test_work_current_def w1_def Let_def split: if_splits)
  have tw: "total_work s \<le> total_work s3" using s1 r(3) s3 by (simp add: staged_same_def)
  have p: "staged_ok (fst (hash_push E w2 s3)) \<and> mset (staged_work (fst (hash_push E w2 s3))) = add_mset w2 (mset (staged_work s3))"
    using hash_push_ok [OF ok3 fr srt] new sub id tw by (auto simp: subset_iff image_iff)
  have e: "stage_work E w s = fst (hash_push E w2 s3)"
  proof -
    have wp: "w_pool w1 = w_pool w" by (simp add: w1_def)
    show ?thesis
      unfolding stage_work_def Let_def w1_def [symmetric] wp
      unfolding s1_def [symmetric] t prod.case s3_def ..
  qed
  show "staged_ok (stage_work E w s)" using p by (simp add: e)
  show "\<not> getq_frozen (stage_work E w s)" "total_work s \<le> total_work (stage_work E w s)"
    using fr tw by (auto simp: e hash_push_def Let_def upd_algo_def)
  have "set (staged_work (stage_work E w s)) = insert w2 (set (staged_work s3))"
    using p mset_eq_setD [of "staged_work (fst (hash_push E w2 s3))" "w2 # staged_work s3"] by (simp add: e)
  then show "\<exists>v. set (staged_work (stage_work E w s)) \<subseteq> insert v (set (staged_work s)) \<and> v \<in> set (staged_work (stage_work E w s)) \<and>
       w_id v = w_id w \<and> w_clone v = w_clone w \<and> w_tr v = w_tr w \<and> w_rolls v = w_rolls w"
    using sub id r(6,7) rolls by (intro exI [of _ w2]) (auto simp: w1_def)
qed

section \<open>Cloning from the table\<close>

text \<open>An item changed in place: only its id and what the counters do not look at.\<close>

lemma count_if_update_same: "i < length xs \<Longrightarrow> P v = P (xs ! i) \<Longrightarrow> count_if P (xs[i := v]) = count_if P xs"
proof (induction xs arbitrary: i)
  case (Cons x xs)
  then show ?case by (cases i) auto
qed simp

lemma staged_ok_replace:
  assumes ok: "staged_ok s" and i: "i < length (staged_work s)"
    and v: "w_id v \<notin> w_id ` set (staged_work s)" "w_id v < total_work s" "work_rollable v = work_rollable (staged_work s ! i)"
      "w_spare v = w_spare (staged_work s ! i)" "w_pool v = w_pool (staged_work s ! i)"
  shows "staged_ok (s\<lparr>staged_work := (staged_work s)[i := v]\<rparr>)"
proof -
  let ?l = "staged_work s"
  have c: "count_if P (?l[i := v]) = count_if P ?l" if "P v = P (?l ! i)" for P
    using count_if_update_same [OF i that] .
  have d: "distinct (map w_id (?l[i := v]))"
    using ok v(1) i by (auto simp: staged_ok_def map_update intro!: distinct_list_update)
  have m: "w_id x < total_work s" if "x \<in> set (?l[i := v])" for x
    using that ok v(2) set_update_subset_insert [of ?l i v] by (auto simp: staged_ok_def)
  have wm: "work_mining_algorithm (s\<lparr>staged_work := ?l[i := v]\<rparr>) = work_mining_algorithm s"
    by (simp add: work_mining_algorithm_def fun_eq_iff)
  have "work_mining_algorithm s v = work_mining_algorithm s (?l ! i)" using v(5) by (simp add: work_mining_algorithm_def)
  then show ?thesis
    using ok d m c [of work_rollable] c [of w_spare] c v(3,4) unfolding staged_ok_def wm by simp
qed

text \<open>How much the items in the table can still be rolled.\<close>

definition roll_left :: "work \<Rightarrow> nat" where
  "roll_left w = (if w_clone w then 0 else nat (7000 - w_rolls w))"

definition roll_budget :: "miner \<Rightarrow> nat" where
  "roll_budget s = (\<Sum>w\<in>set (staged_work s). roll_left w)"

definition no_templates :: "miner \<Rightarrow> bool" where
  "no_templates s \<longleftrightarrow> (\<forall>w\<in>set (staged_work s). w_tr w = None)"

definition rolls_bounded :: "miner \<Rightarrow> bool" where
  "rolls_bounded s \<longleftrightarrow> (\<forall>w\<in>set (staged_work s). w_rolls w \<le> 7001)"

lemma clone_available_result:
  assumes ok: "staged_ok s" "\<not> getq_frozen s" and srt: "sorts (hash_sort E) tv_sort"
    and nt: "no_templates s" and w: "w \<in> set (staged_work s)" "can_roll E s w" "should_roll s w"
  shows "staged_ok (fst (clone_available E s)) \<and> \<not> getq_frozen (fst (clone_available E s)) \<and> no_templates (fst (clone_available E s)) \<and>
    roll_budget (fst (clone_available E s)) < roll_budget s \<and> snd (clone_available E s) \<and>
    (rolls_bounded s \<longrightarrow> rolls_bounded (fst (clone_available E s)))"
proof -
  let ?l = "staged_work s"
  have roll: "w_rolltime x \<noteq> 0 \<and> w_rolls x < 7000 \<and> \<not> w_clone x" if "x \<in> set ?l" "can_roll E s x" for x
    using that nt by (auto simp: can_roll_def no_templates_def split: if_splits)
  have "work_rollable w" using roll [OF w(1,2)] by (simp add: work_rollable_def)
  then have "0 < count_if work_rollable ?l"
    using w(1) by (auto simp: count_if_def filter_empty_conv)
  then have nz: "staged_rollable s \<noteq> 0" using ok(1) by (simp add: staged_ok_def)
  have "List.find (\<lambda>i. can_roll E s (?l ! i) \<and> should_roll s (?l ! i)) [0..<length ?l] \<noteq> None"
    using w by (auto simp: find_None_iff in_set_conv_nth)
  then obtain i where f: "List.find (\<lambda>i. can_roll E s (?l ! i) \<and> should_roll s (?l ! i)) [0..<length ?l] = Some i" by blast
  then have i: "i < length ?l" "can_roll E s (?l ! i)" by (auto simp: find_Some_iff)
  define x where "x = ?l ! i"
  have x: "x \<in> set ?l" "w_rolltime x \<noteq> 0" "w_rolls x < 7000" "\<not> w_clone x" "w_tr x = None"
    using i roll [of x] nt by (auto simp: x_def no_templates_def)
  obtain s1 x1 where r1: "roll_work E x s = (s1, x1)" by fastforce
  obtain s2 c where mc: "make_clone x1 s1 = (s2, c)" by fastforce
  obtain s3 x2 where r2: "roll_work E x1 s2 = (s3, x2)" by fastforce
  note R1 = roll_work_result [OF r1] and MC = make_clone_result [OF mc] and R2 = roll_work_result [OF r2]
  have same: "staged_same s s3" using R1(1) MC(1) R2(1) staged_same_trans by blast
  have ok3: "staged_ok s3" using staged_same_ok [OF same ok(1)] .
  have l3: "staged_work s3 = ?l" "getq_frozen s3 = getq_frozen s" using same by (auto simp: staged_same_def)
  have ids: "w_id c = total_work s + 1" "w_id x2 = total_work s + 2" "total_work s3 = total_work s + 3"
    using R1(2,3) MC(2,3) R2(2,3) by simp_all
  have old: "y \<in> set ?l \<Longrightarrow> w_id y < total_work s" for y using ok(1) by (simp add: staged_ok_def)
  have x2: "w_clone x2 = w_clone x" "w_rolltime x2 = w_rolltime x" "w_spare x2 = w_spare x" "w_pool x2 = w_pool x" "w_tr x2 = None"
    "w_rolls x2 = w_rolls x + 2" using R1(4-9) R2(4-9) x(5) by simp_all
  define s4 where "s4 = s3\<lparr>staged_work := ?l[i := x2]\<rparr>"
  have ok4: "staged_ok s4"
    unfolding s4_def l3(1) [symmetric]
    by (rule staged_ok_replace [OF ok3]) (use i(1) ids old x2 in \<open>force simp: l3 x_def work_rollable_def\<close>)+
  have set4: "set (?l[i := x2]) \<subseteq> insert x2 (set ?l - {x})"
  proof -
    have "set (?l[i := x2]) = insert x2 (set ?l - {?l ! i})"
      by (rule set_update_distinct [OF staged_distinct [OF ok(1)] i(1)])
    then show ?thesis by (simp add: x_def)
  qed
  have new: "w_id c \<notin> w_id ` set (staged_work s4)" "w_id c < total_work s4"
  proof -
    show "w_id c \<notin> w_id ` set (staged_work s4)" using set4 ids old by (force simp: s4_def)
    show "w_id c < total_work s4" using ids by (simp add: s4_def)
  qed
  have fr: "\<not> getq_frozen s4" using ok(2) l3 by (simp add: s4_def)
  note st = stage_work_result [OF ok4 fr srt new]
  have eq: "clone_available E s = (stage_work E c s4, True)"
    using nz f r1 mc r2 by (simp add: clone_available_def x_def [symmetric] l3 s4_def)
  obtain v where v: "set (staged_work (stage_work E c s4)) \<subseteq> insert v (set (staged_work s4))" "w_clone v" "w_tr v = None" "w_rolls v = w_rolls c"
    using st(4) MC(4,5) R1(9) x(5) by auto
  have sub: "set (staged_work (stage_work E c s4)) \<subseteq> insert v (insert x2 (set ?l - {x}))"
    using v(1) set4 by (auto simp: s4_def)
  have "roll_budget (stage_work E c s4) \<le> (\<Sum>w\<in>insert v (insert x2 (set ?l - {x})). roll_left w)"
    unfolding roll_budget_def by (rule sum_mono2) (use sub in auto)
  also have "\<dots> \<le> roll_left v + (roll_left x2 + (\<Sum>w\<in>set ?l - {x}. roll_left w))"
    by (simp add: sum.insert_if)
  also have "roll_left v = 0" using v(2) by (simp add: roll_left_def)
  also have "roll_left x2 < roll_left x" using x(3,4) x2(1,6) by (simp add: roll_left_def)
  also have "roll_left x + (\<Sum>w\<in>set ?l - {x}. roll_left w) = roll_budget s"
    unfolding roll_budget_def by (rule sum.remove [symmetric]) (use x(1) in auto)
  finally have b: "roll_budget (stage_work E c s4) < roll_budget s" by simp
  have rc: "w_rolls c = w_rolls x + 1"
    using mc R1(4) by (auto simp: make_clone_def copy_work_noffset_def make_work_def clean_work_def zero_work_def Let_def split: option.splits)
  have nt': "no_templates (stage_work E c s4)" using sub v(3) x2(5) nt by (auto simp: no_templates_def)
  have rb: "rolls_bounded s \<longrightarrow> rolls_bounded (stage_work E c s4)"
    using sub v(4) rc x2(6) x(3) by (force simp: rolls_bounded_def)
  show ?thesis unfolding eq using st(1,2) b nt' rb by simp
qed

section \<open>Popping\<close>

lemma hash_pop_rounds:
  assumes "staged_ok s" "\<not> getq_frozen s" "sorts (hash_sort E) tv_sort" "no_templates s" "roll_budget s < fuel"
  shows "\<exists>t r. hash_pop E min_diff fuel s = Some (t, r) \<and> staged_ok t \<and> (rolls_bounded s \<longrightarrow> rolls_bounded t) \<and>
    (case r of None \<Rightarrow> (\<forall>w\<in>set (staged_work t). \<not> acceptable min_diff t w)
     | Some w \<Rightarrow> acceptable min_diff t w \<and> w \<notin> set (staged_work t) \<and> w_tr w = None)"
  using assms
proof (induction fuel arbitrary: s)
  case (Suc fuel)
  have find: "List.find P xs = Some x \<Longrightarrow> x \<in> set xs \<and> P x" for P xs and x :: work
    by (auto simp: find_Some_iff)
  show ?case
  proof (cases "pop_select min_diff s")
    case None
    have u: "staged_work (pop_underrun s) = staged_work s" "acceptable min_diff (pop_underrun s) w = acceptable min_diff s w" for w
      by (simp_all add: pop_underrun_def acceptable_def work_mining_algorithm_def)
    have "staged_ok (pop_underrun s)"
      by (rule staged_ok_cong [of _ s]) (use Suc.prems(1) in \<open>simp_all add: pop_underrun_def\<close>)
    moreover have "hash_pop E min_diff (Suc fuel) s = Some (pop_underrun s, None)" using None by simp
    moreover have "\<forall>w\<in>set (staged_work s). \<not> acceptable min_diff s w"
      using None by (auto simp: pop_select_find find_None_iff)
    ultimately show ?thesis using u by (simp add: rolls_bounded_def)
  next
    case (Some w)
    then have w: "w \<in> set (staged_work s)" "acceptable min_diff s w" using find by (auto simp: pop_select_find)
    define u where "u = s\<lparr>no_work := False\<rparr>"
    have uok: "staged_ok u" by (rule staged_ok_cong [of _ s]) (use Suc.prems(1) in \<open>simp_all add: u_def\<close>)
    have ul: "staged_work u = staged_work s" "\<not> getq_frozen u" "no_templates u" "roll_budget u = roll_budget s"
      "rolls_bounded u = rolls_bounded s" "acceptable min_diff u w = acceptable min_diff s w"
      using Suc.prems(2,4) by (simp_all add: u_def no_templates_def roll_budget_def rolls_bounded_def acceptable_def work_mining_algorithm_def)
    show ?thesis
    proof (cases "can_roll E u w \<and> should_roll u w")
      case True
      have "w \<in> set (staged_work u)" using w ul by simp
      note c = clone_available_result [OF uok ul(2) Suc.prems(3) ul(3) this] True
      have "hash_pop E min_diff (Suc fuel) s = hash_pop E min_diff fuel (fst (clone_available E u))"
        using Some True by (simp add: u_def)
      moreover have "roll_budget (fst (clone_available E u)) < fuel" using c Suc.prems(5) ul(4) by simp
      ultimately show ?thesis
        using Suc.IH [of "fst (clone_available E u)"] c Suc.prems(3) ul(5) by auto
    next
      case False
      define t where "t = upd_pool (w_pool w) (\<lambda>p. p\<lparr>p_last_work_time := tv_sec (now (unstage_work w u)), p_tv_last_work_time := now (unstage_work w u)\<rparr>) (unstage_work w u)"
      have e: "hash_pop E min_diff (Suc fuel) s = Some (t, Some w)"
        using Some False by (auto simp: u_def [symmetric] t_def Let_def)
      have wu: "w \<in> set (staged_work u)" using w ul by simp
      have "staged_ok (unstage_work w u)" using unstage_work_ok [OF uok wu] .
      moreover have "staged_same (unstage_work w u) t" unfolding t_def by (rule staged_same_upd_pool) simp
      ultimately have ok: "staged_ok t" by (blast intro: staged_same_ok)
      have st: "staged_work t = remove1 w (staged_work s)" by (simp add: t_def ul)
      have d: "distinct (staged_work s)" using staged_distinct [OF Suc.prems(1)] .
      have "acceptable min_diff t w" using w(2) by (simp add: acceptable_def work_mining_algorithm_def t_def u_def)
      moreover have "rolls_bounded s \<longrightarrow> rolls_bounded t" using set_remove1_subset [of w "staged_work s"] by (auto simp: rolls_bounded_def st)
      moreover have "w_tr w = None" using w(1) Suc.prems(4) by (simp add: no_templates_def)
      ultimately show ?thesis using e ok d by (simp add: st)
    qed
  qed
qed simp

text \<open>C28: Taking an item for a device always ends when no block template is staged: each retry rolls some item, and an
  item is rolled only below 7000, so one round more than the rolls that are left is enough. The item
  returned is one the device accepts and has left the table; when none is returned, nothing acceptable is
  staged. The counters still count, and no staged item gets past 7001 rolls.\<close>

theorem hash_pop_returns:
  assumes "staged_ok s" "\<not> getq_frozen s" "sorts (hash_sort E) tv_sort" "no_templates s"
  shows "\<exists>t r. hash_pop E min_diff (Suc (roll_budget s)) s = Some (t, r) \<and> staged_ok t \<and> (rolls_bounded s \<longrightarrow> rolls_bounded t) \<and>
    (case r of None \<Rightarrow> (\<forall>w\<in>set (staged_work t). \<not> acceptable min_diff t w)
     | Some w \<Rightarrow> acceptable min_diff t w \<and> w \<notin> set (staged_work t) \<and> w_tr w = None)"
  by (rule hash_pop_rounds [OF assms]) simp

section \<open>Cloning on demand\<close>

lemma clone_work_loop_ok:
  assumes "staged_ok s" "\<not> getq_frozen s" "sorts (hash_sort E) tv_sort"
    and "w_id work_clone \<notin> w_id ` set (staged_work s)" "w_id work_clone < total_work s"
    and "w_id w \<notin> w_id ` set (staged_work s)" "w_id w < total_work s" "w_id w \<noteq> w_id work_clone"
    and "w_clone work_clone" "clone_work_loop E mrs w work_clone cloned s = (t, w', c', cloned')"
  shows "staged_ok t \<and> \<not> getq_frozen t \<and> w_id w' \<notin> w_id ` set (staged_work t) \<and> w_id w' < total_work t \<and>
    w_id c' \<notin> w_id ` set (staged_work t) \<and> w_id c' < total_work t \<and> w_id w' \<noteq> w_id c' \<and>
    w_clone c' \<and> (cloned \<longrightarrow> cloned') \<and> (\<not> cloned' \<longrightarrow> w' = w)"
  using assms
proof (induction mrs arbitrary: w work_clone cloned s)
  case (Suc mrs)
  show ?case
  proof (cases "can_roll E s w \<and> should_roll s w")
    case False
    then show ?thesis using Suc.prems by auto
  next
    case True
    define s1 where "s1 = stage_work E work_clone s"
    obtain s2 w2 where r1: "roll_work E w s1 = (s2, w2)" by fastforce
    obtain s3 c where mc: "make_clone w2 s2 = (s3, c)" by fastforce
    obtain s4 w4 where r2: "roll_work E w2 s3 = (s4, w4)" by fastforce
    note st = stage_work_result [OF Suc.prems(1-5), folded s1_def]
    note R1 = roll_work_result [OF r1] and MC = make_clone_result [OF mc] and R2 = roll_work_result [OF r2]
    have same: "staged_same s1 s4" using R1(1) MC(1) R2(1) staged_same_trans by blast
    have ok4: "staged_ok s4" using staged_same_ok [OF same st(1)] .
    have l4: "staged_work s4 = staged_work s1" "getq_frozen s4 = getq_frozen s1" using same by (auto simp: staged_same_def)
    have ids: "w_id c = total_work s1 + 1" "w_id w4 = total_work s1 + 2" "total_work s4 = total_work s1 + 3"
      using R1(2,3) MC(2,3) R2(2,3) by simp_all
    have lt: "y \<in> set (staged_work s1) \<Longrightarrow> w_id y < total_work s1" for y using st(1) by (simp add: staged_ok_def)
    have "clone_work_loop E mrs w4 c True s4 = (t, w', c', cloned')"
      using Suc.prems(10) True by (simp add: s1_def [symmetric] r1 mc r2)
    moreover have "w_id c \<notin> w_id ` set (staged_work s4)" "w_id w4 \<notin> w_id ` set (staged_work s4)"
      using lt ids by (force simp: l4)+
    ultimately show ?thesis
      using Suc.IH [of s4 c w4 True] ok4 st(2) l4 ids Suc.prems(3) MC(4) by auto
  qed
qed auto


end
