(* ===== verification/StagingExamples.thy ===== *)
theory StagingExamples
  imports Staging PoolExamples
begin

text \<open>
  An environment with an insertion sort for \<^verbatim>\<open>HASH_SORT\<close>, a state with staged work, and what the properties
  of blocks and staging say of them.
\<close>

section \<open>A sort\<close>

fun insert_by :: "('a \<Rightarrow> 'a \<Rightarrow> int) \<Rightarrow> 'a \<Rightarrow> 'a list \<Rightarrow> 'a list" where
  "insert_by cmp x [] = [x]"
| "insert_by cmp x (y # ys) = (if cmp x y \<le> 0 then x # y # ys else y # insert_by cmp x ys)"

definition sort_by :: "('a \<Rightarrow> 'a \<Rightarrow> int) \<Rightarrow> 'a list \<Rightarrow> 'a list" where
  "sort_by cmp xs = foldr (insert_by cmp) xs []"

lemma mset_insert_by: "mset (insert_by cmp x ys) = add_mset x (mset ys)"
  by (induction ys) auto

lemma set_insert_by: "set (insert_by cmp x ys) = insert x (set ys)"
  by (induction ys) auto

lemma mset_sort_by: "mset (sort_by cmp xs) = mset xs"
  by (induction xs) (simp_all add: sort_by_def mset_insert_by)

lemma consistent_on_subset: "consistent_on cmp B \<Longrightarrow> A \<subseteq> B \<Longrightarrow> consistent_on cmp A"
  unfolding consistent_on_def by blast

lemma consistent_on_trans: "consistent_on cmp A \<Longrightarrow> x \<in> A \<Longrightarrow> y \<in> A \<Longrightarrow> z \<in> A \<Longrightarrow> cmp x y \<le> 0 \<Longrightarrow> cmp y z \<le> 0 \<Longrightarrow> cmp x z \<le> 0"
  unfolding consistent_on_def by blast

lemma consistent_on_total: "consistent_on cmp A \<Longrightarrow> x \<in> A \<Longrightarrow> y \<in> A \<Longrightarrow> \<not> cmp x y \<le> 0 \<Longrightarrow> cmp y x \<le> 0"
  unfolding consistent_on_def by blast

lemma sorted_insert_by:
  assumes "consistent_on cmp (insert x (set ys))" "sorted_wrt (\<lambda>x y. cmp x y \<le> 0) ys"
  shows "sorted_wrt (\<lambda>x y. cmp x y \<le> 0) (insert_by cmp x ys)"
  using assms
proof (induction ys)
  case (Cons y ys)
  have sub: "consistent_on cmp (insert x (set ys))" by (rule consistent_on_subset [OF Cons.prems(1)]) auto
  have trans: "cmp x z \<le> 0" if "cmp x y \<le> 0" "z \<in> set ys" for z
    using Cons.prems(2) that by (intro consistent_on_trans [OF Cons.prems(1), of x y z]) simp_all
  have total: "cmp y x \<le> 0" if "\<not> cmp x y \<le> 0" using that by (intro consistent_on_total [OF Cons.prems(1)]) simp_all
  show ?case using Cons.IH [OF sub] Cons.prems(2) trans total by (auto simp: set_insert_by)
qed simp

lemma sort_by_sorts: "sorts sort_by cmp"
proof -
  have "consistent_on cmp (set xs) \<Longrightarrow> sorted_wrt (\<lambda>x y. cmp x y \<le> 0) (sort_by cmp xs)" for xs
  proof (induction xs)
    case (Cons x xs)
    have "consistent_on cmp (set xs)" by (rule consistent_on_subset [OF Cons.prems]) auto
    moreover have "set (sort_by cmp xs) = set xs" using mset_eq_setD [OF mset_sort_by] .
    ultimately show ?case using Cons sorted_insert_by [of cmp x "sort_by cmp xs"] by (simp add: sort_by_def)
  qed (simp add: sort_by_def)
  then show ?thesis by (simp add: sorts_def mset_sort_by)
qed

section \<open>A state with staged work\<close>

definition example_env :: env where
  "example_env = \<lparr>hash_sort = sort_by, block_hash_sort = sort_by, work_left = (\<lambda>_. False), time_left = (\<lambda>_ _. 0),
     get_data = (\<lambda>st _ header. (header, 0, 80, st)), sha_junk = replicate 128 0, resize_junk = (\<lambda>_. 0),
     hash_data_f = (\<lambda>_ d. gen_hash (replicate 128 0) (take 80 d)), rnd_double = (\<lambda>x. x), get_thr_cgpu = (\<lambda>_. 0)\<rparr>"

lemma example_env_sorts: "sorts (hash_sort example_env) cmp" "sorts (block_hash_sort example_env) cmp'"
  by (simp_all add: example_env_def sort_by_sorts)

text \<open>One item of pool 1 is staged, for the block 0.\<close>

definition old_work :: work where
  "old_work = zero_work\<lparr>w_pool := 1, w_id := 0\<rparr>"

definition staged_one :: miner where
  "staged_one = (three_pools POOL_FAILOVER [])
     \<lparr>gstore := (\<lambda>_. example_goal\<lparr>g_blkchain := blkchain_init_block (g_blkchain example_goal)\<rparr>),
      astore := (\<lambda>a. example_algo\<lparr>ma_staged := (if a = 0 then 1 else 0)\<rparr>),
      staged_work := [old_work], total_work := 2, new_blocks := 1\<rparr>"

lemma staged_one_ok: "staged_ok staged_one" "\<not> getq_frozen staged_one" "no_templates staged_one"
  by (auto simp: staged_ok_def staged_one_def old_work_def zero_work_def work_rollable_def work_mining_algorithm_def
      example_goal_def three_pools_def initial_miner_def no_templates_def)

lemma staged_one_blocks: "\<forall>g. blocks_ok (g_blkchain (gstore staged_one g))"
  by (simp add: staged_one_def example_goal_def blocks_ok_init)

section \<open>The properties on them\<close>

text \<open>Work for another block, whose header consists of ones.\<close>

definition new_work :: work where
  "new_work = zero_work\<lparr>w_pool := 1, w_id := 1, w_data := replicate 128 1\<rparr>"


theorem test_work_current_known_block_witness:
  "snd (snd (test_work_current example_env (zero_work\<lparr>w_pool := 1\<rparr>) staged_one))"
proof -
  have "block_exists (g_blkchain (pool_goal staged_one (w_pool (zero_work\<lparr>w_pool := 1\<rparr>)))) (take 0x20 (drop 4 (w_data (zero_work\<lparr>w_pool := 1\<rparr>)))) \<noteq> None"
    by (simp add: block_exists_def staged_one_def blkchain_init_block_def Let_def example_goal_def zero_work_def)
  then show ?thesis
    using test_work_current_known_block [OF staged_one_ok(1), of "zero_work\<lparr>w_pool := 1\<rparr>" example_env]
    by (metis prod.collapse)
qed

theorem pop_select_first_witness:
  "pop_select (\<lambda>_. 1) (staged_one\<lparr>staged_work := [old_work\<lparr>w_work_difficulty := 5\<rparr>, old_work]\<rparr>) = Some (old_work\<lparr>w_work_difficulty := 5\<rparr>)"
  by (rule pop_select_first [where before = "[]" and behind = "[old_work]"]) (simp_all add: acceptable_def)

theorem roll_work_time_witness:
  "work_get_ntime (w_data (snd (roll_work example_env old_work staged_one))) = 1"
  using roll_work_time [of old_work example_env staged_one "fst (roll_work example_env old_work staged_one)"
      "snd (roll_work example_env old_work staged_one)"]
  by (simp add: old_work_def zero_work_def work_get_ntime_def upk_u32be_def)

theorem hash_pop_returns_witness:
  "\<exists>t r. hash_pop example_env (\<lambda>_. 1) (Suc (roll_budget staged_one)) staged_one = Some (t, r) \<and> staged_ok t"
  using hash_pop_returns [OF staged_one_ok(1,2) example_env_sorts(1) staged_one_ok(3), of "\<lambda>_. 1"] by blast


end
