(* ===== verification/ShareExamples.thy ===== *)
theory ShareExamples
  imports StagingExamples Submission
begin

text \<open>
  JSON values, shares for the states of the other examples, and what the properties of shares say of them.
\<close>

datatype example_value = Null | Boolean bool | Number int | Text string | Array "example_value list"

definition example_json :: "example_value json_api" where
  "example_json = \<lparr>json_null = Null, json_string = Text, is_null = (\<lambda>j. j = Null), is_true = (\<lambda>j. j = Boolean True),
     is_array = (\<lambda>j. case j of Array _ \<Rightarrow> True | _ \<Rightarrow> False), is_number = (\<lambda>j. case j of Number _ \<Rightarrow> True | _ \<Rightarrow> False),
     array_size = (\<lambda>j. case j of Array xs \<Rightarrow> length xs | _ \<Rightarrow> 0),
     array_get = (\<lambda>j i. case j of Array xs \<Rightarrow> if i < length xs then Some (xs ! i) else None | _ \<Rightarrow> None),
     number_value = (\<lambda>j. case j of Number n \<Rightarrow> n | _ \<Rightarrow> 0)\<rparr>"

definition easy_goal :: miner where
  "easy_goal = staged_one\<lparr>gstore := (\<lambda>_. example_goal\<lparr>g_current_diff := target_diff example_env (replicate 28 0 @ [0xff, 0xff, 0, 0])\<rparr>)\<rparr>"

theorem block_not_missed_witness:
  "w_block (snd (work_check_for_block example_env old_work easy_goal))"
proof -
  obtain t v where t: "work_check_for_block example_env old_work easy_goal = (t, v)" by fastforce
  have "mono (rnd_double example_env)" by (simp add: example_env_def mono_def)
  moreover have "length (w_hash old_work) = length (replicate 28 0 @ [0xff, 0xff, 0, 0 :: u8])" by (simp add: old_work_def zero_work_def)
  moreover have "g_current_diff (pool_goal easy_goal (w_pool old_work)) = target_diff example_env (replicate 28 0 @ [0xff, 0xff, 0, 0])"
    by (simp add: easy_goal_def)
  moreover have "le_value (w_hash old_work) \<le> le_value (replicate 28 0 @ [0xff, 0xff, 0, 0])" by (simp add: old_work_def zero_work_def)
  ultimately have "w_block v" using block_not_missed [OF _ _ _ _ t] by blast
  then show ?thesis using t by simp
qed

lemma old_work_not_stale: "\<not> stale_work staged_one old_work False"
  by (simp add: stale_work_def staged_one_def old_work_def zero_work_def Let_def example_goal_def three_pools_def initial_miner_def
      zero_pool_def blkchain_init_block_def currentblk_def block_exists_def uint_of_int_def timer_elapsed_def timersub_def int_of_long_def upk_u32le_def)

theorem abandon_work_range_witness:
  "unat (w_blk_nonce old_work) + unat (0x1000 :: u64) < 0xfffffffe"
proof -
  have "\<not> abandon_work staged_one old_work (tv 10 0) 0x1000"
    using old_work_not_stale by (simp add: abandon_work_def old_work_def zero_work_def staged_one_def three_pools_def initial_miner_def)
  then show ?thesis using abandon_work_range by blast
qed

theorem submit_nonce_outcome_witness:
  "\<exists>t r. submit_noffset_nonce example_env example_json 0 old_work 5 0 staged_one = (t, r) \<and> staged_work t = [old_work]"
proof -
  obtain t r where t: "submit_noffset_nonce example_env example_json 0 old_work 5 0 staged_one = (t, r)" by fastforce
  have "length (w_data old_work) = 128" "\<not> opt_benchmark staged_one"
    by (simp_all add: old_work_def zero_work_def staged_one_def three_pools_def initial_miner_def)
  then show ?thesis using submit_nonce_outcome [OF _ _ t] t by (simp add: staged_one_def)
qed

text \<open>A share that is a block, with a hash of ones.\<close>

definition block_share :: work where
  "block_share = zero_work\<lparr>w_pool := 1, w_id := 1, w_block := True, w_hash := replicate 32 1\<rparr>"

lemma block_share_hash: "swap32yes (w_hash block_share) 8 = replicate 32 1"
proof -
  have "swap32yes (replicate 32 1) 8 = replicate 32 1" by code_simp
  then show ?thesis by (simp add: block_share_def)
qed

theorem accepted_block_moves_goal_witness:
  "bi_prevblkhash (currentblk (g_blkchain (gstore (share_result example_env example_json (Some (Boolean True)) (Some Null) block_share staged_one)
     (p_goal (the_pool staged_one 1))))) = replicate 32 1"
proof -
  have p: "w_pool block_share = 1" "w_block block_share" "length (w_data block_share) = 128" by (simp_all add: block_share_def zero_work_def)
  note F = fakework_fields [OF p(3)]
  have acc: "answer_accepts example_json (Some (Boolean True)) (Some Null)" by (simp add: answer_accepts_def json_is_def example_json_def)
  have "w_data (fakework block_share) ! 8 = 1"
  proof -
    have "take 0x20 (drop 4 (w_data (fakework block_share))) ! 4 = 1" unfolding F(3) block_share_hash by simp
    then show ?thesis using F(6) by simp
  qed
  then have live: "\<not> dudwork (fakework block_share)" by (auto simp: dudwork_def)
  have new: "block_exists (g_blkchain (pool_goal staged_one (w_pool block_share))) (swap32yes (w_hash block_share) 8) = None"
    unfolding block_share_hash by (simp add: block_exists_def staged_one_def p blkchain_init_block_def Let_def example_goal_def)
  have "opt_shares staged_one = 0" "p_enabled (the_pool staged_one (w_pool block_share)) = POOL_ENABLED"
    by (simp_all add: staged_one_def three_pools_def initial_miner_def)
  then show ?thesis
    using accepted_block_moves_goal [OF staged_one_ok(1) staged_one_blocks example_env_sorts(2) acc p(2,3) _ _ live new]
    by (simp add: p block_share_hash)
qed


text \<open>A share to be written for pool 1, which is known to fail.\<close>

definition failing :: submitter where
  "failing = (initial_submitter (upd_stats 1 (\<lambda>p. p\<lparr>ps_submit_fail := True\<rparr>) staged_one))
     \<lparr>wip := 1, write_sws := [\<lparr>sws_work = block_share, sws_resubmit = False, sws_failures = 0, sws_tv_staleexpire = tv 0 0,
        sws_tv_submit = tv 0 0\<rparr>]\<rparr>"

theorem write_share_leaks_witness:
  "length (stratum_shares (core (((\<lambda>T. fst (write_share example_env (\<lambda>s. s) SEND_INACTIVE 0 T)) ^^ 100) failing))) = 100"
proof -
  have "ps_submit_fail (p_stats (the_pool (core failing) (w_pool (sws_work (write_sws failing ! 0)))))"
    "sw_nonce1 (p_swork (the_pool (core failing) (w_pool (sws_work (write_sws failing ! 0))))) = None"
    by (simp_all add: failing_def initial_submitter_def upd_stats_def block_share_def staged_one_def three_pools_def zero_pool_def zero_stratum_work_def)
  note write_share_leaks [OF this, where n = 100]
  then show ?thesis by (simp add: failing_def initial_submitter_def)
qed

end
