(* ===== verification/StratumWork.thy ===== *)
theory StratumWork
  imports Difficulty
begin

text \<open>
  Work made from the job of a stratum pool (\<^verbatim>\<open>gen_stratum_work\<close> and its parts in \<^verbatim>\<open>miner.c\<close>): the next
  extranonce goes into the coinbase, the Merkle root is computed over it, and the header is put
  together; and the work of the benchmark.
\<close>

section \<open>Jobs\<close>

definition bfg_workpadding_bin :: bytes where
  "bfg_workpadding_bin = [0, 0, 0, 0x80] @ replicate 40 0 @ [0x80, 0x02, 0, 0]"

definition GBT_XNONCESZ :: nat where
  "GBT_XNONCESZ = 4"

definition stratum_work_cpy :: "env \<Rightarrow> stratum_work \<Rightarrow> miner \<Rightarrow> miner \<times> stratum_work" where
  "stratum_work_cpy E src s =
     ((case sw_tr src of None \<Rightarrow> s | Some t \<Rightarrow> tmpl_incref t s),
      src\<lparr>sw_coinbase := bytes_cpy (resize_junk E) (sw_coinbase src), sw_merkle_bin := bytes_cpy (resize_junk E) (sw_merkle_bin src)\<rparr>)"

definition stratum_work_clean :: "stratum_work \<Rightarrow> miner \<Rightarrow> miner \<times> stratum_work" where
  "stratum_work_clean swork s =
     ((case sw_tr swork of None \<Rightarrow> s | Some t \<Rightarrow> tmpl_decref t s),
      swork\<lparr>sw_coinbase := bytes_free (sw_coinbase swork), sw_merkle_bin := bytes_free (sw_merkle_bin swork)\<rparr>)"

definition pool_has_usable_swork :: "env \<Rightarrow> miner \<Rightarrow> nat \<Rightarrow> bool" where
  "pool_has_usable_swork E s pool =
     (if opt_benchmark s then True
      else case sw_tr (p_swork (the_pool s pool)) of
        Some t \<Rightarrow> time_left E (tmpl_state s t) (tv_sec (now s)) \<noteq> 0
      | None \<Rightarrow> p_stratum_notify (the_pool s pool))"

section \<open>The header\<close>

text \<open>The loop over the branches of the Merkle tree.\<close>

definition merkle_root :: "env \<Rightarrow> stratum_work \<Rightarrow> bytes" where
  "merkle_root E swork =
     (let merkle_root = gen_hash (sha_junk E) (take (bsz (sw_coinbase swork)) (bbuf (sw_coinbase swork)))
      in fold (\<lambda>i merkle_root. gen_hash (sha_junk E) (merkle_root @ take 32 (drop (32 * i) (bbuf (sw_merkle_bin swork)))))
           [0..<sw_merkles swork] merkle_root)"

definition gen_stratum_work3 :: "env \<Rightarrow> work \<Rightarrow> stratum_work \<Rightarrow> miner \<Rightarrow> miner \<times> work" where
  "gen_stratum_work3 E w swork s =
     (let root = swap32yes (merkle_root E swork) (32 div 4);
          data = mem_write (w_data w) 0 (take 36 (sw_header1 swork));
          data = mem_write data 36 root;
          data = pk_u32be data 68 (sw_ntime swork + word_of_int (timer_elapsed (sw_tv_received swork) (now s)));
          data = mem_write data 72 (take 4 (sw_diffbits swork));
          data = mem_write data 76 (replicate 4 0);
          data = mem_write data 80 (take 48 bfg_workpadding_bin);
          w = w\<lparr>w_data := data, w_ntime_roll_limits := sw_ntime_roll_limits swork, w_target := sw_target swork,
                w_job_id := sw_job_id swork, w_nonce1 := sw_nonce1 swork, w_midstate := calc_midstate (sha_junk E) data\<rparr>;
          s = s\<lparr>local_work := local_work s + 1\<rparr>;
          w = w\<lparr>w_stratum := True, w_blk_nonce := 0, w_id := total_work s, w_longpoll := False, w_getwork_mode := CHR ''S''\<rparr>;
          s = s\<lparr>total_work := total_work s + 1\<rparr>;
          (s, w) =
            (case sw_tr swork of
               None \<Rightarrow> (s, w)
             | Some t \<Rightarrow> (tmpl_incref t s, w\<lparr>w_getwork_mode := CHR ''G'', w_tr := Some t\<rparr>))
      in calc_diff E w 0 s)"

text \<open>The extranonce is written into the coinbase of the job itself, which is returned.\<close>

definition gen_stratum_work2 :: "env \<Rightarrow> work \<Rightarrow> stratum_work \<Rightarrow> miner \<Rightarrow> miner \<times> work \<times> stratum_work" where
  "gen_stratum_work2 E w swork s =
     (let coinbase = mem_write (bbuf (sw_coinbase swork)) (sw_nonce2_offset swork) (take (bytes_len (w_nonce2 w)) (bbuf (w_nonce2 w)));
          swork = swork\<lparr>sw_coinbase := (sw_coinbase swork)\<lparr>bbuf := coinbase\<rparr>\<rparr>;
          (s, w) = gen_stratum_work3 E w swork s
      in (s, w, swork))"

definition gen_stratum_work :: "env \<Rightarrow> nat \<Rightarrow> work \<Rightarrow> miner \<Rightarrow> miner \<times> work" where
  "gen_stratum_work E pool w s =
     (let (s, w) = clean_work w s;
          p = the_pool s pool;
          n2size = sw_n2size (p_swork p);
          nonce2 = bytes_resize (resize_junk E) (w_nonce2 w) n2size;
          nonce2 = (if p_nonce2sz p < n2size
                    then nonce2\<lparr>bbuf := mem_write (bbuf nonce2) (p_nonce2sz p) (replicate (n2size - p_nonce2sz p) 0)\<rparr> else nonce2);
          nonce2 = nonce2\<lparr>bbuf := mem_write (bbuf nonce2) 0 (take (p_nonce2sz p) (pk_u64le (replicate 8 0) 0 (p_nonce2 p)))\<rparr>;
          w = w\<lparr>w_nonce2 := nonce2\<rparr>;
          s = upd_pool pool (\<lambda>p. p\<lparr>p_nonce2 := p_nonce2 p + 1\<rparr>) s;
          w = w\<lparr>w_pool := pool, w_work_restart_id := sw_work_restart_id (p_swork p)\<rparr>;
          (s, w, swork) = gen_stratum_work2 E w (p_swork p) s;
          s = upd_pool pool (\<lambda>p. p\<lparr>p_swork := swork\<rparr>) s
      in (s, w\<lparr>w_tv_staged := now s\<rparr>))"

section \<open>The benchmark\<close>

text \<open>The words of the header count up from the last one before the time, with carry.\<close>

fun count_up :: "nat \<Rightarrow> u32 list \<Rightarrow> u32 list" where
  "count_up 0 blkhdr = blkhdr[0 := blkhdr ! 0 + 1]"
| "count_up (Suc i) blkhdr =
     (let blkhdr = blkhdr[Suc i := blkhdr ! Suc i + 1]
      in if blkhdr ! Suc i \<noteq> 0 then blkhdr else count_up i blkhdr)"

definition get_benchmark_work :: "env \<Rightarrow> work \<Rightarrow> bool \<Rightarrow> u32 list \<Rightarrow> miner \<Rightarrow> miner \<times> work \<times> u32 list" where
  "get_benchmark_work E w use_swork blkhdr s =
     (if use_swork
      then (let (s, w) = gen_stratum_work E (pools s ! 0) w s
            in (s, w\<lparr>w_getwork_mode := CHR ''B'',
                     w_ntime_roll_limits := work_set_simple_ntime_roll_limit (w_data w) 0 (now s)\<rparr>, blkhdr))
      else (let pool = pools s ! 0;
                blkhdr = count_up 16 blkhdr;
                data = mem_write (w_data w) 0 (concat (map word_bytes blkhdr));
                data = mem_write data 80 (take 48 bfg_workpadding_bin);
                w = w\<lparr>w_data := data, w_midstate := calc_midstate (sha_junk E) data, w_target := sw_target (p_swork (the_pool s pool)),
                      w_mandatory := True, w_pool := pool, w_tv_staged := now s, w_getwork_mode := CHR ''B''\<rparr>;
                (s, w) = calc_diff E w 0 s
            in (s, w\<lparr>w_ntime_roll_limits := work_set_simple_ntime_roll_limit (w_data w) 60 (now s)\<rparr>, blkhdr)))"

section \<open>What is in a header\<close>

definition dsha :: "bytes \<Rightarrow> bytes" where
  "dsha m = sha256_spec (sha256_spec m)"

lemma length_dsha [len_simps]: "length (dsha m) = 32"
  by (simp add: dsha_def len_simps)

lemma gen_hash_dsha: "length junk = 128 \<Longrightarrow> length m < 2 ^ 29 \<Longrightarrow> gen_hash junk m = dsha m"
  by (simp add: dsha_def gen_hash_spec)

text \<open>The branches of the Merkle tree, and a job with all buffers of their sizes.\<close>

definition branches :: "stratum_work \<Rightarrow> bytes list" where
  "branches swork = map (\<lambda>i. take 32 (drop (32 * i) (bytes_view (sw_merkle_bin swork)))) [0..<sw_merkles swork]"

definition swork_ok :: "stratum_work \<Rightarrow> bool" where
  "swork_ok swork \<longleftrightarrow> length (sw_header1 swork) = 36 \<and> length (sw_diffbits swork) = 4 \<and> bytes_inv (sw_coinbase swork) \<and>
     bsz (sw_coinbase swork) < 2 ^ 29 \<and> sw_nonce2_offset swork + sw_n2size swork \<le> bsz (sw_coinbase swork) \<and>
     bytes_inv (sw_merkle_bin swork) \<and> 32 * sw_merkles swork \<le> bsz (sw_merkle_bin swork)"

definition root_of :: "bytes list \<Rightarrow> bytes \<Rightarrow> bytes" where
  "root_of bs coinbase = fold (\<lambda>branch root. dsha (root @ branch)) bs (dsha coinbase)"

lemma length_root_of [len_simps]: "length (root_of bs coinbase) = 32"
proof -
  have "length (fold (\<lambda>branch root. dsha (root @ branch)) bs r) = 32" if "length r = 32" for r
    using that by (induction bs arbitrary: r) (simp_all add: len_simps)
  then show ?thesis by (simp add: root_of_def len_simps)
qed

lemma merkle_root_spec:
  assumes "length (sha_junk E) = 128" "swork_ok swork"
  shows "merkle_root E swork = root_of (branches swork) (bytes_view (sw_coinbase swork))"
proof -
  have b: "take 32 (drop (32 * i) (bbuf (sw_merkle_bin swork))) = take 32 (drop (32 * i) (bytes_view (sw_merkle_bin swork)))"
    if "i < sw_merkles swork" for i
  proof -
    have "32 * Suc i \<le> 32 * sw_merkles swork" using that by (intro mult_le_mono2) simp
    moreover have "32 * sw_merkles swork \<le> bsz (sw_merkle_bin swork)" using assms(2) by (simp add: swork_ok_def)
    ultimately have "32 * Suc i \<le> bsz (sw_merkle_bin swork)" by (rule order_trans)
    then have "32 \<le> bsz (sw_merkle_bin swork) - 32 * i" by simp
    then show ?thesis by (simp add: bytes_view_def drop_take min_def)
  qed
  have f: "fold (\<lambda>i root. gen_hash (sha_junk E) (root @ take 32 (drop (32 * i) (bbuf (sw_merkle_bin swork))))) is r =
      fold (\<lambda>branch root. dsha (root @ branch)) (map (\<lambda>i. take 32 (drop (32 * i) (bytes_view (sw_merkle_bin swork)))) is) r"
    if "length r = 32" "set is \<subseteq> {..<sw_merkles swork}" for "is" r
    using that
  proof (induction "is" arbitrary: r)
    case (Cons i "is")
    have "length (r @ take 32 (drop (32 * i) (bytes_view (sw_merkle_bin swork)))) < 2 ^ 29" using Cons.prems(1) by simp
    then have "gen_hash (sha_junk E) (r @ take 32 (drop (32 * i) (bbuf (sw_merkle_bin swork)))) =
        dsha (r @ take 32 (drop (32 * i) (bytes_view (sw_merkle_bin swork))))"
      using Cons.prems(2) b [of i] gen_hash_dsha [OF assms(1)] by simp
    then show ?case using Cons by (simp add: len_simps)
  qed simp
  have c: "gen_hash (sha_junk E) (take (bsz (sw_coinbase swork)) (bbuf (sw_coinbase swork))) = dsha (bytes_view (sw_coinbase swork))"
    unfolding bytes_view_def using assms(2) by (intro gen_hash_dsha [OF assms(1)]) (simp add: swork_ok_def min_less_iff_disj)
  show ?thesis unfolding merkle_root_def Let_def c root_of_def branches_def
    by (rule f) (auto simp: len_simps)
qed

section \<open>The extranonce of a work item\<close>

definition nonce2_bytes :: "pool \<Rightarrow> bytes" where
  "nonce2_bytes p = take (p_nonce2sz p) (pk_u64le (replicate 8 0) 0 (p_nonce2 p)) @ replicate (sw_n2size (p_swork p) - p_nonce2sz p) 0"

definition with_nonce2 :: "pool \<Rightarrow> bytes" where
  "with_nonce2 p = mem_write (bytes_view (sw_coinbase (p_swork p))) (sw_nonce2_offset (p_swork p)) (nonce2_bytes p)"

definition nonce2_ok :: "pool \<Rightarrow> bool" where
  "nonce2_ok p \<longleftrightarrow> p_nonce2sz p \<le> 8 \<and> p_nonce2sz p \<le> sw_n2size (p_swork p)"

lemma length_pk64 [simp]: "length (pk_u64le (replicate 8 0) 0 v) = 8"
  by (simp add: f64le.pk_length)

lemma length_nonce2_bytes: "nonce2_ok p \<Longrightarrow> length (nonce2_bytes p) = sw_n2size (p_swork p)"
  by (simp add: nonce2_bytes_def nonce2_ok_def)

lemma bytes_resize_fields:
  "bsz (bytes_resize junk b n) = n" "n \<le> length (bbuf (bytes_resize junk b n))" if "bytes_inv b"
proof -
  have "bytes_inv (bytes_extend_buf junk b n)" by (rule bytes_extend_buf_inv [OF that])
  then show "n \<le> length (bbuf (bytes_resize junk b n))" "bsz (bytes_resize junk b n) = n"
    using bytes_extend_buf_alloc by (simp_all add: bytes_resize_def bytes_inv_def)
qed

text \<open>Filling a buffer of n bytes from a prefix and zeros.\<close>

lemma fill_view:
  assumes "k \<le> n" "n \<le> length buf" "length src = k"
  shows "take n (mem_write (if k < n then mem_write buf k (replicate (n - k) 0) else buf) 0 src) = src @ replicate (n - k) 0"
  using assms by (simp add: mem_write_def)


lemma mem_write_view:
  "off + length src \<le> n \<Longrightarrow> n \<le> length buf \<Longrightarrow> take n (mem_write buf off src) = mem_write (take n buf) off src"
  by (simp add: mem_write_def drop_take min_absorb1)

text \<open>The pieces of \<^verbatim>\<open>gen_stratum_work\<close>: the job with the extranonce, and the pool after it.\<close>

definition next_swork :: "pool \<Rightarrow> stratum_work" where
  "next_swork p = (p_swork p)\<lparr>sw_coinbase := (sw_coinbase (p_swork p))\<lparr>bbuf :=
     mem_write (bbuf (sw_coinbase (p_swork p))) (sw_nonce2_offset (p_swork p)) (nonce2_bytes p)\<rparr>\<rparr>"

lemma next_swork_ok:
  assumes "swork_ok (p_swork p)" "nonce2_ok p"
  shows "swork_ok (next_swork p)" "bytes_view (sw_coinbase (next_swork p)) = with_nonce2 p" "branches (next_swork p) = branches (p_swork p)"
proof -
  have l: "sw_nonce2_offset (p_swork p) + length (nonce2_bytes p) \<le> bsz (sw_coinbase (p_swork p))"
    "bsz (sw_coinbase (p_swork p)) \<le> length (bbuf (sw_coinbase (p_swork p)))"
    using assms by (simp_all add: swork_ok_def length_nonce2_bytes bytes_inv_def)
  then show "swork_ok (next_swork p)"
    using assms(1) by (simp add: swork_ok_def next_swork_def bytes_inv_def len_simps)
  show "bytes_view (sw_coinbase (next_swork p)) = with_nonce2 p"
    using mem_write_view [OF l] by (simp add: next_swork_def with_nonce2_def bytes_view_def)
  show "branches (next_swork p) = branches (p_swork p)" by (simp add: branches_def next_swork_def)
qed

lemma calc_diff_shape:
  "\<exists>st. calc_diff E w 0 s = (upd_pool (w_pool w) (\<lambda>p. p\<lparr>p_stats := st\<rparr>) s, w\<lparr>w_work_difficulty := target_diff E (w_target w)\<rparr>)"
proof -
  have "\<exists>st. calc_diff E w 0 s = (upd_pool (w_pool (w\<lparr>w_work_difficulty := (if (0::int) = 0 then target_diff E (w_target w) else of_int 0)\<rparr>))
      (\<lambda>p. p\<lparr>p_stats := st\<rparr>) s, w\<lparr>w_work_difficulty := (if (0::int) = 0 then target_diff E (w_target w) else of_int 0)\<rparr>)"
    unfolding calc_diff_def Let_def by (rule exI) (rule refl)
  then show ?thesis by simp
qed

lemma calc_diff_frame:
  assumes "calc_diff E w 0 s = (t, v)"
  shows "v = w\<lparr>w_work_difficulty := target_diff E (w_target w)\<rparr>" "total_work t = total_work s" "now t = now s"
    "p_nonce2 (the_pool t a) = p_nonce2 (the_pool s a)" "p_nonce2sz (the_pool t a) = p_nonce2sz (the_pool s a)"
    "p_swork (the_pool t a) = p_swork (the_pool s a)" "gstore t = gstore s" "pools t = pools s"
proof -
  obtain st where c: "calc_diff E w 0 s = (upd_pool (w_pool w) (\<lambda>p. p\<lparr>p_stats := st\<rparr>) s, w\<lparr>w_work_difficulty := target_diff E (w_target w)\<rparr>)"
    using calc_diff_shape by blast
  have t: "t = upd_pool (w_pool w) (\<lambda>p. p\<lparr>p_stats := st\<rparr>) s" and v: "v = w\<lparr>w_work_difficulty := target_diff E (w_target w)\<rparr>"
    using c assms by (simp_all only: prod.inject)
  show "v = w\<lparr>w_work_difficulty := target_diff E (w_target w)\<rparr>" by (rule v)
  show "total_work t = total_work s" "now t = now s"
    "p_nonce2 (the_pool t a) = p_nonce2 (the_pool s a)" "p_nonce2sz (the_pool t a) = p_nonce2sz (the_pool s a)"
    "p_swork (the_pool t a) = p_swork (the_pool s a)" "gstore t = gstore s" "pools t = pools s"
    unfolding t by simp_all
qed

lemma gen_stratum_work3_fields:
  assumes "gen_stratum_work3 E w swork s = (t, v)" "length (w_data w) = 128" "swork_ok swork"
  shows "w_data v = sw_header1 swork @ swap32yes (merkle_root E swork) 8 @
      pk_u32be (replicate 4 0) 0 (sw_ntime swork + word_of_int (timer_elapsed (sw_tv_received swork) (now s))) @
      sw_diffbits swork @ replicate 4 0 @ bfg_workpadding_bin"
    "w_nonce2 v = w_nonce2 w" "w_midstate v = calc_midstate (sha_junk E) (w_data v)" "w_target v = sw_target swork"
    "w_job_id v = sw_job_id swork" "w_nonce1 v = sw_nonce1 swork" "w_stratum v" "w_pool v = w_pool w" "w_id v = total_work s"
    "w_tr v = (if sw_tr swork = None then w_tr w else sw_tr swork)"
    "total_work t = total_work s + 1" "now t = now s" "w_work_difficulty v = target_diff E (sw_target swork)"
    "p_nonce2 (the_pool t a) = p_nonce2 (the_pool s a)" "p_nonce2sz (the_pool t a) = p_nonce2sz (the_pool s a)"
    "p_swork (the_pool t a) = p_swork (the_pool s a)"
proof -
  define root where "root = swap32yes (merkle_root E swork) 8"
  define nt where "nt = sw_ntime swork + word_of_int (timer_elapsed (sw_tv_received swork) (now s))"
  define data where "data = mem_write (mem_write (mem_write (pk_u32be (mem_write (mem_write (w_data w) 0 (take 36 (sw_header1 swork))) 36 root) 68 nt)
      72 (take 4 (sw_diffbits swork))) 76 (replicate 4 0)) 80 (take 48 bfg_workpadding_bin)"
  have l: "length (sw_header1 swork) = 36" "length (sw_diffbits swork) = 4" "length root = 32" "length bfg_workpadding_bin = 48"
    using assms(3) by (simp_all add: swork_ok_def root_def len_simps bfg_workpadding_bin_def)
  have pk: "pk_u32be (a @ b @ c) 68 nt = a @ pk_u32be (replicate 4 0) 0 nt @ c" if a: "length a = 68" and b: "length b = 4" for a b c
  proof -
    obtain b0 b1 b2 b3 where b': "b = [b0, b1, b2, b3]" using b by (auto simp: length_Suc_conv numeral_eq_Suc)
    show ?thesis using a by (simp add: b' pk_u32be_def list_update_append numeral_eq_Suc)
  qed
  have "data = sw_header1 swork @ root @ pk_u32be (replicate 4 0) 0 nt @ sw_diffbits swork @ replicate 4 0 @ bfg_workpadding_bin"
  proof -
    have m: "mem_write (mem_write (w_data w) 0 (take 36 (sw_header1 swork))) 36 root = (sw_header1 swork @ root) @ drop 68 (w_data w)"
      using l assms(2) by (simp add: mem_write_def)
    have sp: "drop 68 (w_data w) = take 4 (drop 68 (w_data w)) @ drop 72 (w_data w)"
      using append_take_drop_id [of 4 "drop 68 (w_data w)"] by simp
    have "pk_u32be (mem_write (mem_write (w_data w) 0 (take 36 (sw_header1 swork))) 36 root) 68 nt =
        (sw_header1 swork @ root) @ pk_u32be (replicate 4 0) 0 nt @ drop 72 (w_data w)"
      unfolding m by (subst sp, rule pk) (use l assms(2) in simp_all)
    then show ?thesis using l assms(2) by (simp add: data_def mem_write_def f32be.pk_length)
  qed
  then have D: "data = sw_header1 swork @ swap32yes (merkle_root E swork) 8 @
      pk_u32be (replicate 4 0) 0 (sw_ntime swork + word_of_int (timer_elapsed (sw_tv_received swork) (now s))) @
      sw_diffbits swork @ replicate 4 0 @ bfg_workpadding_bin" by (simp add: root_def nt_def)
  define u where "u = w\<lparr>w_data := data, w_ntime_roll_limits := sw_ntime_roll_limits swork, w_target := sw_target swork,
      w_job_id := sw_job_id swork, w_nonce1 := sw_nonce1 swork, w_midstate := calc_midstate (sha_junk E) data,
      w_stratum := True, w_blk_nonce := 0, w_id := total_work s, w_longpoll := False, w_getwork_mode := CHR ''S''\<rparr>"
  define r where "r = s\<lparr>local_work := local_work s + 1, total_work := total_work s + 1\<rparr>"
  define x where "x = (case sw_tr swork of None \<Rightarrow> (r, u) | Some t \<Rightarrow> (tmpl_incref t r, u\<lparr>w_getwork_mode := CHR ''G'', w_tr := Some t\<rparr>))"
  have c: "calc_diff E (snd x) 0 (fst x) = (t, v)"
    using assms(1) unfolding gen_stratum_work3_def Let_def
    by (simp add: x_def u_def r_def data_def root_def nt_def split: option.splits)
  have fst_x: "total_work (fst x) = total_work s + 1" "now (fst x) = now s" "pstore (fst x) = pstore s"
    by (simp_all add: x_def r_def tmpl_incref_def split: option.split)
  have snd_x: "w_data (snd x) = data" "w_nonce2 (snd x) = w_nonce2 w" "w_midstate (snd x) = calc_midstate (sha_junk E) data"
    "w_target (snd x) = sw_target swork" "w_job_id (snd x) = sw_job_id swork" "w_nonce1 (snd x) = sw_nonce1 swork"
    "w_stratum (snd x)" "w_pool (snd x) = w_pool w" "w_id (snd x) = total_work s"
    "w_tr (snd x) = (if sw_tr swork = None then w_tr w else sw_tr swork)"
    by (simp_all add: x_def u_def split: option.split)
  note C = calc_diff_frame [OF c]
  show "w_data v = sw_header1 swork @ swap32yes (merkle_root E swork) 8 @
      pk_u32be (replicate 4 0) 0 (sw_ntime swork + word_of_int (timer_elapsed (sw_tv_received swork) (now s))) @
      sw_diffbits swork @ replicate 4 0 @ bfg_workpadding_bin"
    "w_midstate v = calc_midstate (sha_junk E) (w_data v)"
    unfolding D [symmetric] C(1) by (simp_all add: snd_x)
  show "w_nonce2 v = w_nonce2 w" "w_target v = sw_target swork"
    "w_job_id v = sw_job_id swork" "w_nonce1 v = sw_nonce1 swork" "w_stratum v" "w_pool v = w_pool w" "w_id v = total_work s"
    "w_tr v = (if sw_tr swork = None then w_tr w else sw_tr swork)" "w_work_difficulty v = target_diff E (sw_target swork)"
    unfolding C(1) by (simp_all add: snd_x)
  show "total_work t = total_work s + 1" "now t = now s" "p_nonce2 (the_pool t a) = p_nonce2 (the_pool s a)"
    "p_nonce2sz (the_pool t a) = p_nonce2sz (the_pool s a)" "p_swork (the_pool t a) = p_swork (the_pool s a)"
    unfolding C(2-6) fst_x by (rule refl)+
qed

section \<open>One item, and many\<close>

lemma clean_work_fields:
  assumes "clean_work w s = (t, v)"
  shows "v = zero_work" "pstore t = pstore s" "now t = now s" "total_work t = total_work s"
  using assms by (auto simp: clean_work_def tmpl_decref_def split: option.splits)

lemma nonce2_buffer:
  fixes p :: pool and b :: bytes_t and junk :: "nat \<Rightarrow> u8"
  assumes "nonce2_ok p" "bytes_inv b"
  defines "m \<equiv> sw_n2size (p_swork p)"
  defines "r \<equiv> bytes_resize junk b m"
  defines "r' \<equiv> (if p_nonce2sz p < m then r\<lparr>bbuf := mem_write (bbuf r) (p_nonce2sz p) (replicate (m - p_nonce2sz p) 0)\<rparr> else r)"
  defines "r'' \<equiv> r'\<lparr>bbuf := mem_write (bbuf r') 0 (take (p_nonce2sz p) (pk_u64le (replicate 8 0) 0 (p_nonce2 p)))\<rparr>"
  shows "bytes_view r'' = nonce2_bytes p" "bytes_len r'' = m" "take m (bbuf r'') = nonce2_bytes p"
proof -
  have R: "bsz r = m" "m \<le> length (bbuf r)" unfolding r_def by (rule bytes_resize_fields [OF assms(2)])+
  have z: "bsz r'' = m" by (simp add: r''_def r'_def R)
  have b: "bbuf r'' = mem_write (if p_nonce2sz p < m then mem_write (bbuf r) (p_nonce2sz p) (replicate (m - p_nonce2sz p) 0) else bbuf r) 0
      (take (p_nonce2sz p) (pk_u64le (replicate 8 0) 0 (p_nonce2 p)))"
    by (simp add: r''_def r'_def)
  show v: "take m (bbuf r'') = nonce2_bytes p"
    unfolding b nonce2_bytes_def m_def [symmetric]
    by (rule fill_view) (use assms(1) R in \<open>simp_all add: nonce2_ok_def m_def\<close>)
  then show "bytes_view r'' = nonce2_bytes p" "bytes_len r'' = m" by (simp_all add: bytes_view_def bytes_len_def z)
qed

lemma gen_stratum_work_fields:
  assumes "gen_stratum_work E pool w s = (t, v)" "swork_ok (p_swork (the_pool s pool))" "nonce2_ok (the_pool s pool)"
    "length (sha_junk E) = 128"
  defines "p \<equiv> the_pool s pool"
  shows "w_data v = sw_header1 (p_swork p) @ swap32yes (root_of (branches (p_swork p)) (with_nonce2 p)) 8 @
      pk_u32be (replicate 4 0) 0 (sw_ntime (p_swork p) + word_of_int (timer_elapsed (sw_tv_received (p_swork p)) (now s))) @
      sw_diffbits (p_swork p) @ replicate 4 0 @ bfg_workpadding_bin"
    "bytes_view (w_nonce2 v) = nonce2_bytes p" "w_midstate v = calc_midstate (sha_junk E) (w_data v)"
    "w_target v = sw_target (p_swork p)" "w_job_id v = sw_job_id (p_swork p)" "w_nonce1 v = sw_nonce1 (p_swork p)"
    "w_stratum v" "w_pool v = pool" "w_id v = total_work s" "total_work t = total_work s + 1" "now t = now s"
    "the_pool t pool = (the_pool t pool)\<lparr>p_swork := next_swork p, p_nonce2 := p_nonce2 p + 1, p_nonce2sz := p_nonce2sz p\<rparr>"
proof -
  obtain s1 w1 where c: "clean_work w s = (s1, w1)" by (cases "clean_work w s")
  note C = clean_work_fields [OF c]
  define n2size where "n2size = sw_n2size (p_swork p)"
  define r where "r = bytes_resize (resize_junk E) (w_nonce2 zero_work) n2size"
  define r' where "r' = (if p_nonce2sz p < n2size then r\<lparr>bbuf := mem_write (bbuf r) (p_nonce2sz p) (replicate (n2size - p_nonce2sz p) 0)\<rparr> else r)"
  define nonce2 where "nonce2 = r'\<lparr>bbuf := mem_write (bbuf r') 0 (take (p_nonce2sz p) (pk_u64le (replicate 8 0) 0 (p_nonce2 p)))\<rparr>"
  have "bytes_inv (w_nonce2 zero_work)" by (simp add: zero_work_def bytes_inv_def bytes_init_def)
  note N = nonce2_buffer [OF assms(3)[folded p_def] this, where junk = "resize_junk E",
      folded n2size_def, folded r_def, folded r'_def, folded nonce2_def]
  define w2 where "w2 = zero_work\<lparr>w_nonce2 := nonce2, w_pool := pool, w_work_restart_id := sw_work_restart_id (p_swork p)\<rparr>"
  define s2 where "s2 = upd_pool pool (\<lambda>p. p\<lparr>p_nonce2 := p_nonce2 p + 1\<rparr>) s1"
  obtain t3 v3 where g: "gen_stratum_work3 E w2 (next_swork p) s2 = (t3, v3)" by (cases "gen_stratum_work3 E w2 (next_swork p) s2")
  have sw: "p_swork (the_pool s2 pool) = p_swork p" by (simp add: s2_def C p_def)
  have g2: "gen_stratum_work2 E w2 (p_swork p) s2 = (t3, v3, next_swork p)"
    using g by (simp add: gen_stratum_work2_def w2_def N next_swork_def)
  have tv: "t = upd_pool pool (\<lambda>q. q\<lparr>p_swork := next_swork p\<rparr>) t3" "v = v3\<lparr>w_tv_staged := now t\<rparr>"
    using assms(1) unfolding gen_stratum_work_def Let_def c prod.case C(1,2) p_def [symmetric] n2size_def [symmetric]
      r_def [symmetric] r'_def [symmetric] nonce2_def [symmetric]
    using g2 by (auto simp: w2_def s2_def)
  note O = next_swork_ok [OF assms(2,3), folded p_def]
  have d: "length (w_data w2) = 128" by (simp add: w2_def zero_work_def)
  note F = gen_stratum_work3_fields [OF g d O(1)]
  have nn: "now s2 = now s" "total_work s2 = total_work s" by (simp_all add: s2_def C)
  have f: "sw_header1 (next_swork p) = sw_header1 (p_swork p)" "sw_ntime (next_swork p) = sw_ntime (p_swork p)"
    "sw_tv_received (next_swork p) = sw_tv_received (p_swork p)" "sw_diffbits (next_swork p) = sw_diffbits (p_swork p)"
    by (simp_all add: next_swork_def)
  show "w_data v = sw_header1 (p_swork p) @ swap32yes (root_of (branches (p_swork p)) (with_nonce2 p)) 8 @
      pk_u32be (replicate 4 0) 0 (sw_ntime (p_swork p) + word_of_int (timer_elapsed (sw_tv_received (p_swork p)) (now s))) @
      sw_diffbits (p_swork p) @ replicate 4 0 @ bfg_workpadding_bin"
    unfolding tv using F(1) unfolding merkle_root_spec [OF assms(4) O(1)] O(2,3) f nn by simp
  show "bytes_view (w_nonce2 v) = nonce2_bytes p" using F(2) N(1) by (simp add: tv w2_def)
  show "w_midstate v = calc_midstate (sha_junk E) (w_data v)" using F(3) by (simp add: tv)
  show "w_target v = sw_target (p_swork p)" "w_job_id v = sw_job_id (p_swork p)" "w_nonce1 v = sw_nonce1 (p_swork p)"
    "w_stratum v" "w_pool v = pool" "w_id v = total_work s"
    using F(4-9) nn by (simp_all add: tv next_swork_def w2_def)
  show "total_work t = total_work s + 1" "now t = now s" using F(11,12) nn by (simp_all add: tv)
  have "p_nonce2 (the_pool t3 pool) = p_nonce2 p + 1" "p_nonce2sz (the_pool t3 pool) = p_nonce2sz p"
    unfolding F(14,15) by (simp_all add: s2_def C p_def)
  then show "the_pool t pool = (the_pool t pool)\<lparr>p_swork := next_swork p, p_nonce2 := p_nonce2 p + 1, p_nonce2sz := p_nonce2sz p\<rparr>"
    by (simp add: tv)
qed

section \<open>No two items are alike\<close>

lemma pk_u64le_nth: "m < 8 \<Longrightarrow> pk_u64le (replicate 8 0) 0 v ! m = ucast (drop_bit (8 * m) v AND 0xff)"
  by (auto simp: pk_u64le_def nth_list_update less_Suc_eq numeral_eq_Suc)

lemma pk_u64le_take_inject:
  assumes "take k (pk_u64le (replicate 8 0) 0 v) = take k (pk_u64le (replicate 8 0) 0 u)" "k \<le> 8"
  shows "unat v mod 256 ^ k = unat u mod 256 ^ k"
proof -
  have "bit v n = bit u n" if "n < 8 * k" for n
  proof -
    define m b where "m = n div 8" and "b = n mod 8"
    have n: "n = 8 * m + b" "b < 8" by (simp_all add: m_def b_def)
    then have m: "m < k" using that by linarith
    have "take k (pk_u64le (replicate 8 0) 0 v) ! m = take k (pk_u64le (replicate 8 0) 0 u) ! m" using assms(1) by simp
    then have "(ucast (drop_bit (8 * m) v AND 0xff) :: u8) = ucast (drop_bit (8 * m) u AND 0xff)"
      using m assms(2) by (simp add: pk_u64le_nth)
    then have "bit (ucast (drop_bit (8 * m) v AND 0xff) :: u8) b = bit (ucast (drop_bit (8 * m) u AND 0xff) :: u8) b" by simp
    moreover have "bit (ucast (drop_bit (8 * m) x AND 0xff) :: u8) b = bit x (8 * m + b)" for x :: u64
    proof -
      have "(0xff :: u64) = mask 8" by (simp add: mask_eq_exp_minus_1)
      then show ?thesis using n(2) by (simp add: bit_simps ac_simps)
    qed
    ultimately show ?thesis by (simp add: n(1))
  qed
  then have "take_bit (8 * k) v = take_bit (8 * k) u" by (intro bit_word_eqI) (auto simp: bit_take_bit_iff)
  then have "take_bit (8 * k) (unat v) = take_bit (8 * k) (unat u)" by (metis unsigned_take_bit_eq)
  then show ?thesis by (simp add: take_bit_eq_mod power_mult)
qed

lemma nonce2_bytes_inject:
  assumes "nonce2_bytes p = nonce2_bytes q" "nonce2_ok p" "nonce2_ok q" "p_nonce2sz p = p_nonce2sz q"
  shows "unat (p_nonce2 p) mod 256 ^ p_nonce2sz p = unat (p_nonce2 q) mod 256 ^ p_nonce2sz p"
proof (rule pk_u64le_take_inject)
  have "take (p_nonce2sz p) (nonce2_bytes p) = take (p_nonce2sz p) (nonce2_bytes q)" using assms(1) by simp
  then show "take (p_nonce2sz p) (pk_u64le (replicate 8 0) 0 (p_nonce2 p)) = take (p_nonce2sz p) (pk_u64le (replicate 8 0) 0 (p_nonce2 q))"
    using assms(2-4) by (simp add: nonce2_bytes_def nonce2_ok_def min_def)
qed (use assms(2) in \<open>simp add: nonce2_ok_def\<close>)

lemma mod_shift_inject:
  fixes a i j m :: nat
  assumes "(a + i) mod m = (a + j) mod m" "i < m" "j < m"
  shows "i = j"
  using assms
proof (induction i j rule: linorder_wlog)
  case (le i j)
  then have "m dvd (a + j) - (a + i)" using mod_eq_dvd_iff_nat [of "a + i" "a + j" m] by simp
  moreover have "j - i < m" using le.prems(3) by simp
  ultimately have "j - i = 0" using dvd_imp_le [of m "j - i"] by fastforce
  then show ?case using le.hyps by simp
qed metis

text \<open>A counter that starts anywhere does not repeat modulo a divisor of its period.\<close>

lemma counter_inject:
  fixes c :: u64
  assumes "unat (c + of_nat i) mod 256 ^ k = unat (c + of_nat j) mod 256 ^ k" "i < 256 ^ k" "j < 256 ^ k" "k \<le> 8"
  shows "i = j"
proof -
  have d: "(256 :: nat) ^ k dvd 2 ^ 64"
  proof -
    have "(256 :: nat) ^ k = 2 ^ (8 * k)" by (simp add: power_mult)
    moreover have "8 * k \<le> 64" using assms(4) by simp
    ultimately show ?thesis by (simp only: le_imp_power_dvd)
  qed
  have "unat (c + of_nat i) mod 256 ^ k = (unat c + i) mod 256 ^ k" for i
  proof -
    have "unat (c + of_nat i) = (unat c + i) mod 2 ^ 64" by (simp add: unat_word_ariths unat_of_nat mod_simps)
    then show ?thesis using d by (simp add: mod_mod_cancel)
  qed
  then have "(unat c + i) mod 256 ^ k = (unat c + j) mod 256 ^ k" using assms(1) by simp
  then show ?thesis using mod_shift_inject [of "unat c" i "256 ^ k" j] assms(2,3) by simp
qed

text \<open>Items made one after the other for one pool.\<close>

primrec gen_works :: "env \<Rightarrow> nat \<Rightarrow> nat \<Rightarrow> miner \<Rightarrow> work list" where
  "gen_works E pool 0 s = []"
| "gen_works E pool (Suc n) s = (let (s, w) = gen_stratum_work E pool zero_work s in w # gen_works E pool n s)"

lemma next_swork_keeps: "sw_n2size (next_swork p) = sw_n2size (p_swork p)"
  by (simp add: next_swork_def)

lemma gen_works_nonce2:
  assumes "swork_ok (p_swork (the_pool s pool))" "nonce2_ok (the_pool s pool)" "length (sha_junk E) = 128" "i < n"
  defines "p \<equiv> the_pool s pool"
  shows "bytes_view (w_nonce2 (gen_works E pool n s ! i)) = nonce2_bytes (p\<lparr>p_nonce2 := p_nonce2 p + of_nat i\<rparr>)"
  using assms(1,2,4) unfolding p_def
proof (induction n arbitrary: s i)
  case (Suc n)
  obtain t v where g: "gen_stratum_work E pool zero_work s = (t, v)" by (cases "gen_stratum_work E pool zero_work s")
  note F = gen_stratum_work_fields [OF g Suc.prems(1,2) assms(3)]
  let ?p = "the_pool s pool" and ?q = "the_pool t pool"
  have q: "p_swork ?q = next_swork ?p" "p_nonce2 ?q = p_nonce2 ?p + 1" "p_nonce2sz ?q = p_nonce2sz ?p"
    by (subst F(12), simp)+
  have ok: "swork_ok (p_swork ?q)" "nonce2_ok ?q"
    using next_swork_ok(1) [OF Suc.prems(1,2)] Suc.prems(2) by (simp_all add: q nonce2_ok_def next_swork_keeps)
  have eq: "nonce2_bytes (?q\<lparr>p_nonce2 := p_nonce2 ?q + of_nat j\<rparr>) = nonce2_bytes (?p\<lparr>p_nonce2 := p_nonce2 ?p + of_nat (Suc j)\<rparr>)" for j
    by (simp add: nonce2_bytes_def q next_swork_keeps ac_simps)
  show ?case
  proof (cases i)
    case 0
    then show ?thesis using F(2) by (simp add: g nonce2_bytes_def)
  next
    case (Suc j)
    then show ?thesis using Suc.IH [OF ok, of j] Suc.prems(3) eq [of j] by (simp add: g)
  qed
qed simp

lemma length_gen_works [len_simps]: "length (gen_works E pool n s) = n"
  by (induction n arbitrary: s) (simp_all add: split_def Let_def)

text \<open>
  C17. Work made from a stratum job. If the buffers of the job have their sizes and the extranonce fits its place, the
  header of the new item is: the first 36 bytes of the job; the Merkle root, each word of it reversed, over the double
  SHA-256 of the coinbase with the extranonce in its place and the branches of the job in order; the job's time
  moved on by the seconds since it came, big-endian; the bits; a zero nonce; and the padding of SHA-256. The extranonce is
  the low \<open>nonce2sz\<close> bytes of the counter of the pool, little-endian, filled with zeros; the counter moves on by one, and
  target, job, pool and number of the item are set.
\<close>

theorem gen_stratum_work_header:
  assumes "swork_ok (p_swork (the_pool s pool))" "nonce2_ok (the_pool s pool)" "length (sha_junk E) = 128"
  shows "let p = the_pool s pool; job = p_swork p; (t, v) = gen_stratum_work E pool w s
    in w_data v = sw_header1 job @ swap32yes (root_of (branches job) (with_nonce2 p)) 8 @
         pk_u32be (replicate 4 0) 0 (sw_ntime job + word_of_int (timer_elapsed (sw_tv_received job) (now s))) @
         sw_diffbits job @ replicate 4 0 @ bfg_workpadding_bin \<and>
       bytes_view (w_nonce2 v) = nonce2_bytes p \<and> w_midstate v = calc_midstate (sha_junk E) (w_data v) \<and>
       w_target v = sw_target job \<and> w_job_id v = sw_job_id job \<and> w_pool v = pool \<and> w_id v = total_work s \<and>
       p_nonce2 (the_pool t pool) = p_nonce2 p + 1"
proof -
  obtain t v where g: "gen_stratum_work E pool w s = (t, v)" by (cases "gen_stratum_work E pool w s")
  note F = gen_stratum_work_fields [OF g assms]
  have "p_nonce2 (the_pool t pool) = p_nonce2 (the_pool s pool) + 1" by (subst F(12)) simp
  then show ?thesis unfolding Let_def g prod.case by (intro conjI F(1-5) F(8) F(9))
qed

text \<open>
  C18. No two items made one after the other from a job carry the same extranonce, as long as there are no more of them than
  the \<open>nonce2sz\<close> bytes of the counter distinguish, wherever the 64-bit counter starts.
\<close>

theorem gen_works_distinct:
  assumes "swork_ok (p_swork (the_pool s pool))" "nonce2_ok (the_pool s pool)" "length (sha_junk E) = 128"
    "n \<le> 256 ^ p_nonce2sz (the_pool s pool)"
  shows "distinct (map (\<lambda>w. bytes_view (w_nonce2 w)) (gen_works E pool n s))"
proof (rule distinct_conv_nth [THEN iffD2], intro allI impI)
  fix i j assume ij: "i < length (map (\<lambda>w. bytes_view (w_nonce2 w)) (gen_works E pool n s))"
    "j < length (map (\<lambda>w. bytes_view (w_nonce2 w)) (gen_works E pool n s))" "i \<noteq> j"
  let ?p = "\<lambda>i. (the_pool s pool)\<lparr>p_nonce2 := p_nonce2 (the_pool s pool) + of_nat i\<rparr>"
  have n: "bytes_view (w_nonce2 (gen_works E pool n s ! k)) = nonce2_bytes (?p k)" if "k < n" for k
    by (rule gen_works_nonce2 [OF assms(1-3) that])
  have ok: "nonce2_ok (?p k)" for k using assms(2) by (simp add: nonce2_ok_def)
  have "nonce2_bytes (?p i) \<noteq> nonce2_bytes (?p j)"
  proof
    assume "nonce2_bytes (?p i) = nonce2_bytes (?p j)"
    from nonce2_bytes_inject [OF this ok ok] ij assms(2,4) have "i = j"
      by (intro counter_inject [of "p_nonce2 (the_pool s pool)" i "p_nonce2sz (the_pool s pool)" j]) (simp_all add: nonce2_ok_def len_simps)
    with ij(3) show False ..
  qed
  then show "map (\<lambda>w. bytes_view (w_nonce2 w)) (gen_works E pool n s) ! i \<noteq> map (\<lambda>w. bytes_view (w_nonce2 w)) (gen_works E pool n s) ! j"
    using ij n by (simp add: len_simps)
qed

end
