(* ===== verification/StratumExamples.thy ===== *)
theory StratumExamples
  imports StratumWork StagingExamples
begin

text \<open>
  A pool with a job, and what the properties of work from stratum jobs say of it.
\<close>

section \<open>A job\<close>

text \<open>The pool 1 has a job with a coinbase of ten bytes, three of them for the extranonce, and one branch.\<close>

definition example_job :: stratum_work where
  "example_job = zero_stratum_work\<lparr>sw_coinbase := \<lparr>bbuf = [1, 2, 3, 0, 0, 0, 4, 5, 6, 7], bsz = 10, ballocsz = 10\<rparr>,
     sw_nonce2_offset := 3, sw_n2size := 3, sw_merkles := 1, sw_merkle_bin := \<lparr>bbuf = replicate 32 9, bsz = 32, ballocsz = 32\<rparr>,
     sw_header1 := replicate 36 2, sw_diffbits := [0x1d, 0, 0xff, 0xff], sw_ntime := 1000\<rparr>"

definition job_state :: miner where
  "job_state = upd_pool 1 (\<lambda>p. p\<lparr>p_swork := example_job, p_nonce2sz := 2, p_nonce2 := 0xfffe\<rparr>) (three_pools POOL_FAILOVER [])"

lemma job_state_ok: "swork_ok (p_swork (the_pool job_state 1))" "nonce2_ok (the_pool job_state 1)" "length (sha_junk example_env) = 128"
proof -
  show "swork_ok (p_swork (the_pool job_state 1))" 
    by (simp add: job_state_def example_job_def swork_ok_def bytes_inv_def)
  show "nonce2_ok (the_pool job_state 1)" by (simp add: job_state_def example_job_def nonce2_ok_def)
  show "length (sha_junk example_env) = 128" by (simp add: example_env_def)
qed

theorem gen_stratum_work_header_witness:
  "bytes_view (w_nonce2 (snd (gen_stratum_work example_env 1 zero_work job_state))) = [0xfe, 0xff, 0] \<and>
   take 36 (w_data (snd (gen_stratum_work example_env 1 zero_work job_state))) = replicate 36 2"
proof -
  have "pk_u64le (replicate 8 0) 0 0xfffe = [0xfe, 0xff, 0, 0, 0, 0, 0, 0]" by code_simp
  then have n: "nonce2_bytes (the_pool job_state 1) = [0xfe, 0xff, 0]"
    by (simp add: nonce2_bytes_def job_state_def example_job_def)
  have h: "sw_header1 (p_swork (the_pool job_state 1)) = replicate 36 2" by (simp add: job_state_def example_job_def)
  obtain t v where g: "gen_stratum_work example_env 1 zero_work job_state = (t, v)" by (cases "gen_stratum_work example_env 1 zero_work job_state")
  note F = gen_stratum_work_header [OF job_state_ok, of zero_work, unfolded g Let_def prod.case n h]
  show ?thesis unfolding g snd_conv using F by simp
qed

theorem gen_works_distinct_witness:
  "distinct (map (\<lambda>w. bytes_view (w_nonce2 w)) (gen_works example_env 1 65536 job_state))"
  by (rule gen_works_distinct [OF job_state_ok]) (simp add: job_state_def)
end
