(* ===== verification/Coinbase.thy ===== *)
theory Coinbase
  imports PoolFacts Difficulty UriParams
begin

text \<open>
  The check of the coinbase a pool sends (\<^verbatim>\<open>varint_decode\<close>, \<^verbatim>\<open>check_coinbase\<close> in \<^verbatim>\<open>util.c\<close>, \<^verbatim>\<open>pool_check_coinbase\<close> in
  \<^verbatim>\<open>miner.c\<close>) against an encoder of coinbase transactions. \<^verbatim>\<open>size_t\<close> has 64 bits; the table of scripts is
  the list of its keys. A read behind the buffer, which C leaves undefined, is the result \<open>CB_overrun\<close>. The text
  of addresses is made by libbase58, an argument.
\<close>

section \<open>Reading a coinbase\<close>

text \<open>\<open>p\<close> is what is left of the buffer; \<open>None\<close> is the return value 0.\<close>

definition varint_decode :: "bytes \<Rightarrow> (nat \<times> u64) option" where
  "varint_decode p =
     (let size = length p
      in if size > 8 \<and> p ! 0 = 0xff then Some (9, upk_u64le p 1)
         else if size > 4 \<and> p ! 0 = 0xfe then Some (5, ucast (upk_u32le p 1))
         else if size > 2 \<and> p ! 0 = 0xfd then Some (3, ucast (upk_u16le p 1))
         else if size > 0 \<and> p ! 0 \<le> 0xfc then Some (1, ucast (p ! 0))
         else None)"

text \<open>
  \<open>b58check_enc limit version data\<close> is the text, if it fits with its final zero. The result is the size, and what is
  written to \<^verbatim>\<open>out\<close>.
\<close>

definition script_to_address :: "(nat \<Rightarrow> u8 \<Rightarrow> bytes \<Rightarrow> string option) \<Rightarrow> nat \<Rightarrow> bytes \<Rightarrow> bool \<Rightarrow> nat \<times> string option" where
  "script_to_address b58check_enc outsz script testnet =
     (let addr =
        (if length script = 25 \<and> script ! 0 = 0x76 \<and> script ! 1 = 0xa9 \<and> script ! 2 = 0x14 \<and> script ! 23 = 0x88 \<and> script ! 24 = 0xac
         then b58check_enc 35 (if testnet then 0x6f else 0x32) (take 20 (drop 3 script))
         else if length script = 23 \<and> script ! 0 = 0xa9 \<and> script ! 1 = 0x14 \<and> script ! 22 = 0x87
         then b58check_enc 35 (if testnet then 0xc4 else 0x26) (take 20 (drop 2 script))
         else None)
      in case addr of
           None \<Rightarrow> (0, None)
         | Some a \<Rightarrow> (length a + 1, if outsz \<ge> length a + 1 then Some a else None))"

datatype cb_error = CB_invalid_length | CB_multiple_inputs | CB_script_sig | CB_incomplete | CB_lopsided_total | CB_lopsided_target
  | CB_no_target | CB_no_locktime

datatype cb_result = CB_true | CB_false cb_error | CB_overrun

text \<open>
  The loop over the outputs; with no scripts \<^verbatim>\<open>HASH_FIND\<close> does not look at its key. The sum of position, size and script length
  is one of 64 bits.
\<close>

fun check_outputs :: "bytes \<Rightarrow> bytes list \<Rightarrow> nat \<Rightarrow> u64 \<Rightarrow> u64 \<Rightarrow> u64 \<Rightarrow> bool \<Rightarrow> cb_result + (u64 \<times> u64 \<times> u64 \<times> bool)" where
  "check_outputs coinbase scripts 0 pos tot target found_target = Inr (pos, tot, target, found_target)"
| "check_outputs coinbase scripts (Suc len) pos tot target found_target =
     (if of_nat (length coinbase) \<le> pos + 8 then Inl (CB_false CB_incomplete)
      else let amount = upk_u64le coinbase (unat pos);
               pos = pos + 8;
               tot = tot + amount
           in case varint_decode (drop (unat pos) coinbase) of
                None \<Rightarrow> Inl (CB_false CB_incomplete)
              | Some (i, curr_pk_script_len) \<Rightarrow>
                  if of_nat (length coinbase) \<le> pos + of_nat i + curr_pk_script_len then Inl (CB_false CB_incomplete)
                  else let pos = pos + of_nat i
                       in if scripts \<noteq> [] \<and> length coinbase < unat pos + unat curr_pk_script_len then Inl CB_overrun
                          else let ah = scripts \<noteq> [] \<and> take (unat curr_pk_script_len) (drop (unat pos) coinbase) \<in> set scripts
                               in check_outputs coinbase scripts len (pos + curr_pk_script_len) tot
                                    (if ah then target + amount else target) (found_target \<or> ah))"

text \<open>\<open>rnd_float\<close> converts a \<^verbatim>\<open>double\<close> to a \<^verbatim>\<open>float\<close>.\<close>

definition target_share :: "env \<Rightarrow> (rat \<Rightarrow> rat) \<Rightarrow> u64 \<Rightarrow> u64 \<Rightarrow> rat" where
  "target_share E rnd_float target tot =
     rnd_float (rnd_double E (of_nat (double_of_nat (unat target)) / of_nat (double_of_nat (unat tot))))"

definition judge_coinbase :: "env \<Rightarrow> (rat \<Rightarrow> rat) \<Rightarrow> nat \<Rightarrow> coinbase_param \<Rightarrow> u64 \<times> u64 \<times> u64 \<times> bool \<Rightarrow> cb_result" where
  "judge_coinbase E rnd_float cbsize cb_param =
     (\<lambda>(pos, tot, target, found_target).
        if tot < word_of_int (cb_total cb_param) then CB_false CB_lopsided_total
        else if cb_scripts cb_param \<noteq> [] \<and> cb_perc cb_param \<noteq> 0 \<and>
          \<not> (tot \<noteq> 0 \<and> target_share E rnd_float target tot \<ge> cb_perc cb_param) then CB_false CB_lopsided_target
        else if cb_scripts cb_param \<noteq> [] \<and> \<not> found_target then CB_false CB_no_target
        else if of_nat cbsize < pos + 4 then CB_false CB_no_locktime
        else CB_true)"

definition check_coinbase :: "env \<Rightarrow> (rat \<Rightarrow> rat) \<Rightarrow> bytes \<Rightarrow> coinbase_param \<Rightarrow> cb_result" where
  "check_coinbase E rnd_float coinbase cb_param =
     (if length coinbase < 62 then CB_false CB_invalid_length
      else if coinbase ! 4 \<noteq> 1 then CB_false CB_multiple_inputs
      else if coinbase ! 41 < 2 \<or> coinbase ! 41 > 100 then CB_false CB_script_sig
      else let pos = 41 + (1 + unat (coinbase ! 41) + 4)
           in if length coinbase \<le> pos then CB_false CB_incomplete
              else case varint_decode (drop pos coinbase) of
                None \<Rightarrow> CB_false CB_incomplete
              | Some (i, len) \<Rightarrow>
                  (case check_outputs coinbase (cb_scripts cb_param) (unat len) (of_nat (pos + i)) 0 0 False of
                     Inl r \<Rightarrow> r
                   | Inr result \<Rightarrow> judge_coinbase E rnd_float (length coinbase) cb_param result))"

text \<open>A read behind the buffer is undefined: \<open>overrun\<close> is what it returns.\<close>

definition pool_check_coinbase :: "env \<Rightarrow> (rat \<Rightarrow> rat) \<Rightarrow> bool \<Rightarrow> nat \<Rightarrow> bytes \<Rightarrow> miner \<Rightarrow> miner" where
  "pool_check_coinbase E rnd_float overrun pool cbtxn s =
     (if uri_get_param_bool (p_rpc_url (the_pool s pool)) ''skipcbcheck'' False then s
      else let ok = (case check_coinbase E rnd_float cbtxn (p_cb_param (the_pool s pool)) of
                       CB_true \<Rightarrow> True | CB_false _ \<Rightarrow> False | CB_overrun \<Rightarrow> overrun)
           in if \<not> ok then
                (if p_enabled (the_pool s pool) = POOL_ENABLED then disable_pool pool POOL_MISBEHAVING s else s)
              else if p_enabled (the_pool s pool) = POOL_MISBEHAVING then enable_pool pool s else s)"

section \<open>Writing a coinbase\<close>

definition enc_varint :: "u64 \<Rightarrow> bytes" where
  "enc_varint n =
     (if n \<le> 0xfc then [ucast n]
      else if n < 2 ^ 16 then 0xfd # pk_u16le (replicate 2 0) 0 (ucast n)
      else if n < 2 ^ 32 then 0xfe # pk_u32le (replicate 4 0) 0 (ucast n)
      else 0xff # pk_u64le (replicate 8 0) 0 n)"

definition enc_output :: "u64 \<times> bytes \<Rightarrow> bytes" where
  "enc_output = (\<lambda>(amount, script). pk_u64le (replicate 8 0) 0 amount @ enc_varint (of_nat (length script)) @ script)"

definition enc_coinbase :: "bytes \<Rightarrow> bytes \<Rightarrow> bytes \<Rightarrow> bytes \<Rightarrow> (u64 \<times> bytes) list \<Rightarrow> bytes \<Rightarrow> bytes" where
  "enc_coinbase version prevout sig sequence outs locktime =
     version @ [1] @ prevout @ [of_nat (length sig)] @ sig @ sequence @ enc_varint (of_nat (length outs)) @ concat (map enc_output outs) @ locktime"

lemma length_pk [simp]: "length (pk_u16le (replicate 2 0) 0 v) = 2" "length (pk_u32le (replicate 4 0) 0 w) = 4"
  "length (pk_u64le (replicate 8 0) 0 x) = 8"
  by (simp_all add: f16le.pk_length f32le.pk_length f64le.pk_length)

lemma upk_append:
  "upk_u16le (pk_u16le (replicate 2 0) 0 v @ rest) 0 = v" "upk_u32le (pk_u32le (replicate 4 0) 0 w @ rest) 0 = w"
  "upk_u64le (pk_u64le (replicate 8 0) 0 x @ rest) 0 = x"
  by (simp_all add: f16le.upk_prefix f32le.upk_prefix f64le.upk_prefix f16le.upk_pk f32le.upk_pk f64le.upk_pk)

lemma upk_shift:
  "upk_u16le (pre @ buf) (length pre) = upk_u16le buf 0" "upk_u32le (pre @ buf) (length pre) = upk_u32le buf 0"
  "upk_u64le (pre @ buf) (length pre) = upk_u64le buf 0"
  by (simp_all add: upk_u16le_def upk_u32le_def upk_u64le_def nth_append) (simp_all only: numeral_2_eq_2)

lemmas upk_Cons = upk_shift [of "[b]" for b, simplified]

lemma length_enc_varint: "length (enc_varint n) \<in> {1, 3, 5, 9}"
  by (auto simp: enc_varint_def)

lemma ucast_small: "unat n < 2 ^ LENGTH('a) \<Longrightarrow> ucast (ucast (n :: u64) :: 'a::len word) = n"
  by (rule word_unat_eq_iff [THEN iffD2])
    (simp add: unsigned_ucast_eq unsigned_take_bit_eq take_bit_nat_eq_self_iff)

lemma varint_decode_enc: "varint_decode (enc_varint n @ rest) = Some (length (enc_varint n), n)"
proof -
  have s: "ucast (ucast n :: u8) = n" "(ucast n :: u8) \<le> 0xfc" if "n \<le> 0xfc"
  proof -
    have u: "unat n \<le> 252" using that by (simp add: word_le_nat_alt)
    then show "ucast (ucast n :: u8) = n" by (intro ucast_small) simp
    have "unat (ucast n :: u8) = unat n" using u by (simp add: unsigned_ucast_eq take_bit_nat_eq_self_iff)
    then show "(ucast n :: u8) \<le> 0xfc" using u by (simp add: word_le_nat_alt)
  qed
  have m: "ucast (ucast n :: u16) = n" if "n < 0x10000"
    using that by (intro ucast_small) (simp add: word_less_nat_alt)
  have l: "ucast (ucast n :: u32) = n" if "n < 0x100000000"
    using that by (intro ucast_small) (simp add: word_less_nat_alt)
  consider "n \<le> 0xfc" | "\<not> n \<le> 0xfc" "n < 0x10000" | "\<not> n \<le> 0xfc" "\<not> n < 0x10000" "n < 0x100000000"
    | "\<not> n \<le> 0xfc" "\<not> n < 0x10000" "\<not> n < 0x100000000" by blast
  then show ?thesis
  proof cases
    case 1
    from s(2) [OF 1] have "(ucast n :: u8) \<noteq> 0xff" "(ucast n :: u8) \<noteq> 0xfe" "(ucast n :: u8) \<noteq> 0xfd" by auto
    then show ?thesis using s [OF 1] 1 by (simp add: enc_varint_def varint_decode_def)
  next
    case 2
    then show ?thesis using m by (simp add: enc_varint_def varint_decode_def upk_Cons upk_append)
  next
    case 3
    then show ?thesis using l by (simp add: enc_varint_def varint_decode_def upk_Cons upk_append)
  next
    case 4
    then show ?thesis by (simp add: enc_varint_def varint_decode_def upk_Cons upk_append)
  qed
qed


section \<open>The outputs\<close>

abbreviation enc_outputs :: "(u64 \<times> bytes) list \<Rightarrow> bytes" where
  "enc_outputs outs \<equiv> concat (map enc_output outs)"

definition paid_to :: "bytes list \<Rightarrow> (u64 \<times> bytes) list \<Rightarrow> u64" where
  "paid_to scripts outs = sum_list (map fst (filter (\<lambda>out. snd out \<in> set scripts) outs))"

lemma enc_output_parts:
  "length (enc_output (a, sc)) = 8 + length (enc_varint (of_nat (length sc))) + length sc"
  by (simp add: enc_output_def)

text \<open>One round of the loop on an output that is written properly.\<close>

lemma check_outputs_step:
  assumes "post \<noteq> []" "length pre + length (enc_output (a, sc)) + length post < 2 ^ 63"
  shows "check_outputs (pre @ enc_output (a, sc) @ post) scripts (Suc n) (of_nat (length pre)) t g f =
    check_outputs (pre @ enc_output (a, sc) @ post) scripts n (of_nat (length (pre @ enc_output (a, sc)))) (t + a)
      (if sc \<in> set scripts then g + a else g) (f \<or> sc \<in> set scripts)"
proof -
  define v where "v = enc_varint (of_nat (length sc))"
  define cb where "cb = pre @ enc_output (a, sc) @ post"
  have cb: "cb = pre @ pk_u64le (replicate 8 0) 0 a @ v @ sc @ post" by (simp add: cb_def enc_output_def v_def)
  have L: "length (enc_output (a, sc)) = 8 + length v + length sc" by (simp add: enc_output_def v_def)
  have len: "length cb = length pre + 8 + length v + length sc + length post" by (simp add: cb)
  have small: "length cb < 2 ^ 63" using assms(2) L len by simp
  have u: "unat (of_nat k :: u64) = k" if "k \<le> length cb" for k
    using that small by (simp add: unsigned_of_nat take_bit_nat_eq_self_iff)
  have le: "(of_nat (length cb) \<le> (of_nat k :: u64)) \<longleftrightarrow> length cb \<le> k" if "k \<le> length cb" for k
    using u [OF that] u [OF order_refl] by (simp add: word_le_nat_alt)
  have p8: "(of_nat (length pre) + 8 :: u64) = of_nat (length pre + 8)" by simp
  have post: "0 < length post" using assms(1) by simp
  have c1: "\<not> of_nat (length cb) \<le> (of_nat (length pre) + 8 :: u64)" unfolding p8 using le [of "length pre + 8"] len post by simp
  have d: "drop (unat (of_nat (length pre) + 8 :: u64)) cb = v @ sc @ post"
    unfolding p8 using u [of "length pre + 8"] len by (simp add: cb)
  have amount: "upk_u64le cb (unat (of_nat (length pre) :: u64)) = a"
    using u [of "length pre"] len by (simp add: cb upk_shift upk_append)
  have scl: "unat (of_nat (length sc) :: u64) = length sc" using u len by simp
  have vd: "varint_decode (v @ sc @ post) = Some (length v, of_nat (length sc))" unfolding v_def by (rule varint_decode_enc)
  have p3: "(of_nat (length pre) + 8 + of_nat (length v) + of_nat (length sc) :: u64) = of_nat (length pre + 8 + length v + length sc)" by simp
  have c2: "\<not> of_nat (length cb) \<le> (of_nat (length pre) + 8 + of_nat (length v) + of_nat (length sc) :: u64)"
    unfolding p3 using le [of "length pre + 8 + length v + length sc"] len post by simp
  have p2: "(of_nat (length pre) + 8 + of_nat (length v) :: u64) = of_nat (length pre + 8 + length v)" by simp
  have u2: "unat (of_nat (length pre) + 8 + of_nat (length v) :: u64) = length pre + 8 + length v"
    unfolding p2 by (rule u) (simp add: len)
  have key: "take (length sc) (drop (length pre + 8 + length v) cb) = sc" by (simp add: cb)
  have ah: "(scripts \<noteq> [] \<and> sc \<in> set scripts) \<longleftrightarrow> sc \<in> set scripts" by auto
  have e: "of_nat (length (pre @ enc_output (a, sc))) = (of_nat (length pre) + 8 + of_nat (length v) + of_nat (length sc) :: u64)"
    unfolding L length_append by simp
  show ?thesis
    unfolding cb_def [symmetric] e check_outputs.simps Let_def d vd option.case prod.case
    unfolding amount u2 scl key ah using c1 c2 len by simp
qed

lemma check_outputs_enc:
  assumes "post \<noteq> []" "length pre + length (enc_outputs outs) + length post < 2 ^ 63"
  shows "check_outputs (pre @ enc_outputs outs @ post) scripts (length outs) (of_nat (length pre)) t g f =
    Inr (of_nat (length pre + length (enc_outputs outs)), t + sum_list (map fst outs), g + paid_to scripts outs,
      f \<or> (\<exists>out\<in>set outs. snd out \<in> set scripts))"
  using assms(2)
proof (induction outs arbitrary: pre t g f)
  case (Cons out outs)
  obtain a sc where out: "out = (a, sc)" by (cases out)
  have ne: "enc_outputs outs @ post \<noteq> []" using assms(1) by simp
  have l: "length pre + length (enc_output (a, sc)) + length (enc_outputs outs @ post) < 2 ^ 63" using Cons.prems by (simp add: out)
  have "length (pre @ enc_output (a, sc)) + length (enc_outputs outs) + length post < 2 ^ 63" using l by simp
  note IH = Cons.IH [OF this]
  have "check_outputs (pre @ enc_outputs (out # outs) @ post) scripts (length (out # outs)) (of_nat (length pre)) t g f =
      check_outputs (pre @ enc_output (a, sc) @ (enc_outputs outs @ post)) scripts (Suc (length outs)) (of_nat (length pre)) t g f"
    by (simp add: out)
  also have "\<dots> = check_outputs ((pre @ enc_output (a, sc)) @ enc_outputs outs @ post) scripts (length outs)
      (of_nat (length (pre @ enc_output (a, sc)))) (t + a) (if sc \<in> set scripts then g + a else g) (f \<or> sc \<in> set scripts)"
    unfolding check_outputs_step [OF ne l] by simp
  finally show ?case unfolding IH by (auto simp: out paid_to_def)
qed (simp add: paid_to_def)

section \<open>The whole transaction\<close>

text \<open>Everything before the number of outputs.\<close>

definition cb_header :: "bytes \<Rightarrow> bytes \<Rightarrow> bytes \<Rightarrow> bytes \<Rightarrow> bytes" where
  "cb_header version prevout sig sequence = version @ [1] @ prevout @ [of_nat (length sig)] @ sig @ sequence"

definition cb_header_ok :: "bytes \<Rightarrow> bytes \<Rightarrow> bytes \<Rightarrow> bytes \<Rightarrow> bool" where
  "cb_header_ok version prevout sig sequence \<longleftrightarrow>
     length version = 4 \<and> length prevout = 36 \<and> 2 \<le> length sig \<and> length sig \<le> 100 \<and> length sequence = 4"

lemma check_coinbase_header:
  assumes "cb_header_ok version prevout sig sequence" "62 \<le> length (cb_header version prevout sig sequence @ rest)"
    "varint_decode rest = Some (i, len)" "rest \<noteq> []"
  defines "cb \<equiv> cb_header version prevout sig sequence @ rest"
  shows "check_coinbase E F cb param =
    (case check_outputs cb (cb_scripts param) (unat len) (of_nat (length (cb_header version prevout sig sequence) + i)) 0 0 False of
       Inl r \<Rightarrow> r | Inr result \<Rightarrow> judge_coinbase E F (length cb) param result)"
proof -
  have H: "length version = 4" "length prevout = 36" "2 \<le> length sig" "length sig \<le> 100" "length sequence = 4"
    using assms(1) by (simp_all add: cb_header_ok_def)
  have b4: "cb ! 4 = 1" using H by (simp add: cb_def cb_header_def nth_append)
  have b41: "cb ! 41 = of_nat (length sig)" using H by (simp add: cb_def cb_header_def nth_append)
  have u: "unat (of_nat (length sig) :: u8) = length sig" using H(4) by (simp add: unsigned_of_nat take_bit_nat_eq_self_iff)
  have c: "\<not> ((of_nat (length sig) :: u8) < 2 \<or> (of_nat (length sig) :: u8) > 100)"
    using H u by (simp add: word_less_nat_alt)
  have l: "length (cb_header version prevout sig sequence) = 41 + (1 + length sig + 4)" using H by (simp add: cb_header_def)
  have d: "drop (41 + (1 + length sig + 4)) cb = rest" unfolding l [symmetric] cb_def by simp
  have n: "\<not> length cb \<le> 41 + (1 + length sig + 4)" unfolding l [symmetric] cb_def using assms(4) by simp
  have s: "\<not> length cb < 62" using assms(2) by (simp add: cb_def)
  show ?thesis
    unfolding check_coinbase_def Let_def b4 b41 u if_not_P [OF s] if_not_P [OF c] if_not_P [OF n] d assms(3) option.case prod.case l
    by simp
qed

text \<open>
  C21. The check of a coinbase, against the encoding of transactions. For every transaction with one input and at least one
  output that is properly written, however the outputs' script lengths need to be encoded, the check accepts exactly
  if the outputs are worth (modulo \<open>2 ^ 64\<close>) at least the total asked for, and, when scripts are watched for, one of them is paid
  and the share paid to them, rounded to a \<^verbatim>\<open>float\<close>, is at least the share asked for; otherwise it names the first of these to fail.
\<close>

theorem check_coinbase_wellformed:
  assumes "cb_header_ok version prevout sig sequence" "outs \<noteq> []" "length locktime = 4"
    "length (enc_coinbase version prevout sig sequence outs locktime) < 2 ^ 63"
  shows "let tot = sum_list (map fst outs); scripts = cb_scripts param; paid = paid_to scripts outs
    in check_coinbase E F (enc_coinbase version prevout sig sequence outs locktime) param =
      (if tot < word_of_int (cb_total param) then CB_false CB_lopsided_total
       else if scripts \<noteq> [] \<and> cb_perc param \<noteq> 0 \<and> (tot = 0 \<or> target_share E F paid tot < cb_perc param) then CB_false CB_lopsided_target
       else if scripts \<noteq> [] \<and> set (map snd outs) \<inter> set scripts = {} then CB_false CB_no_target
       else CB_true)"
proof -
  define h where "h = cb_header version prevout sig sequence"
  define v where "v = enc_varint (of_nat (length outs))"
  define cb where "cb = enc_coinbase version prevout sig sequence outs locktime"
  have cb: "cb = h @ v @ enc_outputs outs @ locktime" by (simp add: cb_def h_def v_def enc_coinbase_def cb_header_def)
  have vl: "1 \<le> length v" using length_enc_varint [of "of_nat (length outs)"] by (auto simp: v_def)
  have o: "length outs \<le> length (enc_outputs outs)" "9 \<le> length (enc_outputs outs)"
  proof -
    have one: "9 \<le> length (enc_output out)" for out
      using length_enc_varint [of "of_nat (length (snd out))"] by (cases out) (auto simp: enc_output_parts)
    show "length outs \<le> length (enc_outputs outs)"
    proof (induction outs)
      case (Cons out outs)
      then show ?case using one [of out] by simp
    qed simp
    show "9 \<le> length (enc_outputs outs)" using assms(2) one [of "hd outs"] by (cases outs) (simp_all add: trans_le_add1)
  qed
  have hl: "48 \<le> length h" using assms(1) by (simp add: h_def cb_header_def cb_header_ok_def)
  have small: "length cb < 2 ^ 63" using assms(4) by (simp add: cb_def)
  have c1: "62 \<le> length (h @ v @ enc_outputs outs @ locktime)" using hl vl o assms(3) by simp
  have c2: "varint_decode (v @ enc_outputs outs @ locktime) = Some (length v, of_nat (length outs))"
    unfolding v_def by (rule varint_decode_enc)
  have c3: "v @ enc_outputs outs @ locktime \<noteq> []" using vl by auto
  have C: "check_coinbase E F cb param =
    (case check_outputs cb (cb_scripts param) (unat (of_nat (length outs) :: u64)) (of_nat (length h + length v)) 0 0 False of
       Inl r \<Rightarrow> r | Inr result \<Rightarrow> judge_coinbase E F (length cb) param result)"
    unfolding cb by (rule check_coinbase_header [OF assms(1), folded h_def, OF c1 c2 c3])
  have n: "unat (of_nat (length outs) :: u64) = length outs"
    using o(1) small by (simp add: cb unsigned_of_nat take_bit_nat_eq_self_iff)
  have lne: "locktime \<noteq> []" using assms(3) by auto
  have O: "check_outputs cb (cb_scripts param) (length outs) (of_nat (length h + length v)) 0 0 False =
      Inr (of_nat (length (h @ v) + length (enc_outputs outs)), 0 + sum_list (map fst outs), 0 + paid_to (cb_scripts param) outs,
        False \<or> (\<exists>out\<in>set outs. snd out \<in> set (cb_scripts param)))"
    using check_outputs_enc [of locktime "h @ v" outs "cb_scripts param" 0 0 False] small assms(3) lne by (simp add: cb)
  have lock: "\<not> of_nat (length cb) < (of_nat (length (h @ v) + length (enc_outputs outs)) + 4 :: u64)"
    using assms(3) by (simp add: cb add.assoc)
  have f: "(\<exists>out\<in>set outs. snd out \<in> set (cb_scripts param)) \<longleftrightarrow> set (map snd outs) \<inter> set (cb_scripts param) \<noteq> {}" by auto
  show ?thesis unfolding cb_def [symmetric] C n O Let_def judge_coinbase_def sum.case prod.case if_not_P [OF lock] f
    by (simp add: not_le disj_commute)
qed

text \<open>A transaction that says it has one output, which says it has a script of \<open>n\<close> bytes.\<close>

definition forged_coinbase :: "bytes \<Rightarrow> bytes \<Rightarrow> bytes \<Rightarrow> bytes \<Rightarrow> u64 \<Rightarrow> u64 \<Rightarrow> bytes \<Rightarrow> bytes" where
  "forged_coinbase version prevout sig sequence amount n rest =
     cb_header version prevout sig sequence @ [1] @ pk_u64le (replicate 8 0) 0 amount @ [0xff] @ pk_u64le (replicate 8 0) 0 n @ rest"

text \<open>
  C22. A length the check does not survive. If the first output gives its script a length that takes the position past
  \<open>2 ^ 64\<close>, the sum wraps around, is found to lie within the buffer, and when scripts are watched for the
  bytes behind the buffer are hashed: the pool decides how many.
\<close>

theorem check_coinbase_overrun:
  assumes "cb_header_ok version prevout sig sequence" "cb_scripts param \<noteq> []"
    "length (forged_coinbase version prevout sig sequence amount n rest) < 2 ^ 63"
    "2 ^ 64 \<le> length (cb_header version prevout sig sequence) + 18 + unat n"
  shows "check_coinbase E F (forged_coinbase version prevout sig sequence amount n rest) param = CB_overrun"
proof -
  define cb where "cb = forged_coinbase version prevout sig sequence amount n rest"
  define h where "h = cb_header version prevout sig sequence"
  have cb: "cb = (h @ [1]) @ pk_u64le (replicate 8 0) 0 amount @ [0xff] @ pk_u64le (replicate 8 0) 0 n @ rest" by (simp add: cb_def forged_coinbase_def h_def)
  have small: "length cb < 2 ^ 63" using assms(3) by (simp add: cb_def)
  have hl: "48 \<le> length h" using assms(1) by (simp add: h_def cb_header_def cb_header_ok_def)
  define r where "r = [1] @ pk_u64le (replicate 8 0) 0 amount @ [0xff] @ pk_u64le (replicate 8 0) 0 n @ rest"
  have r: "varint_decode r = Some (1, 1)" "r \<noteq> []" "62 \<le> length (h @ r)" using hl by (simp_all add: varint_decode_def r_def)
  have hr: "cb = h @ r" by (simp add: cb r_def)
  have one: "unat (1 :: u64) = Suc 0" by simp
  have C: "check_coinbase E F cb param =
    (case check_outputs cb (cb_scripts param) (Suc 0) (of_nat (length h + 1)) 0 0 False of
       Inl r \<Rightarrow> r | Inr result \<Rightarrow> judge_coinbase E F (length cb) param result)"
    unfolding hr check_coinbase_header [OF assms(1), folded h_def, OF r(3,1,2)] one ..
  have len: "length cb = length h + 18 + length rest" by (simp add: cb)
  have u: "unat (of_nat k :: u64) = k" if "k \<le> length cb" for k
    using that small by (simp add: unsigned_of_nat take_bit_nat_eq_self_iff)
  have le: "(of_nat (length cb) \<le> (w :: u64)) \<longleftrightarrow> length cb \<le> unat w" for w
    using u [OF order_refl] by (simp add: word_le_nat_alt)
  have p8: "(of_nat (length h + 1) + 8 :: u64) = of_nat (length h + 9)" by simp
  have c1: "\<not> of_nat (length cb) \<le> (of_nat (length h + 1) + 8 :: u64)" unfolding p8 le using u [of "length h + 9"] len by simp
  have d: "drop (unat (of_nat (length h + 1) + 8 :: u64)) cb = [0xff] @ pk_u64le (replicate 8 0) 0 n @ rest"
    unfolding p8 using u [of "length h + 9"] len by (simp add: cb)
  have vd: "varint_decode ([0xff] @ pk_u64le (replicate 8 0) 0 n @ rest) = Some (9, n)"
    by (simp add: varint_decode_def upk_Cons upk_append)
  have p17: "(of_nat (length h + 1) + 8 + of_nat 9 :: u64) = of_nat (length h + 18)" by simp
  have u17: "unat (of_nat (length h + 1) + 8 + of_nat 9 :: u64) = length h + 18" unfolding p17 by (rule u) (simp add: len)
  have "unat (of_nat (length h + 1) + 8 + of_nat 9 + n :: u64) = length h + 18 + unat n - 2 ^ 64"
  proof -
    have "unat (of_nat (length h + 1) + 8 + of_nat 9 + n :: u64) = (length h + 18 + unat n) mod 2 ^ 64"
      unfolding unat_word_ariths(1) [of _ n] u17 by simp
    moreover have "unat n < 2 ^ 64" using unsigned_less [of n, where 'a = nat] by simp
    moreover have "length h + 18 < 2 ^ 63" using small len by simp
    ultimately show ?thesis using assms(4) by (simp add: h_def [symmetric] mod_if)
  qed
  moreover have "unat n < 2 ^ 64" using unsigned_less [of n, where 'a = nat] by simp
  ultimately have c2: "\<not> of_nat (length cb) \<le> (of_nat (length h + 1) + 8 + of_nat 9 + n :: u64)"
    unfolding le using len by simp
  have c3: "cb_scripts param \<noteq> [] \<and> length cb < unat (of_nat (length h + 1) + 8 + of_nat 9 :: u64) + unat n"
    unfolding u17 using assms(2,4) small by (simp add: h_def [symmetric])
  show ?thesis unfolding cb_def [symmetric] C check_outputs.simps Let_def if_not_P [OF c1] d vd option.case prod.case if_not_P [OF c2] if_P [OF c3] sum.case
    by (rule refl)
qed

end
