(* ===== verification/CoinbaseExamples.thy ===== *)
theory CoinbaseExamples
  imports Coinbase StagingExamples
begin

text \<open>
  Coinbases, and what the properties of the check say of them.
\<close>

text \<open>Two outputs, of 5 and 20; the script of the second one is watched for and must get half.\<close>

definition example_outputs :: "(u64 \<times> bytes) list" where
  "example_outputs = [(5, replicate 25 1), (20, replicate 23 2)]"

definition example_cb_param :: coinbase_param where
  "example_cb_param = \<lparr>cb_testnet = False, cb_scripts = [replicate 23 2], cb_total = 25, cb_perc = 1 / 2\<rparr>"

lemma example_header_ok: "cb_header_ok (replicate 4 0) (replicate 36 0) (replicate 2 0) (replicate 4 0)"
  by (simp add: cb_header_ok_def)

theorem check_coinbase_wellformed_witness:
  "check_coinbase example_env (\<lambda>x. x) (enc_coinbase (replicate 4 0) (replicate 36 0) (replicate 2 0) (replicate 4 0) example_outputs (replicate 4 0))
     example_cb_param = CB_true"
proof -
  have "double_of_nat 20 = 20" "double_of_nat 25 = 25" by (simp_all add: double_of_nat_def ulp_exp.simps)
  then have share: "target_share example_env (\<lambda>x. x) 20 25 = 20 / 25" by (simp add: target_share_def example_env_def)
  have "length (enc_coinbase (replicate 4 0) (replicate 36 0) (replicate 2 0) (replicate 4 0) example_outputs (replicate 4 0)) < 2 ^ 63"
  proof -
    have "length (enc_varint n) \<le> 9" for n using length_enc_varint [of n] by auto
    from this [of 2] this [of 25] this [of 23] show ?thesis
      by (simp add: enc_coinbase_def example_outputs_def enc_output_parts)
  qed
  moreover have "paid_to (cb_scripts example_cb_param) example_outputs = 20"
    by (simp add: paid_to_def example_cb_param_def example_outputs_def)
  moreover have "replicate 23 2 \<in> set (map snd example_outputs) \<inter> set (cb_scripts example_cb_param)"
    by (simp add: example_cb_param_def example_outputs_def)
  then have "set (map snd example_outputs) \<inter> set (cb_scripts example_cb_param) \<noteq> {}" by blast
  ultimately show ?thesis
    using check_coinbase_wellformed [OF example_header_ok, of example_outputs "replicate 4 0" example_cb_param example_env "\<lambda>x. x"] share
    by (simp add: Let_def example_outputs_def) (simp add: example_cb_param_def)
qed

theorem check_coinbase_overrun_witness:
  "check_coinbase example_env (\<lambda>x. x) (forged_coinbase (replicate 4 0) (replicate 36 0) (replicate 2 0) (replicate 4 0) 0 (2 ^ 64 - 40) [])
     example_cb_param = CB_overrun"
  using check_coinbase_overrun [OF example_header_ok, of example_cb_param 0 "2 ^ 64 - 40" "[]" example_env "\<lambda>x. x"]
  by (simp add: example_cb_param_def forged_coinbase_def cb_header_def)

end
