(* ===== verification/Pdiff.thy ===== *)
theory Pdiff
  imports Difficulty
begin

text \<open>
  Targets from the difficulties pools set (\<^verbatim>\<open>pdiff_target_leadzero\<close>, \<^verbatim>\<open>set_target_to_pdiff\<close>, \<^verbatim>\<open>set_target_to_bdiff\<close> in
  \<^verbatim>\<open>miner.c\<close>, \<^verbatim>\<open>bdiff_to_pdiff\<close> in \<^verbatim>\<open>miner.h\<close>). Difficulties are doubles, as in \<open>Difficulty\<close>; the conversion of a quotient
  to 64 bits, which C leaves undefined where it does not fit, takes it modulo \<open>2 ^ 64\<close>.
\<close>

section \<open>Targets\<close>

fun pdiff_scale :: "env \<Rightarrow> nat \<Rightarrow> rat \<Rightarrow> nat \<times> rat" where
  "pdiff_scale E 0 diff = (0, diff)"
| "pdiff_scale E (Suc k) diff =
     (if diff > 1 then pdiff_scale E k (rnd_double E (diff / 4294967296)) else (Suc k, diff))"

definition pdiff_target_leadzero :: "env \<Rightarrow> rat \<Rightarrow> bytes" where
  "pdiff_target_leadzero E diff =
     (let (k, diff) = pdiff_scale E 6 diff;
          m = word_of_int \<lfloor>rnd_double E (4294901760 / diff)\<rfloor> :: u64
      in if m = 0 \<and> k = 6 then replicate 32 0xff
         else word_bytes (ucast (drop_bit 32 m)) @ word_bytes (ucast m) @ replicate 24 0xff)"

definition set_target_to_pdiff :: "env \<Rightarrow> rat \<Rightarrow> bytes" where
  "set_target_to_pdiff E pdiff =
     (let rtarget = pdiff_target_leadzero E pdiff;
          ttarget = swab256 rtarget
      in swap32yes ttarget (32 div 4))"

definition bdiff_to_pdiff :: "env \<Rightarrow> rat \<Rightarrow> rat" where
  "bdiff_to_pdiff E n = rnd_double E (n * rnd_double E (10000152587 / 10000000000))"

definition set_target_to_bdiff :: "env \<Rightarrow> rat \<Rightarrow> bytes" where
  "set_target_to_bdiff E bdiff = set_target_to_pdiff E (bdiff_to_pdiff E bdiff)"

section \<open>Their values\<close>

lemma le_value_word_bytes: "le_value (word_bytes v) = unat v"
proof -
  have "unat v = unat (upk_u32le (word_bytes v) 0)" by (simp add: word_bytes_def f32le.upk_pk)
  then show ?thesis by (simp add: unat_upk_u32le word_bytes_explicit le_value_Cons)
qed

lemma length_word_bytes [len_simps]: "length (word_bytes v) = 4"
  by (simp add: word_bytes_explicit)

lemma swap256_words: "swap256 (word_bytes hi @ word_bytes lo @ replicate 24 c) = replicate 24 c @ word_bytes lo @ word_bytes hi"
proof -
  have r: "replicate 24 c = [c, c, c, c, c, c, c, c, c, c, c, c, c, c, c, c, c, c, c, c, c, c, c, c]"
    by (simp add: eval_nat_numeral)
  show ?thesis unfolding swap256_def upt_0_8 word_bytes_upk r unfolding word_bytes_explicit by simp
qed

text \<open>The target as a number, unless it is the greatest one: the quotient is followed by 192 ones.\<close>

lemma set_target_to_pdiff_quotient:
  assumes "pdiff_scale E 6 pdiff = (k, diff)" "m = word_of_int \<lfloor>rnd_double E (4294901760 / diff)\<rfloor>" "m \<noteq> 0 \<or> k \<noteq> 6"
  shows "le_value (set_target_to_pdiff E pdiff) = (unat (m :: u64) + 1) * 2 ^ 192 - 1" "length (set_target_to_pdiff E pdiff) = 32"
proof -
  define hi lo where "hi = (ucast (drop_bit 32 m) :: u32)" and "lo = (ucast m :: u32)"
  define r where "r = word_bytes hi @ word_bytes lo @ replicate 24 (0xff :: u8)"
  have r: "pdiff_target_leadzero E pdiff = r"
    using assms by (auto simp: pdiff_target_leadzero_def Let_def r_def hi_def lo_def)
  have len: "length r = 32" by (simp add: r_def len_simps)
  have t: "set_target_to_pdiff E pdiff = replicate 24 0xff @ word_bytes lo @ word_bytes hi"
    using swap256_swap32yes [OF len] by (simp add: set_target_to_pdiff_def r) (simp add: r_def swap256_words)
  then show "length (set_target_to_pdiff E pdiff) = 32" by (simp add: len_simps)
  have m: "unat m = unat lo + 2 ^ 32 * unat hi"
  proof -
    have "unat lo = unat m mod 2 ^ 32" by (simp add: lo_def unsigned_ucast_eq take_bit_eq_mod)
    moreover have "unat (drop_bit 32 m) = unat m div 2 ^ 32" unfolding unat_drop_bit_eq by (rule drop_bit_eq_div)
    moreover have "unat m div 2 ^ 32 < 2 ^ 32" using unsigned_less [of m, where 'a = nat] by (simp add: less_mult_imp_div_less)
    ultimately have "unat hi = unat m div 2 ^ 32"
      by (simp add: hi_def unsigned_ucast_eq take_bit_nat_eq_self_iff)
    then show ?thesis using \<open>unat lo = unat m mod 2 ^ 32\<close> by simp
  qed
  show "le_value (set_target_to_pdiff E pdiff) = (unat m + 1) * 2 ^ 192 - 1"
    unfolding t le_value_append le_value_word_bytes le_value_ff by (simp add: len_simps m algebra_simps)
qed

text \<open>With exact quotients a difficulty between 1 and 2^32 gets a target of 2^32 times the size: difficulty 2 is easier than 1.\<close>

lemma target_one:
  assumes "rnd_double E 4294901760 = 4294901760"
  shows "le_value (set_target_to_pdiff E 1) = 4294901761 * 2 ^ 192 - 1"
proof -
  have s: "pdiff_scale E 6 1 = (6, 1)" by (simp add: eval_nat_numeral)
  define m where "m = (word_of_int \<lfloor>rnd_double E (4294901760 / 1)\<rfloor> :: u64)"
  have m: "m = 4294901760" unfolding m_def by (simp add: assms)
  then have "m \<noteq> 0 \<or> (6 :: nat) \<noteq> 6" by simp
  from set_target_to_pdiff_quotient(1) [OF s m_def this] show ?thesis by (simp add: m)
qed

lemma target_between:
  assumes "1 < d" "d \<le> 4294967296" "rnd_double E (d / 4294967296) = d / 4294967296"
    "\<lfloor>rnd_double E (4294901760 / (d / 4294967296))\<rfloor> = q" "0 < q" "q < 2 ^ 64"
  shows "le_value (set_target_to_pdiff E d) = (nat q + 1) * 2 ^ 192 - 1"
proof -
  have s: "pdiff_scale E 6 d = (5, d / 4294967296)"
    using assms(1-3) by (simp add: eval_nat_numeral)
  define m where "m = (word_of_int \<lfloor>rnd_double E (4294901760 / (d / 4294967296))\<rfloor> :: u64)"
  have "unat m = nat q"
    unfolding m_def assms(4) using assms(5,6) by (simp add: unsigned_of_int take_bit_int_eq_self)
  then show ?thesis using set_target_to_pdiff_quotient(1) [OF s m_def] by simp
qed

text \<open>IEEE 754: a number with 53 binary digits is not rounded (within the range of the exponent, which is left out).\<close>

definition is_double :: "rat \<Rightarrow> bool" where
  "is_double d \<longleftrightarrow> (\<exists>(m :: int) k :: nat. \<bar>m\<bar> < 2 ^ 53 \<and> (d = of_int m * 2 ^ k \<or> d = of_int m / 2 ^ k))"

definition rounds :: "(rat \<Rightarrow> rat) \<Rightarrow> bool" where
  "rounds r \<longleftrightarrow> mono r \<and> (\<forall>d. is_double d \<longrightarrow> r d = d)"

lemma is_double_scale: "is_double d \<Longrightarrow> is_double (d / 2 ^ n)" "is_double d \<Longrightarrow> is_double (d * 2 ^ n)"
proof -
  have cancel: "of_int m * 2 ^ k / 2 ^ n = (if n \<le> k then of_int m * 2 ^ (k - n) else of_int m / (2 ^ (n - k) :: rat))" for m k n
    by (auto simp: power_diff field_simps)
  show "is_double (d / 2 ^ n)" if "is_double d"
  proof -
    from that obtain m k where m: "\<bar>m\<bar> < 2 ^ 53" and d: "d = of_int m * 2 ^ k \<or> d = of_int m / 2 ^ k" by (auto simp: is_double_def)
    from d show ?thesis
    proof
      assume "d = of_int m * 2 ^ k"
      then show ?thesis using m cancel [of m k n] unfolding is_double_def by metis
    next
      assume "d = of_int m / 2 ^ k"
      then have "d / 2 ^ n = of_int m / 2 ^ (k + n)" by (simp add: power_add)
      then show ?thesis using m unfolding is_double_def by blast
    qed
  qed
  show "is_double (d * 2 ^ n)" if "is_double d"
  proof -
    from that obtain m k where m: "\<bar>m\<bar> < 2 ^ 53" and d: "d = of_int m * 2 ^ k \<or> d = of_int m / 2 ^ k" by (auto simp: is_double_def)
    from d show ?thesis
    proof
      assume "d = of_int m / 2 ^ k"
      then have "d * 2 ^ n = of_int m * 2 ^ n / 2 ^ k" by simp
      then show ?thesis using m cancel [of m n k] unfolding is_double_def by metis
    next
      assume "d = of_int m * 2 ^ k"
      then have "d * 2 ^ n = of_int m * 2 ^ (k + n)" by (simp add: power_add)
      then show ?thesis using m unfolding is_double_def by blast
    qed
  qed
qed

text \<open>
  C40. The direction of difficulties is lost above 1: every difficulty between 1 and \<open>2 ^ 31\<close> yields a target that is
  greater, so easier to meet, than that of difficulty 1, because the loop scales the difficulty but the quotient always
  goes into the two most significant words.
\<close>

theorem set_target_to_pdiff_inverted:
  assumes "rounds (rnd_double E)" "is_double d" "1 < d" "d \<le> 2 ^ 31"
  shows "le_value (set_target_to_pdiff E 1) < le_value (set_target_to_pdiff E d)"
proof -
  have exact: "rnd_double E x = x" if "is_double x" for x using assms(1) that by (simp add: rounds_def)
  have mono: "mono (rnd_double E)" using assms(1) by (simp add: rounds_def)
  have dm: "is_double (of_int m)" if "\<bar>m\<bar> < 2 ^ 53" for m
    unfolding is_double_def using that by (intro exI [of _ m] exI [of _ 0]) simp
  have c: "is_double 4294901760" "is_double 8589803520" using dm [of 4294901760] dm [of 8589803520] by simp_all
  have top: "is_double (4294901760 * 4294967296)" using is_double_scale(2) [OF c(1), of 32] by simp
  define x where "x = 4294901760 / (d / 4294967296)"
  have x: "8589803520 \<le> x" "x < 4294901760 * 4294967296"
    using assms(3,4) by (simp_all add: x_def field_simps)
  have r: "8589803520 \<le> rnd_double E x" "rnd_double E x \<le> 4294901760 * 4294967296"
    using monoD [OF mono x(1)] monoD [OF mono less_imp_le [OF x(2)]] exact [OF c(2)] exact [OF top] by simp_all
  define q where "q = \<lfloor>rnd_double E x\<rfloor>"
  have q: "8589803520 \<le> q" "q < 2 ^ 64" using r by (simp_all add: q_def le_floor_iff floor_less_iff)
  have e: "rnd_double E (d / 4294967296) = d / 4294967296" using exact [OF is_double_scale(1) [OF assms(2), of 32]] by simp
  have qd: "\<lfloor>rnd_double E (4294901760 / (d / 4294967296))\<rfloor> = q" by (simp only: q_def x_def)
  have "le_value (set_target_to_pdiff E d) = (nat q + 1) * 2 ^ 192 - 1"
    by (rule target_between [OF assms(3) _ e qd]) (use assms(4) q in simp_all)
  moreover have "8589803520 \<le> nat q" using q(1) by simp
  ultimately show ?thesis using target_one [OF exact [OF c(1)]] by simp
qed

end
