(* ===== verification/StratumMsgs.thy ===== *)
theory StratumMsgs
  imports Coinbase Pdiff StratumWork Submission
begin

text \<open>
  The messages of stratum pools (\<^verbatim>\<open>parse_method\<close> and its handlers in \<^verbatim>\<open>util.c\<close>, the answers in
  \<^verbatim>\<open>parse_stratum_response\<close> in \<^verbatim>\<open>miner.c\<close>) with what they change and what they send. JSON values are
  seen through the functions of jansson. The lines that arrive, the outcomes of the sends and of the connections and the numbers
  \<^verbatim>\<open>rand\<close> draws are sequences the state holds.
\<close>

section \<open>The connection\<close>

text \<open>What \<^verbatim>\<open>recv_line\<close> gives: a line, or none; then the connection may have been found closed.\<close>

datatype received = Line string | No_line bool

text \<open>What an attempt of curl to connect comes to; the last is a connection without a socket.\<close>

datatype connect_ret = CONNECTED | NOT_CONNECTED | NO_SOCKET

record stratum_io =
  mnr :: miner
  recvs :: "received list"
  send_rets :: "send_ret list"
  connects :: "connect_ret list"
  rands :: "int list"
  sent :: "(nat \<times> string) list"

text \<open>jansson: lookups give \<open>None\<close> for a null pointer; \<open>dumps_any\<close> is the text of a value, \<open>loads\<close> reads one.\<close>

record 'j jansson = "'j json_api" +
  is_string :: "'j \<Rightarrow> bool"
  string_value :: "'j \<Rightarrow> string"
  is_object :: "'j \<Rightarrow> bool"
  object_get :: "'j \<Rightarrow> string \<Rightarrow> 'j option"
  is_false :: "'j \<Rightarrow> bool"
  is_integer :: "'j \<Rightarrow> bool"
  integer_value :: "'j \<Rightarrow> int"
  double_value :: "'j \<Rightarrow> rat"
  dumps_any :: "'j \<Rightarrow> string"
  loads :: "string \<Rightarrow> 'j option"

datatype pow_algorithm = POW_KECCAK | POW_SHA256D | POW_SCRYPT

text \<open>
  What does not change while messages come: the environment, jansson, the list of algorithms, the options and the name of
  the program. \<open>overrun_passes\<close> is what a check of a coinbase that reads behind the buffer returns.
\<close>

record 'j stratum_env =
  base_env :: env
  jans :: "'j jansson"
  rnd_float :: "rat \<Rightarrow> rat"
  overrun_passes :: bool
  malgo_algo :: "nat \<Rightarrow> pow_algorithm"
  mining_algorithms :: "(nat \<times> string) list"
  slash_ver :: string
  request_target_str :: "string option"
  request_bdiff :: rat

abbreviation upd_mnr :: "(miner \<Rightarrow> miner) \<Rightarrow> stratum_io \<Rightarrow> stratum_io" where
  "upd_mnr f T \<equiv> T\<lparr>mnr := f (mnr T)\<rparr>"

definition upd_session :: "nat \<Rightarrow> (stratum_session \<Rightarrow> stratum_session) \<Rightarrow> miner \<Rightarrow> miner" where
  "upd_session pool f s = upd_pool pool (\<lambda>p. p\<lparr>p_session := f (p_session p)\<rparr>) s"

definition upd_swork :: "nat \<Rightarrow> (stratum_work \<Rightarrow> stratum_work) \<Rightarrow> miner \<Rightarrow> miner" where
  "upd_swork pool f s = upd_pool pool (\<lambda>p. p\<lparr>p_swork := f (p_swork p)\<rparr>) s"

section \<open>Reading JSON\<close>

definition jarray_get :: "'j jansson \<Rightarrow> 'j option \<Rightarrow> nat \<Rightarrow> 'j option" where
  "jarray_get J val i = (case val of None \<Rightarrow> None | Some v \<Rightarrow> array_get J v i)"

definition jobject_get :: "'j jansson \<Rightarrow> 'j option \<Rightarrow> string \<Rightarrow> 'j option" where
  "jobject_get J val key = (case val of None \<Rightarrow> None | Some v \<Rightarrow> object_get J v key)"

definition json_array_string :: "'j jansson \<Rightarrow> 'j option \<Rightarrow> nat \<Rightarrow> string option" where
  "json_array_string J val entry =
     (if json_is (is_null J) val then None
      else if \<not> json_is (is_array J) val then None
      else if entry > array_size J (the val) then None
      else let arr_entry = jarray_get J val entry
           in if \<not> json_is (is_string J) arr_entry then None else Some (string_value J (the arr_entry)))"

section \<open>Sending\<close>

text \<open>
  A message in a buffer of \<open>size\<close> bytes: the text and its final zero must fit, and \<^verbatim>\<open>__stratum_send\<close> appends a line
  feed in the same buffer.
\<close>

definition send_line :: "nat \<Rightarrow> bool \<Rightarrow> nat \<Rightarrow> string \<Rightarrow> stratum_io \<Rightarrow> (stratum_io \<times> bool) outcome" where
  "send_line bufsz force pool msg T =
     (let active = p_stratum_active (the_pool (mnr T) pool) \<or> force
      in if length msg + 1 > bufsz \<or> active \<and> length msg + 2 > bufsz then Undefined
         else if \<not> active then Returns (upd_mnr (stratum_send SEND_INACTIVE pool) T, False)
         else let ret = (if send_rets T = [] then SEND_SENDFAIL else hd (send_rets T));
                  T = T\<lparr>send_rets := tl (send_rets T), sent := sent T @ [(pool, msg)]\<rparr>
              in Returns (upd_mnr (stratum_send ret pool) T, ret = SEND_OK))"

definition RBUFSIZE :: nat where
  "RBUFSIZE = 8192"

definition stratum_probe_transparency :: "nat \<Rightarrow> stratum_io \<Rightarrow> stratum_io outcome" where
  "stratum_probe_transparency pool T =
     (let job_id = str_text (sw_job_id (p_swork (the_pool (mnr T) pool)))
      in and_then (send_line 1024 False pool (''{\"params\": [\"'' @ job_id @ ''\"], \"id\": \"txlist'' @ job_id @ ''\", \"method\": \"mining.get_transactions\"}'') T)
           (\<lambda>(T, _). Returns (upd_mnr (\<lambda>s.
              upd_session pool (\<lambda>e. let e = (if \<not> ss_opaque e \<and> \<not> timer_isset (ss_tv_transparency e)
                                            then e\<lparr>ss_tv_transparency := timer_set_delay (now s) 21093750\<rparr> else e)
                                  in e\<lparr>ss_transparency_probed := True\<rparr>) s) T)))"

section \<open>Jobs\<close>

text \<open>The parameters of \<^verbatim>\<open>mining.notify\<close>, once they are known to be strings.\<close>

record notification =
  nt_job_id :: string
  nt_prev_hash :: string
  nt_coinbase1 :: string
  nt_coinbase2 :: string
  nt_merkles :: "string list"
  nt_bbversion :: string
  nt_nbit :: string
  nt_ntime :: string
  nt_clean :: bool

definition read_notify :: "'j jansson \<Rightarrow> 'j option \<Rightarrow> notification option" where
  "read_notify J val =
     (let arr = jarray_get J val 4
      in if \<not> json_is (is_array J) arr then None
         else let merkles = map (jarray_get J arr) [0..<array_size J (the arr)]
              in if \<not> list_all (json_is (is_string J)) merkles then None
                 else case map (json_array_string J val) [1, 2, 3, 5, 6, 7, 0] of
                   [Some prev_hash, Some coinbase1, Some coinbase2, Some bbversion, Some nbit, Some ntime, Some job_id] \<Rightarrow>
                     Some \<lparr>nt_job_id = job_id, nt_prev_hash = prev_hash, nt_coinbase1 = coinbase1, nt_coinbase2 = coinbase2,
                           nt_merkles = map (\<lambda>m. string_value J (the m)) merkles, nt_bbversion = bbversion, nt_nbit = nbit, nt_ntime = ntime,
                           nt_clean = json_is (is_true J) (jarray_get J val 8)\<rparr>
                 | _ \<Rightarrow> None)"

text \<open>What the new job takes over of what other messages have announced.\<close>

definition adopt_announced :: "nat \<Rightarrow> miner \<Rightarrow> miner" where
  "adopt_announced pool s =
     (let goal = p_goal (the_pool s pool);
          s = (case ss_next_goalname (p_session (the_pool s pool)) of
                 None \<Rightarrow> s
               | Some goalname \<Rightarrow> mining_goal_reset goal (upd_session pool (\<lambda>e. e\<lparr>ss_goalname := goalname, ss_next_goalname := None\<rparr>) s));
          s = (case ss_next_goal_malgo (p_session (the_pool s pool)) of
                 None \<Rightarrow> s
               | Some malgo \<Rightarrow> upd_session pool (\<lambda>e. e\<lparr>ss_next_goal_malgo := None\<rparr>) (goal_set_malgo goal malgo s));
          s = (case ss_next_nonce1 (p_session (the_pool s pool)) of
                 None \<Rightarrow> s
               | Some nonce1 \<Rightarrow> upd_swork pool (\<lambda>j. j\<lparr>sw_nonce1 := Some nonce1\<rparr>)
                   (upd_session pool (\<lambda>e. e\<lparr>ss_n1_len := length nonce1 div 2, ss_next_nonce1 := None\<rparr>) s));
          n2size = nat (ss_next_n2size (p_session (the_pool s pool)))
      in upd_pool pool (\<lambda>p. p\<lparr>p_nonce2sz := (if n2size > 8 then 8 else n2size)\<rparr>)
           (upd_swork pool (\<lambda>j. j\<lparr>sw_n2size := n2size\<rparr>) s))"

text \<open>The texts are decoded into the buffers of the job, as far as they are hexadecimal.\<close>

definition write_hex :: "bytes \<Rightarrow> nat \<Rightarrow> string \<Rightarrow> nat \<Rightarrow> bytes" where
  "write_hex buf off s len = mem_write buf off (snd (hex2bin s len))"

definition job_header :: "notification \<Rightarrow> stratum_work \<Rightarrow> stratum_work" where
  "job_header n j =
     (let header1 = write_hex (write_hex (sw_header1 j) 0 (nt_bbversion n) 4) 4 (nt_prev_hash n) 32;
          ntime = upk_u32be (write_hex (word_bytes (sw_ntime j)) 0 (nt_ntime n) 4) 0
      in j\<lparr>sw_header1 := header1, sw_ntime := ntime, sw_diffbits := write_hex (sw_diffbits j) 0 (nt_nbit n) 4,
           sw_ntime_roll_limits := set_simple_ntime_roll_limit ntime 60 (sw_tv_received j)\<rparr>)"

definition job_coinbase :: "env \<Rightarrow> notification \<Rightarrow> string \<Rightarrow> nat \<Rightarrow> stratum_work \<Rightarrow> stratum_work" where
  "job_coinbase E n nonce1 n1_len j =
     (let cb1_len = length (nt_coinbase1 n) div 2;
          nonce2_offset = cb1_len + n1_len;
          cb2_len = length (nt_coinbase2 n) div 2;
          coinbase = bytes_resize (resize_junk E) (sw_coinbase j) (nonce2_offset + sw_n2size j + cb2_len);
          buf = write_hex (bbuf coinbase) 0 (nt_coinbase1 n) cb1_len;
          buf = write_hex buf cb1_len nonce1 n1_len;
          buf = write_hex buf (nonce2_offset + sw_n2size j) (nt_coinbase2 n) cb2_len
      in j\<lparr>sw_nonce2_offset := nonce2_offset, sw_coinbase := coinbase\<lparr>bbuf := buf\<rparr>\<rparr>)"

definition job_merkles :: "env \<Rightarrow> notification \<Rightarrow> stratum_work \<Rightarrow> stratum_work" where
  "job_merkles E n j =
     (let merkle_bin = bytes_resize (resize_junk E) (sw_merkle_bin j) (32 * length (nt_merkles n));
          buf = fold (\<lambda>i buf. write_hex buf (i * 32) (nt_merkles n ! i) 32) [0..<length (nt_merkles n)] (bbuf merkle_bin)
      in j\<lparr>sw_merkle_bin := merkle_bin\<lparr>bbuf := buf\<rparr>, sw_merkles := length (nt_merkles n)\<rparr>)"

text \<open>The part of \<^verbatim>\<open>parse_notify\<close> under the lock. Without an extranonce of the pool a null pointer is decoded.\<close>

definition notify_job :: "'j stratum_env \<Rightarrow> nat \<Rightarrow> notification \<Rightarrow> miner \<Rightarrow> miner outcome" where
  "notify_job V pool n s =
     (let s = upd_swork pool (\<lambda>j. j\<lparr>sw_tv_received := now s, sw_job_id := Some (nt_job_id n)\<rparr>) s;
          s = (case sw_tr (p_swork (the_pool s pool)) of
                 None \<Rightarrow> s
               | Some t \<Rightarrow> upd_swork pool (\<lambda>j. j\<lparr>sw_tr := None\<rparr>) (tmpl_decref t s));
          s = upd_pool pool (\<lambda>p. p\<lparr>p_submit_old := \<not> nt_clean n\<rparr>) s;
          s = upd_swork pool (\<lambda>j. j\<lparr>sw_clean := True\<rparr>) s;
          s = adopt_announced pool s
      in case sw_nonce1 (p_swork (the_pool s pool)) of
           None \<Rightarrow> Undefined
         | Some nonce1 \<Rightarrow>
             let n1_len = ss_n1_len (p_session (the_pool s pool));
                 s = upd_swork pool (\<lambda>j. job_merkles (base_env V) n (job_coinbase (base_env V) n nonce1 n1_len (job_header n j))) s;
                 s = upd_pool pool (\<lambda>p. p\<lparr>p_nonce2 := 0, p_swork := (p_swork p)\<lparr>sw_target := p_next_target p\<rparr>\<rparr>) s
             in Returns (pool_check_coinbase (base_env V) (rnd_float V) (overrun_passes V) pool
                  (bytes_view (sw_coinbase (p_swork (the_pool s pool)))) s))"

definition RAND_MAX :: int where
  "RAND_MAX = 2147483647"

text \<open>\<^verbatim>\<open>rand\<close> is only called if there are branches and the pool has been probed before.\<close>

definition parse_notify :: "'j stratum_env \<Rightarrow> nat \<Rightarrow> 'j option \<Rightarrow> stratum_io \<Rightarrow> (stratum_io \<times> bool) outcome" where
  "parse_notify V pool val T =
     (case read_notify (jans V) val of
        None \<Rightarrow> Returns (T, False)
      | Some n \<Rightarrow> and_then (notify_job V pool n (mnr T)) (\<lambda>s.
          let s = upd_session pool (\<lambda>e. e\<lparr>ss_getwork_requested := ss_getwork_requested e + 1\<rparr>) s;
              s = s\<lparr>total_getworks := total_getworks s + 1\<rparr>;
              T = T\<lparr>mnr := s\<rparr>;
              e = p_session (the_pool s pool);
              draws = (nt_merkles n \<noteq> [] \<and> ss_transparency_probed e);
              rand = (if rands T = [] then 0 else hd (rands T));
              T = (if draws then T\<lparr>rands := tl (rands T)\<rparr> else T)
          in if (nt_merkles n \<noteq> [] \<and> (\<not> ss_transparency_probed e \<or> rand \<le> RAND_MAX div (opt_skip_checks s + 1))) \<or>
               timer_isset (ss_tv_transparency e)
             then (if ss_probed e then and_then (stratum_probe_transparency pool T) (\<lambda>T. Returns (T, True)) else Returns (T, True))
             else Returns (T, True)))"

section \<open>Difficulties\<close>

text \<open>\<^verbatim>\<open>atof\<close> of decimal numbers; its hexadecimal, infinite and undefined ones are left out.\<close>

definition atof :: "(rat \<Rightarrow> rat) \<Rightarrow> string \<Rightarrow> rat" where
  "atof rnd s =
     (let s = dropWhile isspace s;
          neg = (chat s 0 = CHR ''-'');
          s = (if chat s 0 = CHR ''-'' \<or> chat s 0 = CHR ''+'' then tl s else s);
          whole = takeWhile isdigit s;
          s = dropWhile isdigit s;
          frac = (if chat s 0 = CHR ''.'' then takeWhile isdigit (tl s) else []);
          s = (if chat s 0 = CHR ''.'' then dropWhile isdigit (tl s) else s);
          mant = of_int (digits_value 10 (whole @ frac)) / 10 ^ length frac :: rat;
          e = (if tolower (chat s 0) = CHR ''e'' then tl s else []);
          eneg = (chat e 0 = CHR ''-'');
          e = takeWhile isdigit (if chat e 0 = CHR ''-'' \<or> chat e 0 = CHR ''+'' then tl e else e);
          x = nat (digits_value 10 e);
          v = (if whole @ frac = [] then 0 else if eneg then mant / 10 ^ x else mant * 10 ^ x)
      in rnd (if neg then - v else v))"

definition parse_diff :: "'j stratum_env \<Rightarrow> nat \<Rightarrow> 'j option \<Rightarrow> rat \<Rightarrow> miner \<Rightarrow> miner \<times> bool" where
  "parse_diff V pool val e s =
     (let E = base_env V;
          algo = malgo_algo V (pool_malgo s pool);
          diff = (case jarray_get (jans V) val 0 of None \<Rightarrow> 0 | Some v \<Rightarrow> double_value (jans V) v);
          diff = (if e \<noteq> 0 then e else diff)
      in if diff = 0 then (s, False)
         else let diff = (if of_int \<lfloor>diff\<rfloor> \<noteq> diff then bdiff_to_pdiff E diff else diff);
                  diff = (if algo = POW_SHA256D \<and> diff < 1 \<and> diff > rnd_double E (999 / 1000) then 1 else diff);
                  diff = (if algo = POW_SCRYPT \<and> diff \<ge> 16 then rnd_double E (diff / 65536) else diff)
              in (upd_pool pool (\<lambda>p. p\<lparr>p_next_target := set_target_to_pdiff E diff\<rparr>) s, True))"

section \<open>Other messages\<close>

text \<open>The answer to a message that carries an id, printed with \<^verbatim>\<open>sprintf\<close> into \<^verbatim>\<open>RBUFSIZE\<close> bytes.\<close>

definition id_of :: "'j stratum_env \<Rightarrow> 'j option \<Rightarrow> string option" where
  "id_of V val =
     (case jobject_get (jans V) val ''id'' of
        None \<Rightarrow> None
      | Some j \<Rightarrow> if is_null (jans V) j then None else Some (dumps_any (jans V) j))"

definition read_extranonce :: "'j jansson \<Rightarrow> 'j option \<Rightarrow> (string option \<times> int) option" where
  "read_extranonce J params =
     (let j = jarray_get J params 1;
          n2size = (if array_size J (the params) < 2 then Some 0
                    else if json_is (is_number J) j
                    then (let n = int_of_long (integer_value J (the j)) in if n < 1 then None else Some n)
                    else if json_is (is_null J) j then Some 0 else None);
          j = jarray_get J params 0;
          nonce1 = (if json_is (is_string J) j then Some (Some (string_value J (the j)))
                    else if json_is (is_null J) j then Some None else None)
      in case (n2size, nonce1) of
           (Some n, Some m) \<Rightarrow> Some (m, n)
         | _ \<Rightarrow> None)"

definition stratum_set_extranonce ::
  "'j stratum_env \<Rightarrow> nat \<Rightarrow> 'j option \<Rightarrow> 'j option \<Rightarrow> stratum_io \<Rightarrow> (stratum_io \<times> bool) outcome"
where
  "stratum_set_extranonce V pool val params T =
     (let J = jans V
      in if json_is (is_array J) params \<and> array_size J (the params) = 0 then Returns (T, True)
         else case (if json_is (is_array J) params then read_extranonce J params else None) of
           Some (nonce1, n2size) \<Rightarrow>
             Returns (upd_mnr (upd_session pool (\<lambda>e.
               let e = (if nonce1 \<noteq> None then e\<lparr>ss_next_nonce1 := nonce1\<rparr> else e)
               in if n2size \<noteq> 0 then e\<lparr>ss_next_n2size := n2size\<rparr> else e)) T, True)
         | None \<Rightarrow>
             (case id_of V val of
                None \<Rightarrow> Returns (T, True)
              | Some idstr \<Rightarrow>
                  and_then (send_line RBUFSIZE False pool (''{\"id\": '' @ idstr @ '', \"result\": null, \"error\": [20, \"Invalid params\"]}'') T)
                    (\<lambda>(T, _). Returns (T, True))))"

definition mining_algorithm_by_alias :: "'j stratum_env \<Rightarrow> string \<Rightarrow> miner \<Rightarrow> nat option" where
  "mining_algorithm_by_alias V alias s =
     List.find (\<lambda>malgo. match_strtok (ma_aliases (astore s malgo)) ''|'' alias) (map fst (mining_algorithms V))"

text \<open>The algorithm the message asks for: \<open>None\<close> if it cannot be had, \<open>Some None\<close> if there is no change.\<close>

definition goal_malgo_of :: "'j stratum_env \<Rightarrow> nat \<Rightarrow> 'j option \<Rightarrow> miner \<Rightarrow> nat option option" where
  "goal_malgo_of V pool params s =
     (let J = jans V;
          j_malgo = jobject_get J (jarray_get J params 1) ''malgo''
      in if json_is (is_array J) params \<and> array_size J (the params) > 1 \<and> json_is (is_object J) (jarray_get J params 1) \<and>
            json_is (is_string J) j_malgo
         then (let new_malgo = mining_algorithm_by_alias V (string_value J (the j_malgo)) s
               in if new_malgo \<noteq> None \<and> uri_get_param_bool (p_rpc_url (the_pool s pool)) ''change_goal_malgo'' False
                  then Some (if new_malgo = Some (pool_malgo s pool) then None else new_malgo) else None)
         else Some None)"

text \<open>The answer is the wrong way round: it says \<open>true\<close> in the case of an error.\<close>

definition stratum_set_goal ::
  "'j stratum_env \<Rightarrow> nat \<Rightarrow> 'j option \<Rightarrow> 'j option \<Rightarrow> stratum_io \<Rightarrow> (stratum_io \<times> bool) outcome"
where
  "stratum_set_goal V pool val params T =
     (let s = mnr T
      in if \<not> uri_get_param_bool (p_rpc_url (the_pool s pool)) ''goalreset'' False then Returns (T, False)
         else let new_goalname = json_array_string (jans V) params 0;
                  goalname = ss_goalname (p_session (the_pool s pool));
                  answer = (\<lambda>emsg T.
                    case id_of V val of
                      None \<Rightarrow> Returns (T, True)
                    | Some idstr \<Rightarrow>
                        and_then (send_line 0x80 False pool (take 0x7f
                            (if emsg \<noteq> None then ''{\"id\":'' @ idstr @ '',\"result\":true,\"error\":null}''
                             else ''{\"id\":'' @ idstr @ '',\"result\":null,\"error\":[-1,\"'' @ str_text emsg @ ''\",null]}'')) T)
                          (\<lambda>(T, _). Returns (T, True)))
              in case goal_malgo_of V pool params s of
                   None \<Rightarrow> answer (Some ''Mining algorithm not supported'') T
                 | Some new_malgo \<Rightarrow>
                     if goalname \<noteq> None \<and> new_goalname = None then Undefined
                     else answer None (upd_mnr (upd_session pool (\<lambda>e. e\<lparr>ss_next_goal_malgo := new_malgo,
                            ss_next_goalname := (if goalname = new_goalname then None else Some new_goalname)\<rparr>)) T))"

text \<open>The address to reconnect to, in a buffer of 256 bytes; a port that is a number is taken as \<^verbatim>\<open>unsigned\<close>.\<close>

definition reconnect_address :: "'j jansson \<Rightarrow> 'j option \<Rightarrow> string \<Rightarrow> string \<Rightarrow> string" where
  "reconnect_address J val url stratum_port =
     (let port_json = jarray_get J val 1
      in take 255 (url @ '':'' @
           (if json_is (is_number J) port_json then nat_text (nat (\<lfloor>double_value J (the port_json)\<rfloor> mod 2 ^ 32))
            else if json_is (is_string J) port_json then string_value J (the port_json)
            else stratum_port)))"

definition parse_reconnect ::
  "(nat \<Rightarrow> stratum_io \<Rightarrow> (stratum_io \<times> bool) outcome) \<Rightarrow> 'j stratum_env \<Rightarrow> nat \<Rightarrow> 'j option \<Rightarrow> stratum_io \<Rightarrow>
     (stratum_io \<times> bool) outcome"
where
  "parse_reconnect restart V pool val T =
     (let p = the_pool (mnr T) pool;
          reconnect = (\<lambda>url.
            case extract_sockaddr (reconnect_address (jans V) val url (p_stratum_port p)) of
              None \<Rightarrow> Returns (T, False)
            | Some (address, port) \<Rightarrow>
                restart pool (upd_mnr (upd_pool pool (\<lambda>p. p\<lparr>p_sockaddr_url := address, p_stratum_port := port, p_stratum_url := address\<rparr>)) T))
      in if opt_disable_client_reconnect (mnr T) then Returns (T, False)
         else case json_array_string (jans V) val 0 of
                None \<Rightarrow> reconnect (p_sockaddr_url p)
              | Some url \<Rightarrow>
                  (case pool_may_redirect_to (p_rpc_url p) url of
                     None \<Rightarrow> Undefined
                   | Some False \<Rightarrow> Returns (T, False)
                   | Some True \<Rightarrow> reconnect url))"

definition send_version :: "'j stratum_env \<Rightarrow> nat \<Rightarrow> 'j option \<Rightarrow> stratum_io \<Rightarrow> (stratum_io \<times> bool) outcome" where
  "send_version V pool val T =
     (case id_of V val of
        None \<Rightarrow> Returns (T, False)
      | Some idstr \<Rightarrow> send_line RBUFSIZE False pool (''{\"id\": '' @ idstr @ '', \"result\": \"'' @ slash_ver V @ ''\", \"error\": null}'') T)"

definition stratum_show_message ::
  "'j stratum_env \<Rightarrow> nat \<Rightarrow> 'j option \<Rightarrow> 'j option \<Rightarrow> stratum_io \<Rightarrow> (stratum_io \<times> bool) outcome"
where
  "stratum_show_message V pool val params T =
     (let msg = json_array_string (jans V) params 0;
          T = (if msg \<noteq> None then upd_mnr (upd_session pool (\<lambda>e. e\<lparr>ss_admin_msg := msg\<rparr>)) T else T)
      in case id_of V val of
           None \<Rightarrow> Returns (T, True)
         | Some idstr \<Rightarrow>
             send_line RBUFSIZE False pool
               (if msg \<noteq> None then ''{\"id\": '' @ idstr @ '', \"result\": true, \"error\": null}''
                else ''{\"id\": '' @ idstr @ '', \"result\": null, \"error\": [-1, \"Failed to parse message\", null]}'') T)"

section \<open>One message\<close>

text \<open>
  \<^verbatim>\<open>mining.set_difficulty\<close> reads the difficulty from the text of the message, between the first bracket that opens and the
  first that closes, into 48 bytes; the text must fit with a zero behind it. The result is \<open>None\<close> if it does not.
\<close>

definition text_difficulty :: "(rat \<Rightarrow> rat) \<Rightarrow> string \<Rightarrow> rat option" where
  "text_difficulty rnd s =
     (case (strstr s ''['', strstr s '']'') of
        (Some b, Some e) \<Rightarrow>
          if e < b + 1 \<or> e - (b + 1) \<ge> 48 then None else Some (atof rnd (take (e - (b + 1)) (drop (b + 1) s)))
      | _ \<Rightarrow> None)"

text \<open>The handler of a method, and whether it is meant to be the last word on the message.\<close>

definition dispatch ::
  "(nat \<Rightarrow> stratum_io \<Rightarrow> (stratum_io \<times> bool) outcome) \<Rightarrow> 'j stratum_env \<Rightarrow> nat \<Rightarrow> string \<Rightarrow> string \<Rightarrow> 'j option \<Rightarrow> 'j option \<Rightarrow>
     stratum_io \<Rightarrow> (stratum_io \<times> bool) outcome"
where
  "dispatch restart V pool s buf val params T =
     (if strncaseeq buf ''mining.notify'' 13 then
        and_then (parse_notify V pool params T)
          (\<lambda>(T, ret). Returns (upd_mnr (upd_pool pool (\<lambda>p. p\<lparr>p_stratum_notify := ret\<rparr>)) T, ret))
      else if strncaseeq buf ''mining.set_difficulty'' 21 then
        (case text_difficulty (rnd_double (base_env V)) s of
           None \<Rightarrow> Undefined
         | Some diff_e \<Rightarrow> let (m, ret) = parse_diff V pool params diff_e (mnr T) in Returns (T\<lparr>mnr := m\<rparr>, ret))
      else if strncaseeq buf ''client.reconnect'' 16 then parse_reconnect restart V pool params T
      else if strncaseeq buf ''client.get_version'' 18 then send_version V pool val T
      else if strncaseeq buf ''client.show_message'' 19 then stratum_show_message V pool val params T
      else if strncaseeq buf ''mining.set_extranonce'' 21 then stratum_set_extranonce V pool val params T
      else if strncaseeq buf ''mining.set_goal'' 15 then stratum_set_goal V pool val params T
      else Returns (T, False))"

definition parse_method_with ::
  "(nat \<Rightarrow> stratum_io \<Rightarrow> (stratum_io \<times> bool) outcome) \<Rightarrow> 'j stratum_env \<Rightarrow> nat \<Rightarrow> string \<Rightarrow> stratum_io \<Rightarrow>
     (stratum_io \<times> bool) outcome"
where
  "parse_method_with restart V pool s T =
     (let J = jans V
      in case loads J s of
           None \<Rightarrow> Returns (T, False)
         | Some v \<Rightarrow>
             (case object_get J v ''method'' of
                None \<Rightarrow> Returns (T, False)
              | Some method \<Rightarrow>
                  (case object_get J v ''error'' of
                     Some err_val \<Rightarrow>
                       if \<not> is_null J err_val \<or> \<not> is_string J method then Returns (T, False)
                       else dispatch restart V pool s (string_value J method) (Some v) (object_get J v ''params'') T
                   | None \<Rightarrow>
                       if \<not> is_string J method then Returns (T, False)
                       else dispatch restart V pool s (string_value J method) (Some v) (object_get J v ''params'') T)))"

section \<open>Answers\<close>

definition pool_set_opaque :: "nat \<Rightarrow> bool \<Rightarrow> miner \<Rightarrow> miner" where
  "pool_set_opaque pool opaque s = upd_session pool (\<lambda>e. e\<lparr>ss_opaque := opaque\<rparr>) s"

text \<open>The list of transactions of a job: their number must fit the number of branches.\<close>

definition transaction_list :: "nat \<Rightarrow> string \<Rightarrow> bool \<Rightarrow> nat \<Rightarrow> miner \<Rightarrow> miner outcome" where
  "transaction_list pool sid is_arr txs s =
     (let job = p_swork (the_pool s pool);
          clear = upd_session pool (\<lambda>e. e\<lparr>ss_tv_transparency := timer_unset (ss_tv_transparency e)\<rparr>)
      in if \<not> is_arr then Returns (pool_set_opaque pool True (clear s))
         else case sw_job_id job of
           None \<Rightarrow> Undefined
         | Some job_id \<Rightarrow>
             if drop 6 sid \<noteq> job_id then Returns s
             else if sw_merkles job \<ge> 32 then Undefined
             else let maxtx = push_bit (sw_merkles job) 1 :: u32;
                      mintx = drop_bit 1 maxtx;
                      maxtx = maxtx - 1;
                      acttx = of_nat txs
                  in if acttx < mintx \<or> acttx > maxtx then Returns s
                     else Returns (clear (pool_set_opaque pool False s)))"

definition parse_stratum_response :: "'j stratum_env \<Rightarrow> nat \<Rightarrow> string \<Rightarrow> miner \<Rightarrow> (miner \<times> bool) outcome" where
  "parse_stratum_response V pool line s =
     (let J = jans V
      in case loads J line of
           None \<Rightarrow> Returns (s, False)
         | Some v \<Rightarrow>
             (let res_val = object_get J v ''result''; err_val = object_get J v ''error''
              in case object_get J v ''id'' of
                   None \<Rightarrow> Returns (s, False)
                 | Some id_val \<Rightarrow>
                     if is_null J id_val then Returns (s, False)
                     else if \<not> is_integer J id_val then
                       (if is_string J id_val \<and> take 6 (string_value J id_val) = ''txlist''
                        then and_then (transaction_list pool (string_value J id_val) (json_is (is_array J) res_val)
                               (case res_val of None \<Rightarrow> 0 | Some r \<Rightarrow> array_size J r) s) (\<lambda>s. Returns (s, True))
                        else Returns (s, False))
                     else Returns (stratum_share_response (base_env V) (json_api.truncate J) pool (int_of_long (integer_value J id_val))
                            res_val err_val s)))"

end
