(* ===== verification/StratumSession.thy ===== *)
theory StratumSession
  imports StratumMsgs
begin

text \<open>
  The connection to a stratum pool (\<^verbatim>\<open>initiate_stratum\<close>, \<^verbatim>\<open>auth_stratum\<close>, \<^verbatim>\<open>restart_stratum\<close> in \<^verbatim>\<open>util.c\<close>) and the thread that
  reads from it (\<^verbatim>\<open>stratum_thread\<close> in \<^verbatim>\<open>miner.c\<close>). curl and the socket decide whether a connection comes up.
  \<^verbatim>\<open>pool_test_lock\<close> is not recursive: taking it a second time waits for ever.
\<close>

section \<open>Authorisation\<close>

text \<open>The next line of the connection, as \<^verbatim>\<open>recv_line\<close> gives it.\<close>

definition take_line :: "nat \<Rightarrow> stratum_io \<Rightarrow> stratum_io \<times> string option" where
  "take_line pool T =
     (let T' = T\<lparr>recvs := tl (recvs T)\<rparr>
      in case (if recvs T = [] then No_line False else hd (recvs T)) of
           Line s \<Rightarrow> (T', Some s)
         | No_line suspended \<Rightarrow> (if suspended then upd_mnr (suspend_stratum pool) T' else T', None))"

text \<open>The pool's lock is held: a \<^verbatim>\<open>client.reconnect\<close> that is followed waits for it.\<close>

definition parse_method_locked :: "'j stratum_env \<Rightarrow> nat \<Rightarrow> string \<Rightarrow> stratum_io \<Rightarrow> (stratum_io \<times> bool) outcome" where
  "parse_method_locked = parse_method_with (\<lambda>_ _. Deadlocks)"

text \<open>The lines up to the answer; \<open>n\<close> bounds their number.\<close>

fun await_auth :: "nat \<Rightarrow> 'j stratum_env \<Rightarrow> nat \<Rightarrow> stratum_io \<Rightarrow> (stratum_io \<times> 'j option) outcome" where
  "await_auth 0 V pool T = Returns (T, None)"
| "await_auth (Suc n) V pool T =
     (let (T, sret) = take_line pool T
      in case sret of
           None \<Rightarrow> Returns (T, None)
         | Some s \<Rightarrow> and_then (parse_method_locked V pool s T) (\<lambda>(T, known).
             if known then await_auth n V pool T
             else let val = loads (jans V) s;
                      j_id = jobject_get (jans V) val ''id''
                  in if json_is (\<lambda>j. is_string (jans V) j \<and> string_value (jans V) j = ''auth'') j_id then Returns (T, val)
                     else await_auth n V pool T))"

definition auth_failed :: "'j jansson \<Rightarrow> 'j option \<Rightarrow> bool" where
  "auth_failed J val =
     (let res_val = jobject_get J val ''result''; err_val = jobject_get J val ''error''
      in res_val = None \<or> json_is (is_false J) res_val \<or> json_is (\<lambda>e. \<not> is_null J e) err_val)"

definition suggest_difficulty :: "'j stratum_env \<Rightarrow> nat \<Rightarrow> stratum_io \<Rightarrow> stratum_io outcome" where
  "suggest_difficulty V pool T =
     (let url = p_rpc_url (the_pool (mnr T) pool)
      in if uri_get_param_bool url ''cksuggest'' False
         then (let req_bdiff = (case fst (uri_find_param False url ''cksuggest'') of
                                  ParamValue i \<Rightarrow> atoi (drop i url) mod 2 ^ 64
                                | _ \<Rightarrow> \<lfloor>request_bdiff V\<rfloor>)
               in if req_bdiff \<noteq> 0
                  then and_then (send_line RBUFSIZE False pool
                         (''{\"id\": null, \"method\": \"mining.suggest_difficulty\", \"params\": ['' @ int_text req_bdiff @ '']}'') T)
                         (\<lambda>(T, _). Returns T)
                  else Returns T)
         else Returns T)"

definition auth_stratum :: "'j stratum_env \<Rightarrow> nat \<Rightarrow> stratum_io \<Rightarrow> (stratum_io \<times> bool) outcome" where
  "auth_stratum V pool T =
     (let p = the_pool (mnr T) pool;
          out = (\<lambda>(T, ret).
            if p_stratum_notify (the_pool (mnr T) pool)
            then and_then (stratum_probe_transparency pool T) (\<lambda>T. Returns (T, ret)) else Returns (T, ret))
      in and_then (send_line RBUFSIZE False pool
             (''{\"id\": \"auth\", \"method\": \"mining.authorize\", \"params\": [\"'' @ p_rpc_user p @ ''\", \"'' @ p_rpc_pass p @ ''\"]}'') T)
           (\<lambda>(T, ok).
              if \<not> ok then out (T, False)
              else and_then (await_auth (Suc (length (recvs T))) V pool T) (\<lambda>(T, val).
                if auth_failed (jans V) val then out (T, False)
                else and_then (suggest_difficulty V pool (upd_mnr (upd_session pool (\<lambda>e. e\<lparr>ss_probed := True\<rparr>)) T))
                       (\<lambda>T. out (T, True)))))"

section \<open>Subscription\<close>

text \<open>With TLS first, and without it if it is not required.\<close>

definition curl_connect :: "bool \<Rightarrow> bool \<Rightarrow> connect_ret list \<Rightarrow> connect_ret list \<times> bool" where
  "curl_connect try_tls tls_only rets =
     (let ret = (\<lambda>rets. if rets = [] then NOT_CONNECTED else hd rets)
      in if ret rets = NOT_CONNECTED \<and> try_tls \<and> \<not> tls_only then (tl (tl rets), ret (tl rets) = CONNECTED)
         else (tl rets, ret rets = CONNECTED))"

definition setup_stratum_curl :: "nat \<Rightarrow> stratum_io \<Rightarrow> stratum_io \<times> bool" where
  "setup_stratum_curl pool T =
     (let url = p_rpc_url (the_pool (mnr T) pool);
          tlsca = uri_get_param_bool url ''tlsca'' False;
          (try_tls, tls_only) = (case uri_get_param_bool2 url ''tls'' of
             BTS_TRUE \<Rightarrow> (True, True)
           | BTS_FALSE \<Rightarrow> (False, False)
           | BTS_UNKNOWN \<Rightarrow> (True, tlsca));
          s = upd_pool pool (\<lambda>p. p\<lparr>p_stratum_active := False, p_stratum_notify := False\<rparr>) (mnr T);
          s = upd_session pool (\<lambda>e. e\<lparr>ss_tv_transparency := timer_unset (ss_tv_transparency e), ss_transparency_probed := False\<rparr>) s;
          (rets, ok) = curl_connect try_tls tls_only (connects T)
      in (T\<lparr>mnr := s, connects := rets\<rparr>, ok))"

fun get_sessionid_from :: "'j jansson \<Rightarrow> 'j option list \<Rightarrow> string option" where
  "get_sessionid_from J [] = None"
| "get_sessionid_from J (arr # arrs) =
     (if \<not> json_is (is_array J) arr then None
      else case json_array_string J arr 0 of
             None \<Rightarrow> get_sessionid_from J arrs
           | Some notify \<Rightarrow>
               if strncaseeq notify ''mining.notify'' 13 then json_array_string J arr 1 else get_sessionid_from J arrs)"

definition get_sessionid :: "'j jansson \<Rightarrow> 'j option \<Rightarrow> string option" where
  "get_sessionid J val =
     (let arr_val = jarray_get J val 0
      in if \<not> json_is (is_array J) arr_val then None
         else get_sessionid_from J (map (jarray_get J arr_val) [0..<array_size J (the arr_val)]))"

text \<open>The answer to the subscription: session id, first extranonce and the size of the second one.\<close>

definition read_subscription :: "'j jansson \<Rightarrow> string \<Rightarrow> (string option \<times> string \<times> int) option" where
  "read_subscription J s =
     (let val = loads J s;
          res_val = jobject_get J val ''result''; err_val = jobject_get J val ''error''
      in if val = None \<or> res_val = None \<or> json_is (is_null J) res_val \<or> json_is (\<lambda>e. \<not> is_null J e) err_val then None
         else case json_array_string J res_val 1 of
                None \<Rightarrow> None
              | Some nonce1 \<Rightarrow>
                  let n2size = (case jarray_get J res_val 2 of None \<Rightarrow> 0 | Some j \<Rightarrow> int_of_long (integer_value J j))
                  in if n2size < 1 then None else Some (get_sessionid J res_val, nonce1, n2size))"

definition send_capabilities :: "'j stratum_env \<Rightarrow> nat \<Rightarrow> stratum_io \<Rightarrow> stratum_io outcome" where
  "send_capabilities V pool T =
     (if uri_get_param_bool (p_rpc_url (the_pool (mnr T) pool)) ''goalreset'' False
      then (let names = map snd (mining_algorithms V);
                n = length names;
                malgos = concat (map (\<lambda>i. ''\"'' @ names ! i @ ''\":{}'' @ (if i + 1 < n then '','' else ''}'')) [0..<n]);
                suggested = (case request_target_str V of None \<Rightarrow> [] | Some t \<Rightarrow> '',\"suggested_target\":\"'' @ t @ ''\"'')
            in and_then (send_line RBUFSIZE True pool (take (RBUFSIZE - 1)
                 (''{\"id\":null,\"method\":\"mining.capabilities\",\"params\":[{\"notify\":[],\"set_difficulty\":{},\"set_goal\":[],\"malgo\":{'' @
                  malgos @ suggested @ ''}]}'')) T) (\<lambda>(T, _). Returns T))
      else Returns T)"

definition subscribe_text :: "'j stratum_env \<Rightarrow> bool \<Rightarrow> string option \<Rightarrow> int \<Rightarrow> string" where
  "subscribe_text V noresume sessionid sid =
     ''{\"id\": '' @ int_text sid @ '', \"method\": \"mining.subscribe\", \"params\": ['' @
     (if noresume then []
      else ''\"'' @ slash_ver V @ ''\"'' @ (case sessionid of None \<Rightarrow> [] | Some t \<Rightarrow> '', \"'' @ t @ ''\"'')) @ '']}''"

definition subscribe_line :: "'j stratum_env \<Rightarrow> nat \<Rightarrow> stratum_io \<Rightarrow> stratum_io \<times> bool" where
  "subscribe_line V pool T =
     (let (T, sret) = take_line pool T
      in case (case sret of None \<Rightarrow> None | Some s \<Rightarrow> read_subscription (jans V) s) of
           None \<Rightarrow> (T, False)
         | Some (sessionid, nonce1, n2size) \<Rightarrow>
             (upd_mnr (upd_session pool (\<lambda>e. e\<lparr>ss_sessionid := sessionid, ss_next_nonce1 := Some nonce1, ss_next_n2size := n2size\<rparr>)) T, True))"

text \<open>The request and its answer. The results are the connection, \<^verbatim>\<open>ret\<close> and \<^verbatim>\<open>recvd\<close>.\<close>

definition subscribe :: "'j stratum_env \<Rightarrow> nat \<Rightarrow> bool \<Rightarrow> bool \<Rightarrow> stratum_io \<Rightarrow> (stratum_io \<times> bool \<times> bool) outcome" where
  "subscribe V pool noresume recvd T =
     (let sid = swork_id (mnr T);
          request = subscribe_text V noresume (ss_sessionid (p_session (the_pool (mnr T) pool))) sid;
          T = upd_mnr (\<lambda>s. s\<lparr>swork_id := sid + 1\<rparr>) T
      in and_then (send_line RBUFSIZE True pool request T) (\<lambda>(T, ok).
           if \<not> ok then Returns (T, False, recvd)
           else let (T, ret) = subscribe_line V pool T in Returns (T, ret, True)))"

text \<open>
  One attempt, up to \<^verbatim>\<open>out\<close>. The results are the connection, \<^verbatim>\<open>ret\<close>, \<^verbatim>\<open>recvd\<close> and \<^verbatim>\<open>sockd\<close>.
\<close>

definition initiate_attempt ::
  "'j stratum_env \<Rightarrow> nat \<Rightarrow> bool \<Rightarrow> bool \<Rightarrow> bool \<Rightarrow> stratum_io \<Rightarrow> (stratum_io \<times> bool \<times> bool \<times> bool) outcome"
where
  "initiate_attempt V pool trysuggest noresume recvd T =
     (let (T, ok) = setup_stratum_curl pool T
      in if \<not> ok then Returns (T, False, recvd, False)
         else and_then
           (if trysuggest then send_line RBUFSIZE True pool
              (''{\"id\": null, \"method\": \"mining.suggest_target\", \"params\": [\"'' @ str_text (request_target_str V) @ ''\"]}'') T
            else Returns (T, True))
           (\<lambda>(T, ok).
              if \<not> ok then Returns (T, False, recvd, True)
              else let recvd = (trysuggest \<or> recvd)
                   in and_then (send_capabilities V pool T) (\<lambda>T.
                     and_then (subscribe V pool noresume recvd T) (\<lambda>(T, ret, recvd). Returns (T, ret, recvd, True)))))"

definition subscribed :: "'j stratum_env \<Rightarrow> nat \<Rightarrow> stratum_io \<Rightarrow> stratum_io outcome" where
  "subscribed V pool T =
     (let T = upd_mnr (upd_pool pool (\<lambda>p. p\<lparr>p_stratum_url := (if p_stratum_url p = [] then p_sockaddr_url p else p_stratum_url p),
                p_stratum_active := True, p_next_target := set_target_to_pdiff (base_env V) 1\<rparr>)) T
      in if uri_get_param_bool (p_rpc_url (the_pool (mnr T) pool)) ''xnsub'' False
         then and_then (send_line RBUFSIZE True pool ''{\"id\": \"xnsub\", \"method\": \"mining.extranonce.subscribe\", \"params\": []}'' T)
                (\<lambda>(T, _). Returns T)
         else Returns T)"

text \<open>First without the suggested target, then without resuming the session: three attempts at most.\<close>

function initiate_from :: "'j stratum_env \<Rightarrow> nat \<Rightarrow> bool \<Rightarrow> bool \<Rightarrow> bool \<Rightarrow> stratum_io \<Rightarrow> (stratum_io \<times> bool) outcome" where
  "initiate_from V pool trysuggest noresume recvd T =
     and_then (initiate_attempt V pool trysuggest noresume recvd T) (\<lambda>(T, ret, recvd, sockd).
       if ret then and_then (subscribed V pool T) (\<lambda>T. Returns (T, True))
       else if recvd \<and> trysuggest then initiate_from V pool False noresume recvd T
       else if recvd \<and> \<not> noresume then initiate_from V pool trysuggest True recvd T
       else Returns (if sockd then upd_mnr (suspend_stratum pool) T else T, False))"
  by pat_completeness auto
termination
  by (relation "measure (\<lambda>(_, _, trysuggest, noresume, _, _). of_bool trysuggest + of_bool (\<not> noresume))") auto

definition initiate_stratum :: "'j stratum_env \<Rightarrow> nat \<Rightarrow> stratum_io \<Rightarrow> (stratum_io \<times> bool) outcome" where
  "initiate_stratum V pool T =
     initiate_from V pool
       (request_target_str V \<noteq> None \<and> \<not> uri_get_param_bool (p_rpc_url (the_pool (mnr T) pool)) ''cksuggest'' False) False False T"

section \<open>Reconnecting\<close>

definition restart_stratum :: "'j stratum_env \<Rightarrow> nat \<Rightarrow> stratum_io \<Rightarrow> (stratum_io \<times> bool) outcome" where
  "restart_stratum V pool T =
     (let T = (if p_stratum_active (the_pool (mnr T) pool) then upd_mnr (suspend_stratum pool) T else T)
      in and_then (initiate_stratum V pool T) (\<lambda>(T, ok).
           if \<not> ok then Returns (T, False) else auth_stratum V pool T))"

definition parse_method :: "'j stratum_env \<Rightarrow> nat \<Rightarrow> string \<Rightarrow> stratum_io \<Rightarrow> (stratum_io \<times> bool) outcome" where
  "parse_method V = parse_method_with (restart_stratum V) V"

end
