(* ===== verification/StratumFacts.thy ===== *)
theory StratumFacts
  imports StratumSession
begin

text \<open>
  What messages do to the job of a pool: its buffers always have their sizes, and work made after
  \<^verbatim>\<open>mining.notify\<close> is made of what the message says.
\<close>

section \<open>What holds after an outcome\<close>

fun after :: "('a \<Rightarrow> bool) \<Rightarrow> 'a outcome \<Rightarrow> bool" where
  "after P (Returns x) \<longleftrightarrow> P x"
| "after P Undefined \<longleftrightarrow> True"
| "after P Deadlocks \<longleftrightarrow> True"

lemma after_and_then: "after Q m \<Longrightarrow> (\<And>x. Q x \<Longrightarrow> after P (f x)) \<Longrightarrow> after P (and_then m f)"
  by (cases m) auto

lemma after_mono: "after Q m \<Longrightarrow> (\<And>x. Q x \<Longrightarrow> P x) \<Longrightarrow> after P m"
  by (cases m) auto

section \<open>The shape of a job\<close>

definition job_ok :: "pool \<Rightarrow> bool" where
  "job_ok p \<longleftrightarrow>
     (let j = p_swork p
      in length (sw_header1 j) = 36 \<and> length (sw_diffbits j) = 4 \<and> length (sw_target j) = 32 \<and> length (p_next_target p) = 32 \<and>
         bytes_inv (sw_coinbase j) \<and> sw_nonce2_offset j + sw_n2size j \<le> bsz (sw_coinbase j) \<and>
         bytes_inv (sw_merkle_bin j) \<and> 32 * sw_merkles j \<le> bsz (sw_merkle_bin j) \<and> nonce2_ok p)"

definition jobs_ok :: "miner \<Rightarrow> bool" where
  "jobs_ok s \<longleftrightarrow> (\<forall>a. job_ok (the_pool s a))"

text \<open>All of a pool the shape depends on.\<close>

definition job_view :: "pool \<Rightarrow> stratum_work \<times> nat \<times> u64 \<times> bytes" where
  "job_view p = (p_swork p, p_nonce2sz p, p_nonce2 p, p_next_target p)"

lemma job_ok_view: "job_view p = job_view q \<Longrightarrow> job_ok p \<longleftrightarrow> job_ok q"
  by (simp add: job_view_def job_ok_def Let_def nonce2_ok_def)

definition jobs :: "miner \<Rightarrow> nat \<Rightarrow> stratum_work \<times> nat \<times> u64 \<times> bytes" where
  "jobs s = (\<lambda>a. job_view (the_pool s a))"

lemma jobs_ok_same: "jobs t = jobs s \<Longrightarrow> jobs_ok t \<longleftrightarrow> jobs_ok s"
  unfolding jobs_def jobs_ok_def fun_eq_iff using job_ok_view by blast

named_theorems job_simps

lemma jobs_pstore: "pstore t = pstore s \<Longrightarrow> jobs t = jobs s"
  by (simp add: jobs_def)

lemma jobs_upd_pool: "(\<And>p. job_view (f p) = job_view p) \<Longrightarrow> jobs (upd_pool a f s) = jobs s"
  by (simp add: jobs_def fun_eq_iff)

lemma jobs_upd_fields [job_simps]:
  "jobs (upd_pool a (\<lambda>p. p\<lparr>p_enabled := x\<rparr>) s) = jobs s" "jobs (upd_pool a (\<lambda>p. p\<lparr>p_lagging := b\<rparr>) s) = jobs s"
  "jobs (upd_pool a (\<lambda>p. p\<lparr>p_block_id := n\<rparr>) s) = jobs s" "jobs (upd_pool a (\<lambda>p. p\<lparr>p_prio := i p\<rparr>) s) = jobs s"
  "jobs (upd_pool a (\<lambda>p. p\<lparr>p_stratum_notify := b\<rparr>) s) = jobs s" "jobs (upd_pool a (\<lambda>p. p\<lparr>p_submit_old := b\<rparr>) s) = jobs s"
  "jobs (upd_pool a (\<lambda>p. p\<lparr>p_stratum_active := b, p_stratum_notify := c\<rparr>) s) = jobs s"
  "jobs (upd_pool a (\<lambda>p. p\<lparr>p_sockaddr_url := u, p_stratum_port := v, p_stratum_url := w\<rparr>) s) = jobs s"
  "jobs (upd_session a g s) = jobs s" "jobs (suspend_stratum a s) = jobs s" "jobs (stratum_send ret a s) = jobs s"
  unfolding upd_session_def suspend_stratum_def stratum_send_def
  by (simp_all add: jobs_upd_pool job_view_def)

lemma jobs_fields [job_simps]:
  "jobs (s\<lparr>enabled_pools := n\<rparr>) = jobs s" "jobs (s\<lparr>currentpool := c\<rparr>) = jobs s" "jobs (s\<lparr>total_getworks := g\<rparr>) = jobs s"
  "jobs (s\<lparr>swork_id := i\<rparr>) = jobs s" "jobs (mining_goal_reset a s) = jobs s" "jobs (goal_set_malgo a m s) = jobs s"
  "jobs (tmpl_decref t s) = jobs s" "jobs (clear_pool_work a s) = jobs s"
  by (rule jobs_pstore, simp add: mining_goal_reset_def goal_set_malgo_def tmpl_decref_def Let_def upd_algo_def upd_goal_def)+

lemma jobs_fold: "(\<And>x s. jobs (f x s) = jobs s) \<Longrightarrow> jobs (fold f xs s) = jobs s"
  by (induction xs arbitrary: s) simp_all

lemma jobs_make_first [job_simps]: "jobs (make_first a s) = jobs s"
  unfolding make_first_def raise_below_def
  by (auto intro!: jobs_fold simp: job_simps)

lemma jobs_switch [job_simps]: "jobs (switch_pools_enabled sel s) = jobs s"
  by (simp add: switch_pools_enabled_def Let_def job_simps split: option.split)

lemma jobs_enable [job_simps]: "jobs (enable_pool a s) = jobs s" "jobs (disable_pool a x s) = jobs s"
  by (simp_all add: enable_pool_def disable_pool_def switch_pools_def Let_def job_simps)

lemma jobs_check [job_simps]: "jobs (pool_check_coinbase E F o' a cb s) = jobs s"
  by (simp add: pool_check_coinbase_def Let_def job_simps)

section \<open>A new job\<close>

lemma length_write_hex: "off + len \<le> length buf \<Longrightarrow> length (write_hex buf off s len) = length buf"
  unfolding write_hex_def using hex2bin_writes_at_most [of s len] by (intro length_mem_write) simp

text \<open>What \<^verbatim>\<open>parse_notify\<close> makes of a pool before the coinbase is checked.\<close>

definition notified :: "env \<Rightarrow> notification \<Rightarrow> timeval \<Rightarrow> string \<Rightarrow> nat \<Rightarrow> nat \<Rightarrow> stratum_work \<Rightarrow> stratum_work" where
  "notified E n t nonce1 n1_len n2size j =
     job_merkles E n (job_coinbase E n nonce1 n1_len (job_header n
       (j\<lparr>sw_tv_received := t, sw_job_id := Some (nt_job_id n), sw_tr := None, sw_clean := True, sw_nonce1 := Some nonce1, sw_n2size := n2size\<rparr>)))"

lemma adopt_announced_pool:
  assumes "p = the_pool s pool" "t = adopt_announced pool s"
  shows "the_pool t pool = (the_pool t pool)\<lparr>p_swork := (p_swork p)\<lparr>sw_nonce1 := (case ss_next_nonce1 (p_session p) of None \<Rightarrow> sw_nonce1 (p_swork p) | Some x \<Rightarrow> Some x),
      sw_n2size := nat (ss_next_n2size (p_session p))\<rparr>, p_nonce2sz := min 8 (nat (ss_next_n2size (p_session p))),
      p_next_target := p_next_target p\<rparr>" (is ?p)
    "ss_n1_len (p_session (the_pool t pool)) = (case ss_next_nonce1 (p_session p) of None \<Rightarrow> ss_n1_len (p_session p) | Some x \<Rightarrow> length x div 2)" (is ?l)
    "now t = now s" "a \<noteq> pool \<Longrightarrow> the_pool t a = the_pool s a"
proof -
  define u where "u = (case ss_next_goalname (p_session p) of None \<Rightarrow> s
    | Some goalname \<Rightarrow> mining_goal_reset (p_goal p) (upd_session pool (\<lambda>e. e\<lparr>ss_goalname := goalname, ss_next_goalname := None\<rparr>) s))"
  define v where "v = (case ss_next_goal_malgo (p_session (the_pool u pool)) of None \<Rightarrow> u
    | Some malgo \<Rightarrow> upd_session pool (\<lambda>e. e\<lparr>ss_next_goal_malgo := None\<rparr>) (goal_set_malgo (p_goal p) malgo u))"
  define w where "w = (case ss_next_nonce1 (p_session (the_pool v pool)) of None \<Rightarrow> v
    | Some nonce1 \<Rightarrow> upd_swork pool (\<lambda>j. j\<lparr>sw_nonce1 := Some nonce1\<rparr>)
        (upd_session pool (\<lambda>e. e\<lparr>ss_n1_len := length nonce1 div 2, ss_next_nonce1 := None\<rparr>) v))"
  define n2size where "n2size = nat (ss_next_n2size (p_session (the_pool w pool)))"
  have t: "t = upd_pool pool (\<lambda>p. p\<lparr>p_nonce2sz := (if n2size > 8 then 8 else n2size)\<rparr>) (upd_swork pool (\<lambda>j. j\<lparr>sw_n2size := n2size\<rparr>) w)"
    unfolding assms(2) adopt_announced_def Let_def assms(1) [symmetric] u_def [symmetric] v_def [symmetric] w_def [symmetric] n2size_def by (rule refl)
  have U: "p_swork (the_pool u pool) = p_swork p" "ss_next_nonce1 (p_session (the_pool u pool)) = ss_next_nonce1 (p_session p)"
    "ss_n1_len (p_session (the_pool u pool)) = ss_n1_len (p_session p)" "ss_next_n2size (p_session (the_pool u pool)) = ss_next_n2size (p_session p)"
    "p_next_target (the_pool u pool) = p_next_target p" "now u = now s" "b \<noteq> pool \<Longrightarrow> the_pool u b = the_pool s b" for b
    by (auto simp: u_def mining_goal_reset_def upd_session_def upd_goal_def assms(1) split: option.split)
  have V: "p_swork (the_pool v pool) = p_swork p" "ss_next_nonce1 (p_session (the_pool v pool)) = ss_next_nonce1 (p_session p)"
    "ss_n1_len (p_session (the_pool v pool)) = ss_n1_len (p_session p)" "ss_next_n2size (p_session (the_pool v pool)) = ss_next_n2size (p_session p)"
    "p_next_target (the_pool v pool) = p_next_target p" "now v = now s" "b \<noteq> pool \<Longrightarrow> the_pool v b = the_pool s b" for b
    using U by (auto simp: v_def goal_set_malgo_def Let_def upd_session_def upd_goal_def upd_algo_def split: option.split)
  have W: "p_swork (the_pool w pool) = (p_swork p)\<lparr>sw_nonce1 := (case ss_next_nonce1 (p_session p) of None \<Rightarrow> sw_nonce1 (p_swork p) | Some x \<Rightarrow> Some x)\<rparr>"
    "ss_n1_len (p_session (the_pool w pool)) = (case ss_next_nonce1 (p_session p) of None \<Rightarrow> ss_n1_len (p_session p) | Some x \<Rightarrow> length x div 2)"
    "ss_next_n2size (p_session (the_pool w pool)) = ss_next_n2size (p_session p)"
    "p_next_target (the_pool w pool) = p_next_target p" "now w = now s" "b \<noteq> pool \<Longrightarrow> the_pool w b = the_pool s b" for b
    using V by (auto simp: w_def upd_swork_def upd_session_def split: option.split)
  show ?p ?l "now t = now s" "a \<noteq> pool \<Longrightarrow> the_pool t a = the_pool s a"
    using W by (simp_all add: t upd_swork_def n2size_def)
qed

lemma notify_job_result:
  assumes "notify_job V pool n s = Returns t" "p = the_pool s pool"
  shows "jobs t = (jobs s)(pool := ((notified (base_env V) n (now s)
      (case ss_next_nonce1 (p_session p) of None \<Rightarrow> the (sw_nonce1 (p_swork p)) | Some x \<Rightarrow> x)
      (case ss_next_nonce1 (p_session p) of None \<Rightarrow> ss_n1_len (p_session p) | Some x \<Rightarrow> length x div 2)
      (nat (ss_next_n2size (p_session p))) (p_swork p))\<lparr>sw_target := p_next_target p\<rparr>,
    min 8 (nat (ss_next_n2size (p_session p))), 0, p_next_target p))"
proof -
  define a where "a = upd_swork pool (\<lambda>j. j\<lparr>sw_tv_received := now s, sw_job_id := Some (nt_job_id n)\<rparr>) s"
  define b where "b = (case sw_tr (p_swork (the_pool a pool)) of None \<Rightarrow> a | Some t \<Rightarrow> upd_swork pool (\<lambda>j. j\<lparr>sw_tr := None\<rparr>) (tmpl_decref t a))"
  define c where "c = upd_swork pool (\<lambda>j. j\<lparr>sw_clean := True\<rparr>) (upd_pool pool (\<lambda>p. p\<lparr>p_submit_old := \<not> nt_clean n\<rparr>) b)"
  define d where "d = adopt_announced pool c"
  have c: "p_swork (the_pool c pool) = (p_swork p)\<lparr>sw_tv_received := now s, sw_job_id := Some (nt_job_id n), sw_tr := None, sw_clean := True\<rparr>"
    "p_session (the_pool c pool) = p_session p" "p_next_target (the_pool c pool) = p_next_target p" "now c = now s"
    "x \<noteq> pool \<Longrightarrow> the_pool c x = the_pool s x" for x
    by (auto simp: c_def b_def a_def upd_swork_def tmpl_decref_def assms(2) split: option.split)
  note D = adopt_announced_pool [OF refl d_def, unfolded c(1,2,3)]
  obtain nonce1 where n1: "sw_nonce1 (p_swork (the_pool d pool)) = Some nonce1"
    and t: "jobs t = jobs (upd_pool pool (\<lambda>p. p\<lparr>p_nonce2 := 0, p_swork := (p_swork p)\<lparr>sw_target := p_next_target p\<rparr>\<rparr>)
      (upd_swork pool (\<lambda>j. job_merkles (base_env V) n (job_coinbase (base_env V) n nonce1 (ss_n1_len (p_session (the_pool d pool))) (job_header n j))) d))"
    using assms(1) unfolding notify_job_def Let_def a_def [symmetric] b_def [symmetric] c_def [symmetric] d_def [symmetric]
    by (auto simp: job_simps split: option.splits)
  have sw: "p_swork (the_pool d pool) = (p_swork p)\<lparr>sw_tv_received := now s, sw_job_id := Some (nt_job_id n), sw_tr := None, sw_clean := True,
      sw_nonce1 := Some nonce1, sw_n2size := nat (ss_next_n2size (p_session p))\<rparr>"
    using n1 by (subst D(1)) (subst (asm) D(1), simp)
  have nonce1: "nonce1 = (case ss_next_nonce1 (p_session p) of None \<Rightarrow> the (sw_nonce1 (p_swork p)) | Some x \<Rightarrow> x)"
    using n1 by (subst (asm) D(1)) (auto split: option.splits)
  have o: "p_nonce2sz (the_pool d pool) = min 8 (nat (ss_next_n2size (p_session p)))" "p_next_target (the_pool d pool) = p_next_target p"
    by (subst D(1), simp)+
  show ?thesis
    unfolding t using D(4) c(5)
    by (auto simp: fun_eq_iff jobs_def job_view_def upd_swork_def notified_def sw o D(2) nonce1)
qed

lemma notified_sizes:
  fixes E :: env and n :: notification and nonce1 :: string and n1_len n2size :: nat and t :: timeval and j :: stratum_work
  assumes "length (sw_header1 j) = 36" "length (sw_diffbits j) = 4" "bytes_inv (sw_coinbase j)" "bytes_inv (sw_merkle_bin j)"
  defines "k \<equiv> notified E n t nonce1 n1_len n2size j"
  shows "length (sw_header1 k) = 36" "length (sw_diffbits k) = 4" "bytes_inv (sw_coinbase k)" "bytes_inv (sw_merkle_bin k)"
    "sw_n2size k = n2size" "sw_nonce2_offset k = length (nt_coinbase1 n) div 2 + n1_len"
    "bsz (sw_coinbase k) = length (nt_coinbase1 n) div 2 + n1_len + n2size + length (nt_coinbase2 n) div 2"
    "sw_merkles k = length (nt_merkles n)" "bsz (sw_merkle_bin k) = 32 * length (nt_merkles n)"
proof -
  note d = k_def notified_def job_merkles_def job_coinbase_def job_header_def Let_def
  show "length (sw_header1 k) = 36" "length (sw_diffbits k) = 4"
    using assms(1,2) by (simp_all add: d length_write_hex)
  show "sw_n2size k = n2size" "sw_nonce2_offset k = length (nt_coinbase1 n) div 2 + n1_len" "sw_merkles k = length (nt_merkles n)"
    by (simp_all add: d)
  show z: "bsz (sw_coinbase k) = length (nt_coinbase1 n) div 2 + n1_len + n2size + length (nt_coinbase2 n) div 2"
    "bsz (sw_merkle_bin k) = 32 * length (nt_merkles n)"
    using assms(3,4) by (simp_all add: d bytes_resize_fields)
  have inv: "bytes_inv (b\<lparr>bbuf := x\<rparr>)" if "bytes_inv b" "length x = length (bbuf b)" for b x
    using that by (simp add: bytes_inv_def)
  have r: "bytes_inv (bytes_resize junk b sz)" if "bytes_inv b" for junk b sz
  proof -
    have "bytes_inv (bytes_extend_buf junk b sz)" by (rule bytes_extend_buf_inv [OF that])
    then show ?thesis using bytes_resize_fields(2) [OF that, of sz junk] by (simp add: bytes_resize_def bytes_inv_def)
  qed
  have l: "length (write_hex (write_hex (write_hex buf 0 a b) b c m) (b + m + q) e f) = length buf" if "b + m + q + f \<le> length buf" for buf a b c m q e f
    using that by (simp add: length_write_hex)
  show "bytes_inv (sw_coinbase k)"
  proof -
    let ?z = "length (nt_coinbase1 n) div 2 + n1_len + n2size + length (nt_coinbase2 n) div 2"
    let ?c = "bytes_resize (resize_junk E) (sw_coinbase j) ?z"
    have "?z \<le> length (bbuf ?c)" by (rule bytes_resize_fields [OF assms(3)])
    from inv [OF r [OF assms(3)] l [OF this]] show ?thesis by (simp add: d)
  qed
  show "bytes_inv (sw_merkle_bin k)"
  proof -
    let ?z = "32 * length (nt_merkles n)"
    let ?c = "bytes_resize (resize_junk E) (sw_merkle_bin j) ?z"
    have "length (fold (\<lambda>i buf. write_hex buf (i * 32) (nt_merkles n ! i) 32) is buf) = length buf"
      if "\<forall>i\<in>set is. i < length (nt_merkles n)" "?z \<le> length buf" for "is" buf
      using that
    proof (induction "is" arbitrary: buf)
      case (Cons i "is")
      then have "i * 32 + 32 \<le> length buf" by auto
      then show ?case using Cons by (simp add: length_write_hex)
    qed simp
    moreover have "?z \<le> length (bbuf ?c)" by (rule bytes_resize_fields [OF assms(4)])
    ultimately show ?thesis by (simp add: d inv r assms(4))
  qed
qed

lemma notify_job_ok: "jobs_ok s \<Longrightarrow> after jobs_ok (notify_job V pool n s)"
proof (cases "notify_job V pool n s")
  case (Returns t)
  assume ok: "jobs_ok s"
  note J = notify_job_result [OF Returns refl]
  have "job_ok (the_pool t a)" for a
  proof (cases "a = pool")
    case False
    then have "job_view (the_pool t a) = job_view (the_pool s a)" using fun_cong [OF J, of a] by (simp add: jobs_def)
    from job_ok_view [OF this] show ?thesis using ok by (simp add: jobs_ok_def)
  next
    case True
    define p where "p = the_pool s pool"
    have pok: "job_ok p" using ok by (simp add: jobs_ok_def p_def)
    then have sz: "length (sw_header1 (p_swork p)) = 36" "length (sw_diffbits (p_swork p)) = 4" "bytes_inv (sw_coinbase (p_swork p))"
      "bytes_inv (sw_merkle_bin (p_swork p))" "length (p_next_target p) = 32" by (simp_all add: job_ok_def Let_def)
    define n1 where "n1 = (case ss_next_nonce1 (p_session p) of None \<Rightarrow> the (sw_nonce1 (p_swork p)) | Some x \<Rightarrow> x)"
    define l1 where "l1 = (case ss_next_nonce1 (p_session p) of None \<Rightarrow> ss_n1_len (p_session p) | Some x \<Rightarrow> length x div 2)"
    define m where "m = nat (ss_next_n2size (p_session p))"
    define k where "k = notified (base_env V) n (now s) n1 l1 m (p_swork p)"
    have "job_view (the_pool t pool) = (k\<lparr>sw_target := p_next_target p\<rparr>, min 8 m, 0, p_next_target p)"
      using fun_cong [OF J, of pool] by (simp only: jobs_def fun_upd_same k_def n1_def l1_def m_def p_def)
    then have v: "p_swork (the_pool t pool) = k\<lparr>sw_target := p_next_target p\<rparr>" "p_nonce2sz (the_pool t pool) = min 8 m"
      "p_next_target (the_pool t pool) = p_next_target p" by (simp_all only: job_view_def prod.inject)
    note K = notified_sizes [OF sz(1-4), of "base_env V" n "now s" n1 l1 m, folded k_def]
    show ?thesis unfolding True job_ok_def Let_def nonce2_ok_def v using K sz(5) by simp
  qed
  then show ?thesis by (simp add: Returns jobs_ok_def)
qed simp_all

section \<open>Every message keeps the shape\<close>

definition keeps :: "(stratum_io \<Rightarrow> (stratum_io \<times> 'a) outcome) \<Rightarrow> bool" where
  "keeps h \<longleftrightarrow> (\<forall>T. jobs_ok (mnr T) \<longrightarrow> after (\<lambda>(T', _). jobs_ok (mnr T')) (h T))"

definition keeps1 :: "(stratum_io \<Rightarrow> stratum_io outcome) \<Rightarrow> bool" where
  "keeps1 h \<longleftrightarrow> (\<forall>T. jobs_ok (mnr T) \<longrightarrow> after (\<lambda>T'. jobs_ok (mnr T')) (h T))"

named_theorems keeps_intros

lemma keepsD: "keeps h \<Longrightarrow> jobs_ok (mnr T) \<Longrightarrow> after (\<lambda>(T', _). jobs_ok (mnr T')) (h T)"
  by (simp add: keeps_def)

lemma keeps1D: "keeps1 h \<Longrightarrow> jobs_ok (mnr T) \<Longrightarrow> after (\<lambda>T'. jobs_ok (mnr T')) (h T)"
  by (simp add: keeps1_def)

lemma after_then:
  assumes "after (\<lambda>(T, _). jobs_ok (mnr T)) m" "\<And>T x. jobs_ok (mnr T) \<Longrightarrow> after P (f (T, x))"
  shows "after P (and_then m f)"
  using assms(1) by (rule after_and_then) (use assms(2) in auto)

lemma after_if: "after P a \<Longrightarrow> after P b \<Longrightarrow> after P (if c then a else b)"
  by simp

lemma after_option: "(\<And>x. after P (f x)) \<Longrightarrow> after P (case o' of None \<Rightarrow> Undefined | Some x \<Rightarrow> f x)"
  by (cases o') simp_all

lemma jobs_ok_upd [job_simps]: "jobs (f s) = jobs s \<Longrightarrow> jobs_ok (f s) = jobs_ok s"
  by (rule jobs_ok_same)

lemma keeps_send_line [keeps_intros]: "keeps (send_line n force pool msg)"
  unfolding keeps_def send_line_def Let_def
  by (auto simp: jobs_ok_same [OF jobs_upd_fields(11)])

lemma keeps_probe [keeps_intros]: "keeps1 (stratum_probe_transparency pool)"
  unfolding keeps1_def stratum_probe_transparency_def Let_def
  by (auto intro!: after_then [OF keepsD [OF keeps_send_line]] simp: jobs_ok_same [OF jobs_upd_fields(9)])

lemma keeps_notify [keeps_intros]: "keeps (parse_notify V pool val)"
  unfolding keeps_def
proof (intro allI impI)
  fix T :: stratum_io assume ok: "jobs_ok (mnr T)"
  show "after (\<lambda>(T', _). jobs_ok (mnr T')) (parse_notify V pool val T)"
  proof (cases "read_notify (jans V) val")
    case (Some n)
    have "after (\<lambda>(T', _). jobs_ok (mnr T')) (and_then (stratum_probe_transparency pool U) (\<lambda>T. Returns (T, True)))"
      if "jobs_ok (mnr U)" for U
      by (rule after_and_then [OF keeps1D [OF keeps_probe that]]) simp
    moreover have "jobs_ok ((upd_session pool f s)\<lparr>total_getworks := m\<rparr>) = jobs_ok s" for f m s
      by (rule jobs_ok_same) (simp add: job_simps)
    ultimately show ?thesis
      unfolding parse_notify_def Some option.case Let_def
      by (intro after_and_then [OF notify_job_ok [OF ok]]) auto
  qed (simp add: parse_notify_def ok)
qed

lemma length_set_target: "length (set_target_to_pdiff E d) = 32"
  by (simp add: set_target_to_pdiff_def Let_def len_simps)

lemma jobs_ok_next_target:
  "jobs_ok s \<Longrightarrow> length x = 32 \<Longrightarrow> (\<And>p. job_view (f p) = job_view (p\<lparr>p_next_target := x\<rparr>)) \<Longrightarrow> jobs_ok (upd_pool pool f s)"
proof -
  assume ok: "jobs_ok s" "length x = 32" and f: "\<And>p. job_view (f p) = job_view (p\<lparr>p_next_target := x\<rparr>)"
  have "job_ok (p\<lparr>p_next_target := x\<rparr>)" if "job_ok p" for p
    using that ok(2) by (simp add: job_ok_def Let_def nonce2_ok_def)
  then have "job_ok (f p)" if "job_ok p" for p using job_ok_view [OF f] that by blast
  then show "jobs_ok (upd_pool pool f s)" using ok(1) by (simp add: jobs_ok_def)
qed

lemma parse_diff_ok: "jobs_ok s \<Longrightarrow> jobs_ok (fst (parse_diff V pool val e s))"
proof -
  assume ok: "jobs_ok s"
  have g: "fst (if c then (s, False) else (upd_pool pool (\<lambda>p. p\<lparr>p_next_target := h d\<rparr>) s, True)) = s \<or>
      (\<exists>e. fst (if c then (s, False) else (upd_pool pool (\<lambda>p. p\<lparr>p_next_target := h d\<rparr>) s, True)) = upd_pool pool (\<lambda>p. p\<lparr>p_next_target := h e\<rparr>) s)"
    for c and d :: rat and h :: "rat \<Rightarrow> bytes"
    by auto
  have "fst (parse_diff V pool val e s) = s \<or> (\<exists>d. fst (parse_diff V pool val e s) = upd_pool pool (\<lambda>p. p\<lparr>p_next_target := set_target_to_pdiff (base_env V) d\<rparr>) s)"
    unfolding parse_diff_def Let_def by (rule g)
  then consider "fst (parse_diff V pool val e s) = s"
    | d where "fst (parse_diff V pool val e s) = upd_pool pool (\<lambda>p. p\<lparr>p_next_target := set_target_to_pdiff (base_env V) d\<rparr>) s" by blast
  then show ?thesis
  proof cases
    case 1
    then show ?thesis using ok by simp
  next
    case 2
    show ?thesis unfolding 2 by (rule jobs_ok_next_target [OF ok length_set_target refl])
  qed
qed

lemma keeps_extranonce [keeps_intros]: "keeps (stratum_set_extranonce V pool val params)"
  unfolding keeps_def
proof (intro allI impI)
  fix T :: stratum_io assume ok: "jobs_ok (mnr T)"
  let ?J = "jans V"
  show "after (\<lambda>(T', _). jobs_ok (mnr T')) (stratum_set_extranonce V pool val params T)"
  proof (cases "if json_is (is_array ?J) params then read_extranonce ?J params else None")
    case None
    have "after (\<lambda>(T', _). jobs_ok (mnr T')) (and_then (send_line RBUFSIZE False pool m T) (\<lambda>(T, _). Returns (T, True)))" for m
      by (rule after_then [OF keepsD [OF keeps_send_line ok]]) simp
    then show ?thesis unfolding stratum_set_extranonce_def Let_def None option.case using ok by (auto split: option.split)
  next
    case (Some x)
    then show ?thesis unfolding stratum_set_extranonce_def Let_def Some option.case
      using ok by (cases x) (simp add: jobs_ok_same [OF jobs_upd_fields(9)])
  qed
qed

lemma keeps_goal [keeps_intros]: "keeps (stratum_set_goal V pool val params)"
  unfolding keeps_def stratum_set_goal_def Let_def
  by (auto simp: jobs_ok_same [OF jobs_upd_fields(9)] split: option.split intro!: after_then [OF keepsD [OF keeps_send_line]])

lemma keeps_reconnect [keeps_intros]: "(\<And>a. keeps (restart a)) \<Longrightarrow> keeps (parse_reconnect restart V pool val)"
proof -
  assume r: "\<And>a. keeps (restart a)"
  have u: "jobs_ok (upd_pool pool (\<lambda>p. p\<lparr>p_sockaddr_url := a, p_stratum_port := b, p_stratum_url := c\<rparr>) s) = jobs_ok s" for a b c s
    by (rule jobs_ok_same) (simp add: job_simps)
  show ?thesis
    unfolding keeps_def parse_reconnect_def Let_def
    by (auto simp: u split: option.split prod.split bool.split intro!: keepsD [OF r])
qed

lemma keeps_version [keeps_intros]: "keeps (send_version V pool val)"
  unfolding keeps_def send_version_def
  by (auto split: option.split intro!: keepsD [OF keeps_send_line])

lemma keeps_message [keeps_intros]: "keeps (stratum_show_message V pool val params)"
  unfolding keeps_def stratum_show_message_def Let_def
  by (auto split: option.split simp: jobs_ok_same [OF jobs_upd_fields(9)] intro!: keepsD [OF keeps_send_line])

lemma keeps_dispatch: "(\<And>a. keeps (restart a)) \<Longrightarrow> keeps (dispatch restart V pool s buf val params)"
proof -
  assume r: "\<And>a. keeps (restart a)"
  have n: "jobs_ok (upd_pool pool (\<lambda>p. p\<lparr>p_stratum_notify := b\<rparr>) s) = jobs_ok s" for b s
    by (rule jobs_ok_same) (simp add: job_simps)
  have d: "after (\<lambda>(T', _). jobs_ok (mnr T')) (let (m, ret) = parse_diff V pool params e (mnr T) in Returns (T\<lparr>mnr := m\<rparr>, ret))"
    if "jobs_ok (mnr T)" for e T
    using parse_diff_ok [OF that, of V pool params e] by (auto simp: Let_def split: prod.split)
  have p: "after (\<lambda>(T', _). jobs_ok (mnr T')) (and_then (parse_notify V pool params T)
      (\<lambda>(T, ret). Returns (upd_mnr (upd_pool pool (\<lambda>p. p\<lparr>p_stratum_notify := ret\<rparr>)) T, ret)))" if "jobs_ok (mnr T)" for T
    by (rule after_then [OF keepsD [OF keeps_notify that]]) (simp add: n)
  show ?thesis
    unfolding keeps_def dispatch_def
    by (intro allI impI after_if after_option p d keepsD [OF keeps_reconnect [OF r]] keepsD [OF keeps_version] keepsD [OF keeps_message]
      keepsD [OF keeps_extranonce] keepsD [OF keeps_goal]; simp)
qed

lemma keeps_method: "(\<And>a. keeps (restart a)) \<Longrightarrow> keeps (parse_method_with restart V pool s)"
  unfolding keeps_def [of "parse_method_with restart V pool s"] parse_method_with_def Let_def
  by (auto split: option.split intro!: keepsD [OF keeps_dispatch])

lemma take_line_ok: "take_line pool T = (T', s) \<Longrightarrow> jobs_ok (mnr T') = jobs_ok (mnr T)"
  unfolding take_line_def Let_def
  by (auto split: received.splits if_splits simp: jobs_ok_same [OF jobs_upd_fields(10)])

lemma keeps_locked: "keeps (parse_method_locked V pool s)"
  unfolding parse_method_locked_def by (rule keeps_method) (simp add: keeps_def)

lemma keeps_await: "keeps (await_auth n V pool)"
proof (induction n)
  case (Suc n)
  show ?case unfolding keeps_def
  proof (intro allI impI)
    fix T :: stratum_io assume ok: "jobs_ok (mnr T)"
    obtain U s where r: "take_line pool T = (U, s)" by (cases "take_line pool T")
    have U: "jobs_ok (mnr U)" using take_line_ok [OF r] ok by simp
    show "after (\<lambda>(T', _). jobs_ok (mnr T')) (await_auth (Suc n) V pool T)"
    proof (cases s)
      case (Some l)
      show ?thesis unfolding await_auth.simps r Let_def prod.case Some option.case
        by (rule after_then [OF keepsD [OF keeps_locked U]]) (auto intro: keepsD [OF Suc.IH])
    qed (simp add: r U)
  qed
qed (simp add: keeps_def)

lemma keeps_suggest: "keeps1 (suggest_difficulty V pool)"
  unfolding keeps1_def suggest_difficulty_def Let_def
  by (auto intro!: after_then [OF keepsD [OF keeps_send_line]])

lemma keeps_auth: "keeps (auth_stratum V pool)"
  unfolding keeps_def
proof (intro allI impI)
  fix T :: stratum_io assume ok: "jobs_ok (mnr T)"
  define out where "out = (\<lambda>(T, ret :: bool).
    if p_stratum_notify (the_pool (mnr T) pool)
    then and_then (stratum_probe_transparency pool T) (\<lambda>T. Returns (T, ret)) else Returns (T, ret))"
  have o: "after (\<lambda>(T', _). jobs_ok (mnr T')) (out (U, b))" if "jobs_ok (mnr U)" for U b
    using that by (auto simp: out_def intro!: after_and_then [OF keeps1D [OF keeps_probe]])
  have p: "after (\<lambda>(T', _). jobs_ok (mnr T'))
      (and_then (suggest_difficulty V pool (upd_mnr (upd_session pool (\<lambda>e. e\<lparr>ss_probed := True\<rparr>)) U)) (\<lambda>T. out (T, True)))"
    if "jobs_ok (mnr U)" for U
    by (rule after_and_then [OF keeps1D [OF keeps_suggest]]) (use that o in \<open>auto simp: jobs_ok_same [OF jobs_upd_fields(9)]\<close>)
  have w: "after (\<lambda>(T', _). jobs_ok (mnr T'))
      (and_then (await_auth n V pool U) (\<lambda>(T, val). if auth_failed (jans V) val then out (T, False)
         else and_then (suggest_difficulty V pool (upd_mnr (upd_session pool (\<lambda>e. e\<lparr>ss_probed := True\<rparr>)) T)) (\<lambda>T. out (T, True))))"
    if "jobs_ok (mnr U)" for U n
    by (rule after_then [OF keepsD [OF keeps_await that]]) (auto intro: o p)
  show "after (\<lambda>(T', _). jobs_ok (mnr T')) (auth_stratum V pool T)"
    unfolding auth_stratum_def Let_def out_def [symmetric]
    by (rule after_then [OF keepsD [OF keeps_send_line ok]]) (auto simp del: await_auth.simps intro: o w)
qed

lemma setup_ok: "setup_stratum_curl pool T = (T', b) \<Longrightarrow> jobs_ok (mnr T') = jobs_ok (mnr T)"
  unfolding setup_stratum_curl_def Let_def
  by (auto simp: jobs_ok_same [OF jobs_upd_fields(9)] jobs_ok_same [OF jobs_upd_fields(7)] split: prod.splits)

lemma keeps_capabilities: "keeps1 (send_capabilities V pool)"
  unfolding keeps1_def send_capabilities_def Let_def
  by (auto intro!: after_then [OF keepsD [OF keeps_send_line]])

lemma subscribe_line_ok: "subscribe_line V pool T = (T', b) \<Longrightarrow> jobs_ok (mnr T') = jobs_ok (mnr T)"
  unfolding subscribe_line_def Let_def
  by (cases "take_line pool T")
    (auto simp: jobs_ok_same [OF jobs_upd_fields(9)] dest: take_line_ok split: option.splits)

lemma keeps_subscribe: "keeps (subscribe V pool noresume recvd)"
  unfolding keeps_def
proof (intro allI impI)
  fix T :: stratum_io assume ok: "jobs_ok (mnr T)"
  have i: "jobs_ok (s\<lparr>swork_id := n\<rparr>) = jobs_ok s" for s n by (rule jobs_ok_same) (simp add: job_simps)
  let ?P = "\<lambda>(T', _ :: bool \<times> bool). jobs_ok (mnr T')"
  have l: "after ?P (let (T, ret) = subscribe_line V pool W in Returns (T, ret, True))" if "jobs_ok (mnr W)" for W
    using subscribe_line_ok [of V pool W] that by (auto split: prod.split)
  show "after ?P (subscribe V pool noresume recvd T)"
    unfolding subscribe_def Let_def
    by (rule after_then [OF keepsD [OF keeps_send_line]]) (use ok l in \<open>auto simp: i Let_def\<close>)
qed

lemma keeps_attempt: "keeps (initiate_attempt V pool trysuggest noresume recvd)"
  unfolding keeps_def
proof (intro allI impI)
  fix T :: stratum_io assume ok: "jobs_ok (mnr T)"
  obtain U b where s: "setup_stratum_curl pool T = (U, b)" by (cases "setup_stratum_curl pool T")
  have U: "jobs_ok (mnr U)" using setup_ok [OF s] ok by simp
  let ?P = "\<lambda>(T', _ :: bool \<times> bool \<times> bool). jobs_ok (mnr T')"
  have c: "after ?P (and_then (send_capabilities V pool W) (\<lambda>T. and_then (subscribe V pool noresume r T) (\<lambda>(T, ret, recvd). Returns (T, ret, recvd, True))))"
    if "jobs_ok (mnr W)" for W r
    by (rule after_and_then [OF keeps1D [OF keeps_capabilities that]], rule after_then [OF keepsD [OF keeps_subscribe]]) auto
  have m: "after (\<lambda>(T', _). jobs_ok (mnr T')) (if trysuggest then send_line RBUFSIZE True pool x U else Returns (U, True))" for x
    using U keepsD [OF keeps_send_line U] by simp
  show "after ?P (initiate_attempt V pool trysuggest noresume recvd T)"
    unfolding initiate_attempt_def s Let_def prod.case
    by (rule after_if, simp add: U, rule after_then [OF m], unfold prod.case, rule after_if, simp, rule c)
qed

lemma keeps1_subscribed: "keeps1 (subscribed V pool)"
  unfolding keeps1_def
proof (intro allI impI)
  fix T :: stratum_io assume ok: "jobs_ok (mnr T)"
  have u: "jobs_ok (upd_pool pool (\<lambda>p. p\<lparr>p_stratum_url := f p, p_stratum_active := True, p_next_target := set_target_to_pdiff E d\<rparr>) (mnr T))" for f E d
    by (rule jobs_ok_next_target [OF ok length_set_target]) (simp add: job_view_def)
  show "after (\<lambda>T'. jobs_ok (mnr T')) (subscribed V pool T)"
    unfolding subscribed_def Let_def
    by (rule after_if) (auto simp: u intro!: after_then [OF keepsD [OF keeps_send_line]])
qed

declare initiate_from.simps [simp del]

lemma keeps_initiate_step:
  assumes "\<And>r. trysuggest \<Longrightarrow> keeps (initiate_from V pool False noresume r)"
    "\<And>r. \<not> noresume \<Longrightarrow> keeps (initiate_from V pool trysuggest True r)"
  shows "keeps (initiate_from V pool trysuggest noresume recvd)"
  unfolding keeps_def
proof (intro allI impI)
  fix T :: stratum_io assume ok: "jobs_ok (mnr T)"
  have sub: "after (\<lambda>(T', _). jobs_ok (mnr T')) (and_then (subscribed V pool U) (\<lambda>T. Returns (T, True)))" if "jobs_ok (mnr U)" for U
    by (rule after_and_then [OF keeps1D [OF keeps1_subscribed that]]) simp
  show "after (\<lambda>(T', _). jobs_ok (mnr T')) (initiate_from V pool trysuggest noresume recvd T)"
  proof (subst initiate_from.simps, rule after_then [OF keepsD [OF keeps_attempt ok]])
    fix U :: stratum_io and x :: "bool \<times> bool \<times> bool" assume U: "jobs_ok (mnr U)"
    obtain ret got sockd where x: "x = (ret, got, sockd)" by (cases x)
    show "after (\<lambda>(T', _). jobs_ok (mnr T')) ((\<lambda>(T, ret, recvd, sockd).
       if ret then and_then (subscribed V pool T) (\<lambda>T. Returns (T, True))
       else if recvd \<and> trysuggest then initiate_from V pool False noresume recvd T
       else if recvd \<and> \<not> noresume then initiate_from V pool trysuggest True recvd T
       else Returns (if sockd then upd_mnr (suspend_stratum pool) T else T, False)) (U, x))"
      using sub [OF U] keepsD [OF assms(1) U] keepsD [OF assms(2) U] U
      by (cases trysuggest; cases noresume) (simp_all add: x jobs_ok_same [OF jobs_upd_fields(10)])
  qed
qed

lemma keeps_initiate_from: "keeps (initiate_from V pool trysuggest noresume recvd)"
proof -
  have a: "keeps (initiate_from V pool False True r)" for r by (rule keeps_initiate_step) simp_all
  have b: "keeps (initiate_from V pool False n r)" for n r by (rule keeps_initiate_step) (simp_all add: a)
  have c: "keeps (initiate_from V pool t True r)" for t r by (rule keeps_initiate_step) (simp_all add: b)
  show ?thesis by (rule keeps_initiate_step) (simp_all add: b c)
qed

lemma keeps_restart: "keeps (restart_stratum V pool)"
  unfolding keeps_def restart_stratum_def Let_def initiate_stratum_def
  by (auto intro!: after_then [OF keepsD [OF keeps_initiate_from]] keepsD [OF keeps_auth] simp: jobs_ok_same [OF jobs_upd_fields(10)])

text \<open>
  C10. Whatever a stratum pool sends, with whatever JSON values in whatever places, the jobs of all pools stay well-formed
  if the handler returns: the buffers have the sizes that work is made with, the place of the extranonce and all
  branches lie within them, and the pool's part of the extranonce fits.
\<close>

theorem parse_method_job_ok:
  assumes "jobs_ok (mnr T)" "parse_method V pool s T = Returns (T', known)"
  shows "jobs_ok (mnr T')"
proof -
  have "keeps (parse_method V pool s)" unfolding parse_method_def by (rule keeps_method [OF keeps_restart])
  from keepsD [OF this assms(1)] show ?thesis by (simp add: assms(2))
qed

section \<open>Work made of a message\<close>

definition decodes :: "string \<Rightarrow> bytes \<Rightarrow> bool" where
  "decodes s bs \<longleftrightarrow> hex2bin s (length bs) = (True, bs) \<and> length s = 2 * length bs"

lemma write_hex_decodes: "decodes s bs \<Longrightarrow> length bs = k \<Longrightarrow> write_hex buf off s k = mem_write buf off bs"
  by (auto simp: write_hex_def decodes_def)

lemma mem_write_full: "length buf = length bs \<Longrightarrow> mem_write buf 0 bs = bs"
  by (simp add: mem_write_def)

lemma mem_write_next: "length a = off \<Longrightarrow> off + length bs \<le> length buf \<Longrightarrow> take off buf = a \<Longrightarrow>
    take (off + length bs) (mem_write buf off bs) = a @ bs"
  by (simp add: mem_write_def)

lemma notified_header:
  assumes "length (sw_header1 j) = 36" "length (sw_diffbits j) = 4" "decodes (nt_bbversion n) ver" "length ver = 4"
    "decodes (nt_prev_hash n) prev" "length prev = 32" "decodes (nt_nbit n) bits" "length bits = 4"
    "decodes (nt_ntime n) time" "length time = 4"
  shows "sw_header1 (notified E n t nonce1 n1_len n2size j) = ver @ prev" "sw_diffbits (notified E n t nonce1 n1_len n2size j) = bits"
    "sw_ntime (notified E n t nonce1 n1_len n2size j) = upk_u32be time 0" "sw_tv_received (notified E n t nonce1 n1_len n2size j) = t"
    "sw_nonce1 (notified E n t nonce1 n1_len n2size j) = Some nonce1" "sw_job_id (notified E n t nonce1 n1_len n2size j) = Some (nt_job_id n)"
proof -
  note d = notified_def job_merkles_def job_coinbase_def job_header_def Let_def
  show "sw_header1 (notified E n t nonce1 n1_len n2size j) = ver @ prev"
    using assms(1,4,6) write_hex_decodes [OF assms(3,4)] write_hex_decodes [OF assms(5,6)]
    by (simp add: d mem_write_def)
  show "sw_diffbits (notified E n t nonce1 n1_len n2size j) = bits"
    using assms(2,8) write_hex_decodes [OF assms(7,8)] by (simp add: d mem_write_full)
  show "sw_ntime (notified E n t nonce1 n1_len n2size j) = upk_u32be time 0"
    using write_hex_decodes [OF assms(9,10)] assms(10) by (simp add: d mem_write_full len_simps)
  show "sw_tv_received (notified E n t nonce1 n1_len n2size j) = t" "sw_nonce1 (notified E n t nonce1 n1_len n2size j) = Some nonce1"
    "sw_job_id (notified E n t nonce1 n1_len n2size j) = Some (nt_job_id n)"
    by (simp_all add: d)
qed

text \<open>The coinbase: two parts around the extranonces.\<close>

lemma notified_coinbase:
  assumes "bytes_inv (sw_coinbase j)" "decodes (nt_coinbase1 n) cb1" "decodes (nt_coinbase2 n) cb2" "decodes nonce1 x1" "n1_len = length x1"
  obtains gap where "bytes_view (sw_coinbase (notified E n t nonce1 n1_len n2size j)) = cb1 @ x1 @ gap @ cb2" "length gap = n2size"
proof -
  define z where "z = length cb1 + length x1 + n2size + length cb2"
  define c where "c = bytes_resize (resize_junk E) (sw_coinbase j) z"
  have l: "length (nt_coinbase1 n) div 2 = length cb1" "length (nt_coinbase2 n) div 2 = length cb2"
    using assms(2,3) by (simp_all add: decodes_def)
  have c: "bsz c = z" "z \<le> length (bbuf c)" unfolding c_def by (rule bytes_resize_fields [OF assms(1)])+
  define b3 where "b3 = mem_write (mem_write (mem_write (bbuf c) 0 cb1) (length cb1) x1) (length cb1 + length x1 + n2size) cb2"
  have k: "sw_coinbase (notified E n t nonce1 n1_len n2size j) = c\<lparr>bbuf := b3\<rparr>"
    using write_hex_decodes [OF assms(2) refl] write_hex_decodes [OF assms(3) refl] write_hex_decodes [OF assms(4) refl]
    by (simp add: notified_def job_merkles_def job_coinbase_def job_header_def Let_def l assms(5) b3_def c_def z_def)
  define gap where "gap = take n2size (drop (length cb1 + length x1) (bbuf c))"
  have "take z b3 = cb1 @ x1 @ gap @ cb2"
    using c(2) by (simp add: b3_def mem_write_def gap_def z_def drop_take add.assoc) (simp add: add.commute)
  then have "bytes_view (sw_coinbase (notified E n t nonce1 n1_len n2size j)) = cb1 @ x1 @ gap @ cb2"
    by (simp add: k bytes_view_def c(1))
  moreover have "length gap = n2size" using c(2) by (simp add: gap_def z_def)
  ultimately show ?thesis by (rule that)
qed

text \<open>The branches, one after the other.\<close>

lemma write_branches:
  assumes "list_all2 decodes ms bs" "\<forall>b\<in>set bs. length b = 32" "32 * length bs \<le> length buf" "i \<le> length bs"
  shows "take (32 * i) (fold (\<lambda>i buf. write_hex buf (i * 32) (ms ! i) 32) [0..<i] buf) = concat (take i bs) \<and>
    length (fold (\<lambda>i buf. write_hex buf (i * 32) (ms ! i) 32) [0..<i] buf) = length buf"
  using assms(4)
proof (induction i)
  case (Suc i)
  define b where "b = fold (\<lambda>i buf. write_hex buf (i * 32) (ms ! i) 32) [0..<i] buf"
  have IH: "take (32 * i) b = concat (take i bs)" "length b = length buf" using Suc by (simp_all add: b_def)
  have i: "i < length bs" using Suc.prems by simp
  have len: "length (bs ! i) = 32" using assms(2) i by simp
  have dec: "decodes (ms ! i) (bs ! i)" using assms(1) i by (simp add: list_all2_conv_all_nth)
  have w: "write_hex b (i * 32) (ms ! i) 32 = mem_write b (32 * i) (bs ! i)" using write_hex_decodes [OF dec len] by (simp add: mult.commute)
  have ii: "32 * i + length (bs ! i) \<le> length b" using len i assms(3) IH(2) by simp
  have "length (concat (take i bs)) = 32 * i" using IH i assms(3) by (metis length_take min_absorb2 order_trans mult_le_mono2 less_imp_le)
  then have "take (32 * i + length (bs ! i)) (mem_write b (32 * i) (bs ! i)) = concat (take i bs) @ bs ! i"
    by (rule mem_write_next [OF _ ii IH(1)])
  moreover have "length (mem_write b (32 * i) (bs ! i)) = length b" by (rule length_mem_write [OF ii])
  ultimately show ?case using len i IH(2) by (simp add: b_def [symmetric] w take_Suc_conv_app_nth add.commute)
qed simp

lemma concat_groups:
  assumes "\<forall>b\<in>set bs. length b = k"
  shows "map (\<lambda>i. take k (drop (k * i) (concat bs))) [0..<length bs] = bs"
proof (rule nth_equalityI)
  fix i assume "i < length (map (\<lambda>i. take k (drop (k * i) (concat bs))) [0..<length bs])"
  then have i: "i < length bs" by simp
  have "take k (drop (k * i) (concat bs)) = bs ! i" if "i < length bs" "\<forall>b\<in>set bs. length b = k" for bs :: "'a list list" and i
    using that
  proof (induction bs arbitrary: i)
    case (Cons b bs)
    then show ?case by (cases i) (simp_all add: drop_append)
  qed simp
  then show "map (\<lambda>i. take k (drop (k * i) (concat bs))) [0..<length bs] ! i = bs ! i" using i assms by simp
qed simp

lemma notified_branches:
  assumes "bytes_inv (sw_merkle_bin j)" "list_all2 decodes (nt_merkles n) bs" "\<forall>b\<in>set bs. length b = 32"
  shows "branches (notified E n t nonce1 n1_len n2size j) = bs"
proof -
  have l: "length (nt_merkles n) = length bs" using assms(2) by (rule list_all2_lengthD)
  define c where "c = bytes_resize (resize_junk E) (sw_merkle_bin j) (32 * length bs)"
  have c: "bsz c = 32 * length bs" "32 * length bs \<le> length (bbuf c)" unfolding c_def by (rule bytes_resize_fields [OF assms(1)])+
  define b where "b = fold (\<lambda>i buf. write_hex buf (i * 32) (nt_merkles n ! i) 32) [0..<length bs] (bbuf c)"
  have "take (32 * length bs) b = concat bs" using write_branches [OF assms(2,3) c(2) order_refl] by (simp add: b_def)
  then have "bytes_view (sw_merkle_bin (notified E n t nonce1 n1_len n2size j)) = concat bs"
    by (simp add: notified_def job_merkles_def job_coinbase_def job_header_def Let_def l b_def c_def bytes_view_def bytes_resize_fields [OF assms(1)])
  moreover have "sw_merkles (notified E n t nonce1 n1_len n2size j) = length bs"
    by (simp add: notified_def job_merkles_def job_coinbase_def job_header_def Let_def l)
  ultimately show ?thesis using concat_groups [OF assms(3)] by (simp add: branches_def)
qed

lemma gen_works_data:
  assumes "swork_ok (p_swork (the_pool s pool))" "nonce2_ok (the_pool s pool)" "length (sha_junk E) = 128" "i < n"
    "bytes_view (sw_coinbase (p_swork (the_pool s pool))) = a @ gap @ c" "length a = sw_nonce2_offset (p_swork (the_pool s pool))"
    "length gap = sw_n2size (p_swork (the_pool s pool))"
  shows "w_data (gen_works E pool n s ! i) =
    (let p = the_pool s pool; j = p_swork p
     in sw_header1 j @ swap32yes (root_of (branches j) (a @ nonce2_bytes (p\<lparr>p_nonce2 := p_nonce2 p + of_nat i\<rparr>) @ c)) 8 @
        pk_u32be (replicate 4 0) 0 (sw_ntime j + word_of_int (timer_elapsed (sw_tv_received j) (now s))) @
        sw_diffbits j @ replicate 4 0 @ bfg_workpadding_bin)"
  using assms(1,2,4-7)
proof (induction n arbitrary: s i gap)
  case (Suc n)
  obtain t v where g: "gen_stratum_work E pool zero_work s = (t, v)" by (cases "gen_stratum_work E pool zero_work s")
  note F = gen_stratum_work_fields [OF g Suc.prems(1,2) assms(3)]
  let ?p = "the_pool s pool" and ?q = "the_pool t pool"
  have q: "p_swork ?q = next_swork ?p" "p_nonce2 ?q = p_nonce2 ?p + 1" "p_nonce2sz ?q = p_nonce2sz ?p"
    by (subst F(12), simp)+
  have f: "sw_header1 (next_swork ?p) = sw_header1 (p_swork ?p)" "sw_ntime (next_swork ?p) = sw_ntime (p_swork ?p)"
    "sw_tv_received (next_swork ?p) = sw_tv_received (p_swork ?p)" "sw_diffbits (next_swork ?p) = sw_diffbits (p_swork ?p)"
    "sw_nonce2_offset (next_swork ?p) = sw_nonce2_offset (p_swork ?p)"
    by (simp_all add: next_swork_def)
  note O = next_swork_ok [OF Suc.prems(1,2)]
  have nl: "length (nonce2_bytes ?p) = sw_n2size (p_swork ?p)" by (rule length_nonce2_bytes [OF Suc.prems(2)])
  have w: "with_nonce2 ?p = a @ nonce2_bytes ?p @ c"
    using Suc.prems(4-6) nl by (simp add: with_nonce2_def mem_write_def)
  have ok: "swork_ok (p_swork ?q)" "nonce2_ok ?q"
    using O(1) Suc.prems(2) by (simp_all add: q nonce2_ok_def next_swork_keeps)
  have eq: "nonce2_bytes (?q\<lparr>p_nonce2 := p_nonce2 ?q + of_nat j\<rparr>) = nonce2_bytes (?p\<lparr>p_nonce2 := p_nonce2 ?p + of_nat (Suc j)\<rparr>)" for j
    by (simp add: nonce2_bytes_def q next_swork_keeps ac_simps)
  have view: "bytes_view (sw_coinbase (p_swork ?q)) = a @ nonce2_bytes ?p @ c" by (simp add: q O(2) w)
  show ?case
  proof (cases i)
    case 0
    have "nonce2_bytes (?p\<lparr>p_nonce2 := p_nonce2 ?p + of_nat 0\<rparr>) = nonce2_bytes ?p" by (simp add: nonce2_bytes_def)
    then show ?thesis using F(1) by (simp add: 0 g w Let_def)
  next
    case (Suc j)
    have "w_data (gen_works E pool n t ! j) =
      (let p = ?q; k = p_swork p
       in sw_header1 k @ swap32yes (root_of (branches k) (a @ nonce2_bytes (p\<lparr>p_nonce2 := p_nonce2 p + of_nat j\<rparr>) @ c)) 8 @
          pk_u32be (replicate 4 0) 0 (sw_ntime k + word_of_int (timer_elapsed (sw_tv_received k) (now t))) @
          sw_diffbits k @ replicate 4 0 @ bfg_workpadding_bin)"
      by (rule Suc.IH [OF ok _ view]) (use Suc Suc.prems(3,5) nl in \<open>simp_all add: q f next_swork_keeps\<close>)
    then show ?thesis using Suc by (simp add: g Let_def eq) (simp add: q f O(3) F(11))
  qed
qed simp

text \<open>A message that can be decoded: every text is the hexadecimal form of as many bytes as the header, or a branch, has room for.\<close>

definition notification_decodes :: "notification \<Rightarrow> bytes \<Rightarrow> bytes \<Rightarrow> bytes \<Rightarrow> bytes \<Rightarrow> bytes \<Rightarrow> bytes \<Rightarrow> bytes list \<Rightarrow> bool" where
  "notification_decodes n ver prev bits time cb1 cb2 bs \<longleftrightarrow>
     decodes (nt_bbversion n) ver \<and> length ver = 4 \<and> decodes (nt_prev_hash n) prev \<and> length prev = 32 \<and>
     decodes (nt_nbit n) bits \<and> length bits = 4 \<and> decodes (nt_ntime n) time \<and> length time = 4 \<and>
     decodes (nt_coinbase1 n) cb1 \<and> decodes (nt_coinbase2 n) cb2 \<and> list_all2 decodes (nt_merkles n) bs \<and> (\<forall>b\<in>set bs. length b = 32)"

text \<open>The first extranonce of the session, announced or in use.\<close>

definition session_nonce1 :: "pool \<Rightarrow> bytes \<Rightarrow> bool" where
  "session_nonce1 p x1 \<longleftrightarrow>
     (case ss_next_nonce1 (p_session p) of
        Some nonce1 \<Rightarrow> decodes nonce1 x1
      | None \<Rightarrow> decodes (the (sw_nonce1 (p_swork p))) x1 \<and> ss_n1_len (p_session p) = length x1)"

text \<open>
  C9. From the message of a pool to the headers that are hashed. After a \<^verbatim>\<open>mining.notify\<close> whose texts decode, the header of the \<open>i\<close>-th item of work
  made from it is: version and previous block as sent; the Merkle root, each word reversed, over the double SHA-256 of
  the first coinbase part, the first extranonce of the session, \<open>i\<close> in the low bytes of a second one of the announced
  size, and the second coinbase part, and the branches in the order of the message; the time as sent moved on by the seconds
  since the message came; the bits as sent; a zero nonce and the padding.
\<close>

theorem notify_works:
  assumes "jobs_ok s" "length (sha_junk (base_env V)) = 128" "notify_job V pool n s = Returns t"
    "notification_decodes n ver prev bits time cb1 cb2 bs" "session_nonce1 (the_pool s pool) x1"
    "length cb1 + length x1 + nat (ss_next_n2size (p_session (the_pool s pool))) + length cb2 < 2 ^ 29" "i < k"
  shows "let m = nat (ss_next_n2size (p_session (the_pool s pool)));
      x2 = take (min 8 m) (pk_u64le (replicate 8 0) 0 (of_nat i)) @ replicate (m - min 8 m) 0
    in w_data (gen_works (base_env V) pool k t ! i) =
      ver @ prev @ swap32yes (root_of bs (cb1 @ x1 @ x2 @ cb2)) 8 @
      pk_u32be (replicate 4 0) 0 (upk_u32be time 0 + word_of_int (timer_elapsed (now s) (now t))) @
      bits @ replicate 4 0 @ bfg_workpadding_bin"
proof -
  let ?E = "base_env V"
  define p where "p = the_pool s pool"
  define n1 where "n1 = (case ss_next_nonce1 (p_session p) of None \<Rightarrow> the (sw_nonce1 (p_swork p)) | Some x \<Rightarrow> x)"
  define l1 where "l1 = (case ss_next_nonce1 (p_session p) of None \<Rightarrow> ss_n1_len (p_session p) | Some x \<Rightarrow> length x div 2)"
  define m where "m = nat (ss_next_n2size (p_session p))"
  define j where "j = notified ?E n (now s) n1 l1 m (p_swork p)"
  have D: "decodes (nt_bbversion n) ver" "length ver = 4" "decodes (nt_prev_hash n) prev" "length prev = 32"
    "decodes (nt_nbit n) bits" "length bits = 4" "decodes (nt_ntime n) time" "length time = 4"
    "decodes (nt_coinbase1 n) cb1" "decodes (nt_coinbase2 n) cb2" "list_all2 decodes (nt_merkles n) bs" "\<forall>b\<in>set bs. length b = 32"
    using assms(4) by (simp_all add: notification_decodes_def)
  have N: "decodes n1 x1" "l1 = length x1"
    using assms(5) by (auto simp: session_nonce1_def n1_def l1_def p_def decodes_def split: option.splits)
  have "jobs t pool = (j\<lparr>sw_target := p_next_target p\<rparr>, min 8 m, 0, p_next_target p)"
    using notify_job_result [OF assms(3) refl] by (simp only: fun_upd_same n1_def l1_def m_def p_def j_def)
  then have t: "p_swork (the_pool t pool) = j\<lparr>sw_target := p_next_target p\<rparr>" "p_nonce2sz (the_pool t pool) = min 8 m" "p_nonce2 (the_pool t pool) = 0"
    by (simp_all only: jobs_def job_view_def prod.inject)
  have sz: "length (sw_header1 (p_swork p)) = 36" "length (sw_diffbits (p_swork p)) = 4" "bytes_inv (sw_coinbase (p_swork p))"
    "bytes_inv (sw_merkle_bin (p_swork p))" using assms(1) by (simp_all add: jobs_ok_def job_ok_def Let_def p_def)
  note H = notified_header [OF sz(1,2) D(1-8), of ?E "now s" n1 l1 m, folded j_def]
  note Z = notified_sizes [OF sz, of ?E n "now s" n1 l1 m, folded j_def]
  have l: "length (nt_coinbase1 n) div 2 = length cb1" "length (nt_coinbase2 n) div 2 = length cb2"
    using D(9,10) by (simp_all add: decodes_def)
  obtain gap where gap: "bytes_view (sw_coinbase j) = cb1 @ x1 @ gap @ cb2" "length gap = m"
    using notified_coinbase [OF sz(3) D(9,10) N, of ?E "now s" m] unfolding j_def [symmetric] by blast
  have B: "branches j = bs" unfolding j_def by (rule notified_branches [OF sz(4) D(11,12)])
  have ok: "swork_ok (p_swork (the_pool t pool))"
    using Z assms(6) by (simp add: t swork_ok_def l N(2) m_def p_def)
  have nok: "nonce2_ok (the_pool t pool)" using Z(5) by (simp add: nonce2_ok_def t)
  have W: "w_data (gen_works ?E pool k t ! i) =
    (let p = the_pool t pool; j = p_swork p
     in sw_header1 j @ swap32yes (root_of (branches j) ((cb1 @ x1) @ nonce2_bytes (p\<lparr>p_nonce2 := p_nonce2 p + of_nat i\<rparr>) @ cb2)) 8 @
        pk_u32be (replicate 4 0) 0 (sw_ntime j + word_of_int (timer_elapsed (sw_tv_received j) (now t))) @
        sw_diffbits j @ replicate 4 0 @ bfg_workpadding_bin)"
    by (rule gen_works_data [OF ok nok assms(2,7), where gap = gap]) (simp_all add: t gap Z l N(2))
  have x2: "nonce2_bytes ((the_pool t pool)\<lparr>p_nonce2 := p_nonce2 (the_pool t pool) + of_nat i\<rparr>) =
      take (min 8 m) (pk_u64le (replicate 8 0) 0 (of_nat i)) @ replicate (m - min 8 m) 0"
    by (simp add: nonce2_bytes_def t Z(5))
  have br: "branches (j\<lparr>sw_target := x\<rparr>) = bs" for x using B by (simp add: branches_def)
  show ?thesis unfolding W x2 Let_def t(1) br p_def [symmetric] m_def [symmetric] by (simp add: H)
qed

section \<open>Waiting for the answer to the authorisation\<close>

text \<open>No handler takes a line from the connection while the lock is held, so every round of the loop has one line less.\<close>

definition reads_no_line :: "(stratum_io \<Rightarrow> (stratum_io \<times> 'a) outcome) \<Rightarrow> bool" where
  "reads_no_line h \<longleftrightarrow> (\<forall>T. after (\<lambda>(T', _). recvs T' = recvs T) (h T))"

lemma reads_no_lineD: "reads_no_line h \<Longrightarrow> recvs T = r \<Longrightarrow> after (\<lambda>(T', _). recvs T' = r) (h T)"
  by (auto simp: reads_no_line_def)

lemma after_recvs:
  assumes "after (\<lambda>(T, _). recvs T = r) m" "\<And>T x. recvs T = r \<Longrightarrow> after P (f (T, x))"
  shows "after P (and_then m f)"
  using assms(1) by (rule after_and_then) (use assms(2) in auto)

lemma reads_send_line: "reads_no_line (send_line n force pool msg)"
  unfolding reads_no_line_def send_line_def Let_def by auto

lemmas send_line_recvs = reads_no_lineD [OF reads_send_line]

lemma reads_probe: "recvs T = r \<Longrightarrow> after (\<lambda>T'. recvs T' = r) (stratum_probe_transparency pool T)"
  unfolding stratum_probe_transparency_def Let_def
  by (rule after_recvs [OF send_line_recvs]) auto

lemma reads_notify: "reads_no_line (parse_notify V pool val)"
  unfolding reads_no_line_def
proof (intro allI)
  fix T :: stratum_io
  show "after (\<lambda>(T', _). recvs T' = recvs T) (parse_notify V pool val T)"
  proof (cases "read_notify (jans V) val")
    case (Some n)
    have p: "after (\<lambda>(T', _). recvs T' = recvs T) (and_then (stratum_probe_transparency pool U) (\<lambda>T. Returns (T, True)))"
      if "recvs U = recvs T" for U
      by (rule after_and_then [OF reads_probe [OF that]]) simp
    have "after (\<lambda>_. True) (notify_job V pool n (mnr T))" by (cases "notify_job V pool n (mnr T)") simp_all
    then show ?thesis
      unfolding parse_notify_def Some option.case Let_def
      by (rule after_and_then) (auto intro!: p)
  qed (simp add: parse_notify_def)
qed

lemma reads_extranonce: "reads_no_line (stratum_set_extranonce V pool val params)"
  unfolding reads_no_line_def
proof (intro allI)
  fix T :: stratum_io
  let ?J = "jans V"
  have s: "after (\<lambda>(T', _). recvs T' = recvs T) (and_then (send_line RBUFSIZE False pool m T) (\<lambda>(T, _). Returns (T, True)))" for m
    by (rule after_recvs [OF send_line_recvs]) auto
  show "after (\<lambda>(T', _). recvs T' = recvs T) (stratum_set_extranonce V pool val params T)"
  proof (cases "if json_is (is_array ?J) params then read_extranonce ?J params else None")
    case None
    then show ?thesis unfolding stratum_set_extranonce_def Let_def None option.case using s by (auto split: option.split)
  next
    case (Some x)
    then show ?thesis unfolding stratum_set_extranonce_def Let_def Some option.case by (cases x) simp
  qed
qed

lemma reads_goal: "reads_no_line (stratum_set_goal V pool val params)"
  unfolding reads_no_line_def stratum_set_goal_def Let_def
  by (auto split: option.split intro!: after_recvs [OF send_line_recvs])

lemma reads_reconnect: "reads_no_line (parse_reconnect (\<lambda>_ _. Deadlocks) V pool val)"
  unfolding reads_no_line_def parse_reconnect_def Let_def
  by (auto split: option.split prod.split bool.split)

lemma reads_version: "reads_no_line (send_version V pool val)"
  unfolding reads_no_line_def send_version_def
  by (auto split: option.split intro!: send_line_recvs)

lemma reads_message: "reads_no_line (stratum_show_message V pool val params)"
  unfolding reads_no_line_def stratum_show_message_def Let_def
  by (auto split: option.split intro!: send_line_recvs)

lemma reads_locked: "reads_no_line (parse_method_locked V pool s)"
proof -
  have d: "after (\<lambda>(T', _). recvs T' = recvs T) (dispatch (\<lambda>_ _. Deadlocks) V pool s buf val params T)" for buf val params T
  proof -
    have e: "after (\<lambda>(T', _). recvs T' = recvs T) (let (m, ret) = parse_diff V pool params e (mnr T) in Returns (T\<lparr>mnr := m\<rparr>, ret))" for e
      by (simp split: prod.split)
    have n: "after (\<lambda>(T', _). recvs T' = recvs T) (and_then (parse_notify V pool params T)
        (\<lambda>(T, ret). Returns (upd_mnr (upd_pool pool (\<lambda>p. p\<lparr>p_stratum_notify := ret\<rparr>)) T, ret)))"
      by (rule after_recvs [OF reads_no_lineD [OF reads_notify refl]]) simp
    show ?thesis
      unfolding dispatch_def
      by (intro after_if after_option n e reads_no_lineD [OF reads_reconnect refl] reads_no_lineD [OF reads_version refl]
        reads_no_lineD [OF reads_message refl] reads_no_lineD [OF reads_extranonce refl] reads_no_lineD [OF reads_goal refl]; simp)
  qed
  show ?thesis
    unfolding reads_no_line_def parse_method_locked_def parse_method_with_def Let_def
    by (auto split: option.split intro!: d)
qed

lemma and_then_cong: "(\<And>x. m = Returns x \<Longrightarrow> f x = g x) \<Longrightarrow> and_then m f = and_then m g"
  by (cases m) auto

lemma notify_job_returns:
  assumes "ss_next_nonce1 (p_session (the_pool s pool)) = Some nonce1"
  shows "\<exists>t. notify_job V pool n s = Returns t"
proof -
  define a where "a = upd_swork pool (\<lambda>j. j\<lparr>sw_tv_received := now s, sw_job_id := Some (nt_job_id n)\<rparr>) s"
  define b where "b = (case sw_tr (p_swork (the_pool a pool)) of None \<Rightarrow> a | Some t \<Rightarrow> upd_swork pool (\<lambda>j. j\<lparr>sw_tr := None\<rparr>) (tmpl_decref t a))"
  define c where "c = upd_swork pool (\<lambda>j. j\<lparr>sw_clean := True\<rparr>) (upd_pool pool (\<lambda>p. p\<lparr>p_submit_old := \<not> nt_clean n\<rparr>) b)"
  define d where "d = adopt_announced pool c"
  have "p_session (the_pool c pool) = p_session (the_pool s pool)"
    by (auto simp: c_def b_def a_def upd_swork_def tmpl_decref_def split: option.split)
  then have "sw_nonce1 (p_swork (the_pool d pool)) = Some nonce1"
    by (subst adopt_announced_pool(1) [OF refl d_def]) (simp add: assms)
  then show ?thesis
    unfolding notify_job_def Let_def a_def [symmetric] b_def [symmetric] c_def [symmetric] d_def [symmetric] by simp
qed

text \<open>As many rounds as there are lines, and one more, are enough.\<close>

lemma await_auth_enough:
  "length (recvs T) < n \<Longrightarrow> await_auth n V pool T = await_auth (Suc (length (recvs T))) V pool T"
proof (induction "length (recvs T)" arbitrary: T n)
  case 0
  then have r: "recvs T = []" by simp
  from 0 obtain m where n: "n = Suc m" by (cases n) auto
  show ?case by (simp add: n r take_line_def)
next
  case (Suc k)
  then obtain l ls where r: "recvs T = l # ls" "length ls = k" by (metis length_Suc_conv)
  from Suc.prems obtain m where n: "n = Suc m" "k < m" using Suc.hyps(2) by (cases n) auto
  show ?case
  proof (cases l)
    case (Line s)
    let ?T = "T\<lparr>recvs := ls\<rparr>"
    have rl: "take_line pool T = (?T, Some s)" by (simp add: take_line_def r Line)
    have "await_auth m V pool U = await_auth (Suc k) V pool U" if "parse_method_locked V pool s ?T = Returns (U, known)" for U known
    proof -
      have "recvs U = ls" using reads_no_lineD [OF reads_locked [of V pool s], of ?T ls] that by simp
      then show ?thesis using Suc.hyps(1) [of U m] Suc.hyps(1) [of U "Suc k"] r(2) n(2) by simp
    qed
    then have "and_then (parse_method_locked V pool s ?T) (\<lambda>(T, known).
             if known then await_auth m V pool T
             else let val = loads (jans V) s; j_id = jobject_get (jans V) val ''id''
                  in if json_is (\<lambda>j. is_string (jans V) j \<and> string_value (jans V) j = ''auth'') j_id then Returns (T, val)
                     else await_auth m V pool T) =
      and_then (parse_method_locked V pool s ?T) (\<lambda>(T, known).
             if known then await_auth (Suc k) V pool T
             else let val = loads (jans V) s; j_id = jobject_get (jans V) val ''id''
                  in if json_is (\<lambda>j. is_string (jans V) j \<and> string_value (jans V) j = ''auth'') j_id then Returns (T, val)
                     else await_auth (Suc k) V pool T)"
      by (intro and_then_cong) (auto simp: Let_def simp del: await_auth.simps)
    then show ?thesis unfolding n Suc.hyps(2) [symmetric] await_auth.simps(2) [of m] await_auth.simps(2) [of "Suc k"] rl Let_def prod.case option.case .
  next
    case (No_line b)
    then show ?thesis by (simp add: n r take_line_def Let_def)
  qed
qed

text \<open>
  The lock that is taken twice. A pool that answers the request for authorisation with \<^verbatim>\<open>client.reconnect\<close>, to itself
  under any address that can be read, stops the thread for ever: the handler restarts the connection, which waits for the lock
  that is held during the authorisation.
\<close>

theorem reconnect_while_authorising:
  assumes "p_stratum_active (the_pool (mnr T) pool)" "length (p_rpc_user (the_pool (mnr T) pool)) + length (p_rpc_pass (the_pool (mnr T) pool)) \<le> 8000"
    "send_rets T = SEND_OK # rets" "recvs T = Line s # lines"
    "loads (jans V) s = Some v" "object_get (jans V) v ''method'' = Some meth" "is_string (jans V) meth"
    "string_value (jans V) meth = ''client.reconnect''" "object_get (jans V) v ''error'' = None"
    "\<not> opt_disable_client_reconnect (mnr T)" "json_array_string (jans V) (object_get (jans V) v ''params'') 0 = None"
    "extract_sockaddr (reconnect_address (jans V) (object_get (jans V) v ''params'') (p_sockaddr_url (the_pool (mnr T) pool))
       (p_stratum_port (the_pool (mnr T) pool))) = Some address"
  shows "auth_stratum V pool T = Deadlocks"
proof -
  define msg where "msg = ''{\"id\": \"auth\", \"method\": \"mining.authorize\", \"params\": [\"'' @ p_rpc_user (the_pool (mnr T) pool) @
    ''\", \"'' @ p_rpc_pass (the_pool (mnr T) pool) @ ''\"]}''"
  have "length msg + 2 \<le> RBUFSIZE" using assms(2) by (simp add: msg_def RBUFSIZE_def)
  then have send: "send_line RBUFSIZE False pool msg T = Returns (T\<lparr>send_rets := rets, sent := sent T @ [(pool, msg)]\<rparr>, True)" (is "_ = Returns (?U, True)")
    using assms(1,3) by (simp add: send_line_def Let_def stratum_send_def)
  have names: "\<not> strncaseeq ''client.reconnect'' ''mining.notify'' 13" "\<not> strncaseeq ''client.reconnect'' ''mining.set_difficulty'' 21"
    "strncaseeq ''client.reconnect'' ''client.reconnect'' 16" by code_simp+
  have rl: "take_line pool ?U = (?U\<lparr>recvs := lines\<rparr>, Some s)" by (simp add: take_line_def assms(4))
  have "parse_reconnect (\<lambda>_ _. Deadlocks) V pool (object_get (jans V) v ''params'') (?U\<lparr>recvs := lines\<rparr>) = Deadlocks"
    using assms(10-12) by (simp add: parse_reconnect_def Let_def split: prod.split)
  then have "parse_method_locked V pool s (?U\<lparr>recvs := lines\<rparr>) = Deadlocks"
    by (simp add: parse_method_locked_def parse_method_with_def assms(5-9) dispatch_def names)
  then have "await_auth (Suc n) V pool ?U = Deadlocks" for n by (simp add: rl)
  then show ?thesis
    unfolding auth_stratum_def Let_def msg_def [symmetric] send by (simp del: await_auth.simps)
qed

end
