(* ===== verification/StratumMsgExamples.thy ===== *)
theory StratumMsgExamples
  imports StratumFacts StratumExamples
begin

text \<open>
  JSON values with a table for a parser, a pool with a session, and what the properties of stratum messages say of them.
\<close>

section \<open>Difficulties\<close>

lemma example_rounds: "rounds (rnd_double example_env)"
  by (simp add: rounds_def example_env_def mono_def)

theorem set_target_to_pdiff_inverted_witness:
  "le_value (set_target_to_pdiff example_env 1) < le_value (set_target_to_pdiff example_env 2)"
proof -
  have "is_double 2" unfolding is_double_def by (intro exI [of _ 2] exI [of _ 0]) simp
  then show ?thesis by (intro set_target_to_pdiff_inverted [OF example_rounds]) simp_all
qed

section \<open>JSON\<close>

datatype jvalue = JNull | JBool bool | JInt int | JReal rat | JString string | JArray "jvalue list" | JObject "(string \<times> jvalue) list"

definition example_jansson :: "(string \<Rightarrow> jvalue option) \<Rightarrow> jvalue jansson" where
  "example_jansson parse =
     \<lparr>json_null = JNull, json_string = JString, is_null = (\<lambda>j. j = JNull), is_true = (\<lambda>j. j = JBool True),
      is_array = (\<lambda>j. case j of JArray _ \<Rightarrow> True | _ \<Rightarrow> False),
      is_number = (\<lambda>j. case j of JInt _ \<Rightarrow> True | JReal _ \<Rightarrow> True | _ \<Rightarrow> False),
      array_size = (\<lambda>j. case j of JArray xs \<Rightarrow> length xs | _ \<Rightarrow> 0),
      array_get = (\<lambda>j i. case j of JArray xs \<Rightarrow> if i < length xs then Some (xs ! i) else None | _ \<Rightarrow> None),
      number_value = (\<lambda>j. case j of JInt n \<Rightarrow> n | JReal r \<Rightarrow> \<lfloor>r\<rfloor> | _ \<Rightarrow> 0),
      is_string = (\<lambda>j. case j of JString _ \<Rightarrow> True | _ \<Rightarrow> False),
      string_value = (\<lambda>j. case j of JString s \<Rightarrow> s | _ \<Rightarrow> []),
      is_object = (\<lambda>j. case j of JObject _ \<Rightarrow> True | _ \<Rightarrow> False),
      object_get = (\<lambda>j k. case j of JObject fs \<Rightarrow> map_of fs k | _ \<Rightarrow> None),
      is_false = (\<lambda>j. j = JBool False), is_integer = (\<lambda>j. case j of JInt _ \<Rightarrow> True | _ \<Rightarrow> False),
      integer_value = (\<lambda>j. case j of JInt n \<Rightarrow> n | _ \<Rightarrow> 0),
      double_value = (\<lambda>j. case j of JInt n \<Rightarrow> of_int n | JReal r \<Rightarrow> r | _ \<Rightarrow> 0),
      dumps_any = (\<lambda>_. ''1''), loads = parse\<rparr>"

definition example_parse :: "string \<Rightarrow> jvalue option" where
  "example_parse s =
     (if s = ''extranonce'' then Some (JObject [(''method'', JString ''mining.set_extranonce''), (''params'', JArray [JString ''0a0b'', JInt 4])])
      else if s = ''reconnect'' then Some (JObject [(''method'', JString ''client.reconnect''), (''params'', JArray [])])
      else None)"

definition example_stratum_env :: "jvalue stratum_env" where
  "example_stratum_env =
     \<lparr>base_env = example_env, jans = example_jansson example_parse, rnd_float = (\<lambda>x. x), overrun_passes = False,
      malgo_algo = (\<lambda>_. POW_SHA256D), mining_algorithms = [], slash_ver = ''bfgminer'', request_target_str = None, request_bdiff = 0\<rparr>"

section \<open>A session\<close>

text \<open>The pool 1 has subscribed: the first extranonce has two bytes, the second one three.\<close>

definition session_state :: miner where
  "session_state = upd_pool 1 (\<lambda>p. p\<lparr>p_stratum_active := True, p_sockaddr_url := ''pool.example'', p_stratum_port := ''3333'',
     p_session := (p_session p)\<lparr>ss_next_nonce1 := Some ''0a0b'', ss_next_n2size := 3\<rparr>\<rparr>) (three_pools POOL_FAILOVER [])"

definition session_io :: "received list \<Rightarrow> stratum_io" where
  "session_io lines = \<lparr>mnr = session_state, recvs = lines, send_rets = [SEND_OK], connects = [], rands = [], sent = []\<rparr>"

lemma session_jobs_ok: "jobs_ok session_state"
  by (simp add: jobs_ok_def job_ok_def nonce2_ok_def session_state_def three_pools_def zero_pool_def zero_stratum_work_def
      initial_miner_def bytes_inv_def bytes_init_def)

lemma example_names:
  "\<not> strncaseeq ''mining.set_extranonce'' ''mining.notify'' 13" "\<not> strncaseeq ''mining.set_extranonce'' ''mining.set_difficulty'' 21"
  "\<not> strncaseeq ''mining.set_extranonce'' ''client.reconnect'' 16" "\<not> strncaseeq ''mining.set_extranonce'' ''client.get_version'' 18"
  "\<not> strncaseeq ''mining.set_extranonce'' ''client.show_message'' 19" "strncaseeq ''mining.set_extranonce'' ''mining.set_extranonce'' 21"
  by code_simp+

theorem parse_method_job_ok_witness:
  "\<exists>T known. parse_method example_stratum_env 1 ''extranonce'' (session_io []) = Returns (T, known) \<and> jobs_ok (mnr T)"
proof -
  have "\<exists>T known. parse_method example_stratum_env 1 ''extranonce'' (session_io []) = Returns (T, known)"
    by (simp add: parse_method_def parse_method_with_def example_stratum_env_def example_jansson_def example_parse_def dispatch_def
        example_names stratum_set_extranonce_def read_extranonce_def jarray_get_def json_is_def int_of_long_def
        Let_def split: if_splits) blast?
  then show ?thesis using parse_method_job_ok [of "session_io []"] session_jobs_ok by (auto simp: session_io_def)
qed

theorem reconnect_while_authorising_witness:
  "auth_stratum example_stratum_env 1 (session_io [Line ''reconnect'']) = Deadlocks"
proof -
  have "extract_sockaddr ''pool.example:3333'' = Some (''pool.example'', ''3333'')" by code_simp
  then show ?thesis
    by (intro reconnect_while_authorising [where rets = "[]" and s = "''reconnect''" and lines = "[]" and meth = "JString ''client.reconnect''" and
        v = "JObject [(''method'', JString ''client.reconnect''), (''params'', JArray [])]"])
      (simp_all add: session_io_def session_state_def upd_pool_def three_pools_def zero_pool_def initial_miner_def example_stratum_env_def
        example_jansson_def example_parse_def json_array_string_def json_is_def jarray_get_def reconnect_address_def)
qed

section \<open>A message\<close>

definition example_notification :: notification where
  "example_notification = \<lparr>nt_job_id = ''7'', nt_prev_hash = bin2hex (replicate 32 5), nt_coinbase1 = bin2hex [1, 2, 3], nt_coinbase2 = bin2hex [8, 9],
     nt_merkles = [bin2hex (replicate 32 6)], nt_bbversion = bin2hex [0, 0, 0, 2], nt_nbit = bin2hex [0x1d, 0, 0xff, 0xff],
     nt_ntime = bin2hex [0, 0, 4, 0], nt_clean = True\<rparr>"

lemma decodes_bin2hex: "decodes (bin2hex bs) bs"
  by (simp add: decodes_def hex2bin_bin2hex length_bin2hex)

lemma example_decodes:
  "notification_decodes example_notification [0, 0, 0, 2] (replicate 32 5) [0x1d, 0, 0xff, 0xff] [0, 0, 4, 0] [1, 2, 3] [8, 9] [replicate 32 6]"
  by (simp only: notification_decodes_def example_notification_def notification.simps list.map list_all2_Cons list_all2_Nil decodes_bin2hex simp_thms) simp

theorem notify_works_witness:
  "\<exists>t. notify_job example_stratum_env 1 example_notification session_state = Returns t \<and>
     take 36 (w_data (gen_works example_env 1 2 t ! 1)) = [0, 0, 0, 2] @ replicate 32 5"
proof -
  have e: "base_env example_stratum_env = example_env" by (simp add: example_stratum_env_def)
  have n: "ss_next_nonce1 (p_session (the_pool session_state 1)) = Some ''0a0b''" "ss_next_n2size (p_session (the_pool session_state 1)) = 3"
    by (simp_all add: session_state_def)
  have d: "decodes ''0a0b'' [10, 11]"
  proof -
    have "hex2bin ''0a0b'' 2 = (True, [10, 11])" by code_simp
    then show ?thesis by (simp add: decodes_def numeral_2_eq_2)
  qed
  obtain t where t: "notify_job example_stratum_env 1 example_notification session_state = Returns t"
    using notify_job_returns [OF n(1)] by blast
  have j: "length (sha_junk (base_env example_stratum_env)) = 128" by (simp add: e example_env_def)
  have x: "session_nonce1 (the_pool session_state 1) [10, 11]" by (simp del: One_nat_def add: session_nonce1_def n d)
  have "take 36 (w_data (gen_works example_env 1 2 t ! 1)) = [0, 0, 0, 2] @ replicate 32 5"
    using notify_works [OF session_jobs_ok j t example_decodes x, of 1 2] by (simp del: One_nat_def add: n e Let_def)
  then show ?thesis using t by blast
qed

end
