(* ===== verification/SockBuf.thy ===== *)
theory SockBuf
  imports StratumMsgs
begin

text \<open>
  The buffer between the socket of a stratum pool and its lines (\<^verbatim>\<open>recv_line\<close> and its helpers in \<^verbatim>\<open>util.c\<close>). What
  \<^verbatim>\<open>select\<close> and curl give is a sequence; a piece of data comes with the whole seconds since the call began.
\<close>

section \<open>The buffer\<close>

datatype curl_recv = Received string int | Would_block int | Recv_error

record sock_state =
  sockbuf :: string
  sockbuf_size :: nat
  selects :: "bool list"
  curl_recvs :: "curl_recv list"
  suspended :: bool

definition DEFAULT_SOCKWAIT :: int where
  "DEFAULT_SOCKWAIT = 60"

definition RECVSIZE :: nat where
  "RECVSIZE = RBUFSIZE - 4"

text \<open>\<^verbatim>\<open>select\<close> with a timeout: is there anything to read?\<close>

definition socket_full :: "sock_state \<Rightarrow> sock_state \<times> bool" where
  "socket_full c = (c\<lparr>selects := tl (selects c)\<rparr>, selects c \<noteq> [] \<and> hd (selects c))"

definition sock_full :: "sock_state \<Rightarrow> sock_state \<times> bool" where
  "sock_full c = (if sockbuf c \<noteq> [] then (c, True) else socket_full c)"

definition clear_sockbuf :: "sock_state \<Rightarrow> sock_state" where
  "clear_sockbuf c = c\<lparr>sockbuf := []\<rparr>"

definition suspend_sock :: "sock_state \<Rightarrow> sock_state" where
  "suspend_sock c = (clear_sockbuf c)\<lparr>suspended := True\<rparr>"

text \<open>What can be read at once is thrown away; the read that gives nothing is the last. A suspended connection has no handle to read from.\<close>

definition has_data :: "curl_recv \<Rightarrow> bool" where
  "has_data r = (case r of Received s _ \<Rightarrow> s \<noteq> [] | _ \<Rightarrow> False)"

definition clear_sock :: "sock_state \<Rightarrow> sock_state outcome" where
  "clear_sock c =
     (if sockbuf_size c < RECVSIZE then Undefined
      else Returns (clear_sockbuf (if suspended c then c else c\<lparr>curl_recvs := tl (dropWhile has_data (curl_recvs c))\<rparr>)))"

definition recalloc_sock :: "nat \<Rightarrow> sock_state \<Rightarrow> sock_state" where
  "recalloc_sock len c =
     (let new = length (sockbuf c) + len + 1
      in if new < sockbuf_size c then c else c\<lparr>sockbuf_size := new + (RBUFSIZE - new mod RBUFSIZE)\<rparr>)"

definition strcat_sock :: "string \<Rightarrow> sock_state \<Rightarrow> sock_state outcome" where
  "strcat_sock s c =
     (if length (sockbuf c) + length s + 1 > sockbuf_size c then Undefined else Returns (c\<lparr>sockbuf := sockbuf c @ s\<rparr>))"

definition has_line :: "string \<Rightarrow> bool" where
  "has_line s \<longleftrightarrow> CHR 0x0A \<in> set s"

text \<open>A null character ends the piece that was read.\<close>

definition cut_nul :: "string \<Rightarrow> string" where
  "cut_nul s = takeWhile (\<lambda>ch. ch \<noteq> CHR 0x00) s"

fun recv_loop :: "curl_recv list \<Rightarrow> sock_state \<Rightarrow> sock_state outcome" where
  "recv_loop [] c = Returns (suspend_sock (c\<lparr>curl_recvs := []\<rparr>))"
| "recv_loop (r # rs) c =
     (let c = c\<lparr>curl_recvs := rs\<rparr>;
          again = (\<lambda>waited c. if waited < DEFAULT_SOCKWAIT \<and> \<not> has_line (sockbuf c) then recv_loop rs c else Returns c)
      in case r of
           Received s waited \<Rightarrow>
             if s = [] then Returns (suspend_sock c)
             else and_then (strcat_sock (cut_nul s) (recalloc_sock (length (cut_nul s)) c)) (again waited)
         | Would_block waited \<Rightarrow>
             let (c, full) = socket_full c in if full then again waited c else Returns (suspend_sock c)
         | Recv_error \<Rightarrow> Returns (suspend_sock c))"

text \<open>
  \<^verbatim>\<open>strtok\<close> skips the line feeds in front and puts a zero behind the line it finds; then the buffer is moved down by the length
  of the line and one, whatever was skipped. The result is the line and what the buffer holds then, as a C string.
\<close>

definition strtok_line :: "string \<Rightarrow> (string \<times> string) option" where
  "strtok_line buf =
     (let i = length (takeWhile (\<lambda>ch. ch = CHR 0x0A) buf);
          line = takeWhile (\<lambda>ch. ch \<noteq> CHR 0x0A) (drop i buf);
          len = length line
      in if line = [] then None
         else Some (line, if length buf \<le> len + 1 then []
                          else if i = 0 then drop (len + 1) buf
                          else drop (len + 1) (take (i + len) buf)))"

definition no_line :: "sock_state \<Rightarrow> (sock_state \<times> string option) outcome" where
  "no_line c = and_then (clear_sock c) (\<lambda>c. Returns (c, None))"

definition take_token :: "sock_state \<Rightarrow> (sock_state \<times> string option) outcome" where
  "take_token c =
     (case strtok_line (sockbuf c) of
        None \<Rightarrow> no_line c
      | Some (line, rest) \<Rightarrow>
          if length (sockbuf c) > length line + 1 \<and> length (sockbuf c) + 2 > sockbuf_size c then Undefined
          else Returns (c\<lparr>sockbuf := rest\<rparr>, Some line))"

definition recv_line :: "sock_state \<Rightarrow> (sock_state \<times> string option) outcome" where
  "recv_line c =
     (if has_line (sockbuf c) then take_token c
      else let (c, full) = socket_full c
           in if \<not> full then no_line c else and_then (recv_loop (curl_recvs c) c) take_token)"

text \<open>As many lines as asked for, until there is none.\<close>

fun recv_lines :: "nat \<Rightarrow> sock_state \<Rightarrow> (sock_state \<times> string list) outcome" where
  "recv_lines 0 c = Returns (c, [])"
| "recv_lines (Suc n) c =
     and_then (recv_line c) (\<lambda>(c, sret). case sret of
       None \<Rightarrow> Returns (c, [])
     | Some s \<Rightarrow> and_then (recv_lines n c) (\<lambda>(c, ss). Returns (c, s # ss)))"

section \<open>Its bounds\<close>

definition sock_ok :: "sock_state \<Rightarrow> bool" where
  "sock_ok c \<longleftrightarrow> RBUFSIZE \<le> sockbuf_size c \<and> length (sockbuf c) + 2 \<le> sockbuf_size c"

text \<open>A call that does not overrun, and leaves the buffer in order.\<close>

definition safe :: "('a \<Rightarrow> bool) \<Rightarrow> 'a outcome \<Rightarrow> bool" where
  "safe P r \<longleftrightarrow> (\<exists>x. r = Returns x \<and> P x)"

lemma safe_then: "safe P r \<Longrightarrow> (\<And>x. P x \<Longrightarrow> safe Q (f x)) \<Longrightarrow> safe Q (and_then r f)"
  by (auto simp: safe_def)

lemma safe_Returns [simp]: "safe P (Returns x) \<longleftrightarrow> P x"
  by (simp add: safe_def)

lemma recalloc_fits: "sock_ok c \<Longrightarrow> sock_ok (recalloc_sock len c) \<and> length (sockbuf c) + len + 2 \<le> sockbuf_size (recalloc_sock len c)
    \<and> sockbuf (recalloc_sock len c) = sockbuf c"
proof -
  assume ok: "sock_ok c"
  define new where "new = length (sockbuf c) + len + 1"
  have r: "0 < RBUFSIZE" "RBUFSIZE \<le> 8192" by (simp_all add: RBUFSIZE_def)
  have "new mod RBUFSIZE < RBUFSIZE" using r by simp
  then have "1 \<le> RBUFSIZE - new mod RBUFSIZE" by simp
  moreover have "RBUFSIZE \<le> new + (RBUFSIZE - new mod RBUFSIZE)"
    using mod_less_eq_dividend [of new RBUFSIZE] by linarith
  ultimately show ?thesis using ok by (auto simp: recalloc_sock_def sock_ok_def Let_def new_def)
qed

lemma safe_strcat: "sock_ok c \<Longrightarrow> safe sock_ok (strcat_sock s (recalloc_sock (length s) c))"
  using recalloc_fits [of c "length s"] by (auto simp: strcat_sock_def sock_ok_def)

lemma sock_ok_simps [simp]:
  "sock_ok (c\<lparr>curl_recvs := rs\<rparr>) = sock_ok c" "sock_ok (c\<lparr>selects := bs\<rparr>) = sock_ok c" "sock_ok (c\<lparr>suspended := b\<rparr>) = sock_ok c"
  by (simp_all add: sock_ok_def)

lemma sock_ok_clear: "sock_ok c \<Longrightarrow> sock_ok (clear_sockbuf c)"
  by (simp add: sock_ok_def clear_sockbuf_def)

lemma sock_ok_suspend: "sock_ok c \<Longrightarrow> sock_ok (suspend_sock c)"
  by (simp add: suspend_sock_def sock_ok_clear)

lemma safe_clear_sock: "sock_ok c \<Longrightarrow> safe sock_ok (clear_sock c)"
  using sock_ok_clear [of c] by (auto simp: clear_sock_def clear_sockbuf_def sock_ok_def RECVSIZE_def)

lemma safe_recv_loop: "sock_ok c \<Longrightarrow> safe sock_ok (recv_loop rs c)"
proof (induction rs arbitrary: c)
  case (Cons r rs)
  define again where "again = (\<lambda>waited c. if waited < DEFAULT_SOCKWAIT \<and> \<not> has_line (sockbuf c) then recv_loop rs c else Returns c)"
  have a: "sock_ok c' \<Longrightarrow> safe sock_ok (again w c')" for w c' by (simp add: again_def Cons.IH)
  have l: "recv_loop (r # rs) c = (case r of
           Received s waited \<Rightarrow>
             if s = [] then Returns (suspend_sock (c\<lparr>curl_recvs := rs\<rparr>))
             else and_then (strcat_sock (cut_nul s) (recalloc_sock (length (cut_nul s)) (c\<lparr>curl_recvs := rs\<rparr>))) (again waited)
         | Would_block waited \<Rightarrow>
             let (c, full) = socket_full (c\<lparr>curl_recvs := rs\<rparr>) in if full then again waited c else Returns (suspend_sock c)
         | Recv_error \<Rightarrow> Returns (suspend_sock (c\<lparr>curl_recvs := rs\<rparr>)))" by (cases r) (simp_all add: again_def Let_def split: prod.split)
  show ?case using Cons.prems a unfolding l
    by (cases r) (auto simp: sock_ok_suspend socket_full_def intro!: safe_then [OF safe_strcat])
qed (simp add: sock_ok_suspend)

lemma safe_no_line: "sock_ok c \<Longrightarrow> safe (\<lambda>(c, _). sock_ok c) (no_line c)"
  by (auto simp: no_line_def intro: safe_then [OF safe_clear_sock])

lemma strtok_line_shorter: "strtok_line buf = Some (line, rest) \<Longrightarrow> length rest \<le> length buf"
  by (auto simp: strtok_line_def Let_def split: if_splits)

text \<open>
  C19. Whatever the socket gives, reading a line never writes or reads past the buffer, neither when a piece is appended, nor
  when the rest is moved down, one byte further than the string goes, nor when a socket is emptied.
\<close>

theorem recv_line_bounds:
  assumes "sock_ok c"
  shows "\<exists>c' sret. recv_line c = Returns (c', sret) \<and> sock_ok c'"
proof -
  have p: "safe (\<lambda>(c, _). sock_ok c) (take_token c)" if "sock_ok c" for c
    using that safe_no_line [OF that] strtok_line_shorter [of "sockbuf c"] by (fastforce simp: take_token_def sock_ok_def split: option.splits)
  have "safe (\<lambda>(c, _). sock_ok c) (recv_line c)"
    using assms p by (auto simp: recv_line_def socket_full_def safe_no_line intro: safe_then [OF safe_recv_loop p])
  then show ?thesis by (auto simp: safe_def)
qed


section \<open>Lines do not depend on the pieces\<close>

text \<open>What the buffer and the socket hold together, if all of it comes in time and nothing else.\<close>

definition piece :: "curl_recv \<Rightarrow> string" where
  "piece r = (case r of Received s _ \<Rightarrow> s | _ \<Rightarrow> [])"

definition flows :: "sock_state \<Rightarrow> bool" where
  "flows c \<longleftrightarrow> sock_ok c \<and> \<not> suspended c \<and> False \<notin> set (selects c) \<and>
     (\<forall>r\<in>set (curl_recvs c). \<exists>s w. r = Received s w \<and> s \<noteq> [] \<and> CHR 0x00 \<notin> set s \<and> w < DEFAULT_SOCKWAIT)"

definition stream :: "sock_state \<Rightarrow> string" where
  "stream c = sockbuf c @ concat (map piece (curl_recvs c))"

lemma recv_loop_flows:
  "sock_ok c \<Longrightarrow> \<forall>r\<in>set rs. \<exists>s w. r = Received s w \<and> s \<noteq> [] \<and> CHR 0x00 \<notin> set s \<and> w < DEFAULT_SOCKWAIT \<Longrightarrow>
   \<not> has_line (sockbuf c) \<Longrightarrow> has_line (sockbuf c @ concat (map piece rs)) \<Longrightarrow> curl_recvs c = rs \<Longrightarrow>
   \<exists>c'. recv_loop rs c = Returns c' \<and> sock_ok c' \<and> has_line (sockbuf c') \<and> stream c' = stream c \<and>
     set (curl_recvs c') \<subseteq> set rs \<and> suspended c' = suspended c \<and> selects c' = selects c"
proof (induction rs arbitrary: c)
  case (Cons r rs)
  obtain s w where r: "r = Received s w" "s \<noteq> []" "CHR 0x00 \<notin> set s" "w < DEFAULT_SOCKWAIT" using Cons.prems(2) by auto
  then have cut: "cut_nul s = s" by (auto simp: cut_nul_def takeWhile_eq_all_conv)
  let ?r = "recalloc_sock (length s) (c\<lparr>curl_recvs := rs\<rparr>)"
  let ?d = "?r\<lparr>sockbuf := sockbuf c @ s\<rparr>"
  have fits: "sock_ok ?r" "length (sockbuf c) + length s + 2 \<le> sockbuf_size ?r" "sockbuf ?r = sockbuf c"
    using recalloc_fits [of "c\<lparr>curl_recvs := rs\<rparr>" "length s"] Cons.prems(1) by auto
  have fields: "curl_recvs ?d = rs" "suspended ?d = suspended c" "selects ?d = selects c" by (auto simp: recalloc_sock_def Let_def)
  have d: "strcat_sock s ?r = Returns ?d" "sock_ok ?d" using fits by (auto simp: strcat_sock_def sock_ok_def)
  have st: "stream ?d = stream c" using Cons.prems(5) by (simp add: stream_def fields r piece_def)
  have step: "recv_loop (r # rs) c = (if \<not> has_line (sockbuf ?d) then recv_loop rs ?d else Returns ?d)"
    using r d(1) by (simp add: cut)
  show ?case
  proof (cases "has_line (sockbuf ?d)")
    case True
    then show ?thesis using step d(2) st fields by (auto intro!: exI [of _ ?d])
  next
    case False
    have "\<exists>c'. recv_loop rs ?d = Returns c' \<and> sock_ok c' \<and> has_line (sockbuf c') \<and> stream c' = stream ?d \<and>
      set (curl_recvs c') \<subseteq> set rs \<and> suspended c' = suspended ?d \<and> selects c' = selects ?d"
      by (rule Cons.IH) (use Cons.prems d(2) False fields r in \<open>auto simp: piece_def\<close>)
    then show ?thesis using step False st fields by auto
  qed
qed simp

lemma takeWhile_line: "CHR 0x0A \<notin> set line \<Longrightarrow> takeWhile (\<lambda>ch. ch \<noteq> CHR 0x0A) (line @ CHR 0x0A # rest) = line"
proof -
  assume "CHR 0x0A \<notin> set line"
  then have "\<forall>ch\<in>set line. ch \<noteq> CHR 0x0A" by blast
  then show ?thesis by (subst takeWhile_append2) simp_all
qed

lemma strtok_line_first:
  "CHR 0x0A \<notin> set line \<Longrightarrow> line \<noteq> [] \<Longrightarrow> strtok_line (line @ CHR 0x0A # rest) = Some (line, rest)"
proof -
  assume l: "CHR 0x0A \<notin> set line" "line \<noteq> []"
  have "takeWhile (\<lambda>ch. ch = CHR 0x0A) (line @ CHR 0x0A # rest) = []" using l by (cases line) auto
  then show "strtok_line (line @ CHR 0x0A # rest) = Some (line, rest)" using l by (simp add: strtok_line_def Let_def takeWhile_line)
qed

lemma first_line:
  assumes "has_line b" "b @ x = line @ CHR 0x0A # rest" "CHR 0x0A \<notin> set line"
  shows "\<exists>y. b = line @ CHR 0x0A # y \<and> rest = y @ x"
  using assms
proof (induction line arbitrary: b)
  case Nil
  then show ?case by (cases b) (auto simp: has_line_def)
next
  case (Cons a line)
  obtain b' where b: "b = a # b'" "b' @ x = line @ CHR 0x0A # rest" using Cons.prems(1,2) by (cases b) (auto simp: has_line_def)
  moreover have "has_line b'" using Cons.prems(1,3) b(1) by (simp add: has_line_def)
  ultimately obtain y where "b' = line @ CHR 0x0A # y \<and> rest = y @ x" using Cons.IH [of b'] Cons.prems(3) by auto
  then show ?case using b(1) by simp
qed

lemma recv_line_flows:
  assumes "flows c" "stream c = line @ CHR 0x0A # rest" "CHR 0x0A \<notin> set line" "line \<noteq> []" "selects c \<noteq> []"
  shows "\<exists>c'. recv_line c = Returns (c', Some line) \<and> flows c' \<and> stream c' = rest \<and> length (selects c) \<le> Suc (length (selects c'))"
proof -
  have token: "\<exists>c'. take_token d = Returns (c', Some line) \<and> flows c' \<and> stream c' = rest \<and> selects c' = selects d"
    if d: "flows d" "stream d = stream c" "has_line (sockbuf d)" for d
  proof -
    have "sockbuf d @ concat (map piece (curl_recvs d)) = line @ CHR 0x0A # rest" using d(2) assms(2) by (simp add: stream_def)
    from first_line [OF d(3) this assms(3)] obtain y where y: "sockbuf d = line @ CHR 0x0A # y" "rest = y @ concat (map piece (curl_recvs d))"
      by blast
    have "length (sockbuf d) + 2 \<le> sockbuf_size d" using d(1) by (simp add: flows_def sock_ok_def)
    then have "take_token d = Returns (d\<lparr>sockbuf := y\<rparr>, Some line)"
      unfolding take_token_def y(1) strtok_line_first [OF assms(3,4)] by simp
    moreover have "flows (d\<lparr>sockbuf := y\<rparr>)" using d(1) by (simp add: flows_def sock_ok_def y(1))
    moreover have "stream (d\<lparr>sockbuf := y\<rparr>) = rest" by (simp add: stream_def y(2))
    ultimately show ?thesis by (intro exI [of _ "d\<lparr>sockbuf := y\<rparr>"]) simp
  qed
  show ?thesis
  proof (cases "has_line (sockbuf c)")
    case True
    then show ?thesis using token [OF assms(1) refl True] by (auto simp: recv_line_def)
  next
    case False
    obtain bs where b: "selects c = True # bs" using assms(1,5) by (cases "selects c") (auto simp: flows_def)
    have "has_line (sockbuf c @ concat (map piece (curl_recvs c)))" using assms(2) by (simp add: stream_def has_line_def)
    then obtain d where d: "recv_loop (curl_recvs c) (c\<lparr>selects := bs\<rparr>) = Returns d" "sock_ok d" "has_line (sockbuf d)"
      "stream d = stream (c\<lparr>selects := bs\<rparr>)" "set (curl_recvs d) \<subseteq> set (curl_recvs c)" "suspended d = suspended c" "selects d = bs"
      using recv_loop_flows [of "c\<lparr>selects := bs\<rparr>" "curl_recvs c"] assms(1) False by (auto simp: flows_def)
    have "flows d" "stream d = stream c" using d assms(1) b by (auto simp: flows_def stream_def)
    from token [OF this d(3)] show ?thesis using False d(1,7) b by (auto simp: recv_line_def socket_full_def)
  qed
qed

text \<open>
  C11. The lines that come out are the lines that were sent, in whatever pieces the network delivers them: if a stream is made of
  lines that are not empty and comes in time, reading gives line after line, nothing is lost, and what follows them is still there.
\<close>

theorem recv_lines_of_stream:
  assumes "flows c" "stream c = concat (map (\<lambda>l. l @ [CHR 0x0A]) ls) @ rest" "\<forall>l\<in>set ls. l \<noteq> [] \<and> CHR 0x0A \<notin> set l"
    "length ls \<le> length (selects c)"
  shows "\<exists>c'. recv_lines (length ls) c = Returns (c', ls) \<and> flows c' \<and> stream c' = rest"
  using assms
proof (induction ls arbitrary: c)
  case (Cons l ls)
  have "selects c \<noteq> []" "stream c = l @ CHR 0x0A # concat (map (\<lambda>l. l @ [CHR 0x0A]) ls) @ rest" "CHR 0x0A \<notin> set l" "l \<noteq> []"
    using Cons.prems(2-4) by auto
  from recv_line_flows [OF Cons.prems(1) this(2-4,1)] obtain d where d: "recv_line c = Returns (d, Some l)" "flows d" "stream d = concat (map (\<lambda>l. l @ [CHR 0x0A]) ls) @ rest"
    "length (selects c) \<le> Suc (length (selects d))" by blast
  obtain c' where "recv_lines (length ls) d = Returns (c', ls)" "flows c'" "stream c' = rest"
    using Cons.IH [OF d(2,3)] Cons.prems(3,4) d(4) by auto
  then show ?case by (simp add: d(1))
qed simp

text \<open>
  C26. An empty line loses the lines after it: the line behind a line feed is returned, but the buffer is moved as if it had begun at its
  start, so that it begins with the zero \<^verbatim>\<open>strtok\<close> wrote, and what else had been read is gone.
\<close>

theorem recv_line_empty_line_loses:
  assumes "sock_ok c" "sockbuf c = CHR 0x0A # line @ CHR 0x0A # rest" "CHR 0x0A \<notin> set line" "line \<noteq> []"
  shows "recv_line c = Returns (c\<lparr>sockbuf := []\<rparr>, Some line)"
proof -
  have i: "length (takeWhile (\<lambda>ch. ch = CHR 0x0A) (sockbuf c)) = 1" using assms(3,4) by (cases line) (auto simp: assms(2))
  have l: "takeWhile (\<lambda>ch. ch \<noteq> CHR 0x0A) (drop 1 (sockbuf c)) = line" using assms(3) by (simp add: assms(2) takeWhile_line)
  have "strtok_line (sockbuf c) = Some (line, [])"
    unfolding strtok_line_def Let_def i l using assms(4) by (auto simp: assms(2))
  then show ?thesis using assms(1,2) by (simp add: recv_line_def take_token_def has_line_def sock_ok_def)
qed


section \<open>A connection\<close>

text \<open>Two lines in three pieces, the second cut in the middle.\<close>

definition example_sock :: sock_state where
  "example_sock = \<lparr>sockbuf = [], sockbuf_size = RBUFSIZE, selects = [True, True],
     curl_recvs = [Received ''ab'' 0, Received [CHR ''c'', CHR 0x0A, CHR ''d''] 1, Received [CHR ''e'', CHR 0x0A, CHR ''f''] 0], suspended = False\<rparr>"

lemma example_sock_ok: "sock_ok example_sock"
  by (simp add: sock_ok_def example_sock_def RBUFSIZE_def)

theorem recv_line_bounds_witness: "\<exists>c' sret. recv_line example_sock = Returns (c', sret) \<and> sock_ok c'"
  by (rule recv_line_bounds [OF example_sock_ok])

theorem recv_lines_of_stream_witness:
  "\<exists>c'. recv_lines 2 example_sock = Returns (c', [''abc'', ''de'']) \<and> stream c' = ''f''"
proof -
  have "flows example_sock" "stream example_sock = concat (map (\<lambda>l. l @ [CHR 0x0A]) [''abc'', ''de'']) @ ''f''"
    using example_sock_ok by (simp_all add: flows_def stream_def example_sock_def piece_def DEFAULT_SOCKWAIT_def)
  from recv_lines_of_stream [OF this] show ?thesis by (auto simp: example_sock_def numeral_2_eq_2)
qed

theorem recv_line_empty_line_loses_witness:
  "\<exists>c. sockbuf c = CHR 0x0A # ''a'' @ CHR 0x0A # ''b'' \<and> recv_line c = Returns (c\<lparr>sockbuf := []\<rparr>, Some ''a'')"
proof -
  let ?c = "example_sock\<lparr>sockbuf := CHR 0x0A # ''a'' @ CHR 0x0A # ''b''\<rparr>"
  have "sock_ok ?c" by (simp add: sock_ok_def example_sock_def RBUFSIZE_def)
  from recv_line_empty_line_loses [OF this, of "''a''" "''b''"] show ?thesis by (intro exI [of _ ?c]) simp
qed

end
