(* ===== verification/ApiAccess.thy ===== *)
theory ApiAccess
  imports ApiPools StratumMsgs
begin

text \<open>
  Who may call what over the RPC interface (\<^verbatim>\<open>api.c\<close>): the table of commands, the groups of \<^verbatim>\<open>--api-groups\<close>, the
  addresses of \<^verbatim>\<open>--api-allow\<close>, the check of a connection, and the way a request goes to its commands. A
  group is the character of its name; the string of its commands is looked up as the code does it.
\<close>

section \<open>Pieces of strings\<close>

text \<open>The pieces between the characters \<open>c\<close>, empty ones too.\<close>

fun split_on :: "char \<Rightarrow> string \<Rightarrow> string list" where
  "split_on c [] = [[]]"
| "split_on c (x # xs) = (if x = c then [] # split_on c xs else (x # hd (split_on c xs)) # tl (split_on c xs))"

text \<open>The loops that stop at the end of the string see no empty last piece.\<close>

definition pieces :: "char \<Rightarrow> string \<Rightarrow> string list" where
  "pieces c s = (let ps = split_on c s in if last ps = [] then butlast ps else ps)"

definition toupper :: "char \<Rightarrow> char" where
  "toupper c = (if ord CHR ''a'' \<le> ord c \<and> ord c \<le> ord CHR ''z'' then char_of (ord c - 32) else c)"

section \<open>Commands and groups\<close>

record api_command =
  cmd_name :: string
  iswritemode :: bool
  joinable :: bool

definition cmd_entry :: "string \<Rightarrow> bool \<Rightarrow> bool \<Rightarrow> api_command" where
  "cmd_entry name w j = \<lparr>cmd_name = name, iswritemode = w, joinable = j\<rparr>"

text \<open>What the program was built with decides which commands exist.\<close>

record api_build =
  with_opencl :: bool
  with_fpga :: bool
  with_cpu :: bool

definition cmds :: "api_build \<Rightarrow> api_command list" where
  "cmds B =
     [cmd_entry ''version'' False True, cmd_entry ''config'' False True, cmd_entry ''devscan'' True False,
      cmd_entry ''devs'' False True, cmd_entry ''procs'' False True, cmd_entry ''pools'' False True,
      cmd_entry ''summary'' False True] @
     (if with_opencl B then
     [cmd_entry ''gpuenable'' True False, cmd_entry ''gpudisable'' True False, cmd_entry ''gpurestart'' True False,
      cmd_entry ''gpu'' False False] else []) @
     (if with_fpga B then
     [cmd_entry ''pga'' False False, cmd_entry ''pgaenable'' True False, cmd_entry ''pgadisable'' True False,
      cmd_entry ''pgarestart'' True False, cmd_entry ''pgaidentify'' True False, cmd_entry ''proc'' False False,
      cmd_entry ''procenable'' True False, cmd_entry ''procdisable'' True False, cmd_entry ''procidentify'' True False] else []) @
     (if with_cpu B then
     [cmd_entry ''cpuenable'' True False, cmd_entry ''cpudisable'' True False, cmd_entry ''cpurestart'' True False,
      cmd_entry ''cpu'' False False] else []) @
     [cmd_entry ''gpucount'' False True, cmd_entry ''pgacount'' False True, cmd_entry ''proccount'' False True,
      cmd_entry ''cpucount'' False True, cmd_entry ''switchpool'' True False, cmd_entry ''addpool'' True False,
      cmd_entry ''poolpriority'' True False, cmd_entry ''poolquota'' True False, cmd_entry ''enablepool'' True False,
      cmd_entry ''disablepool'' True False, cmd_entry ''removepool'' True False] @
     (if with_opencl B then
     [cmd_entry ''gpuintensity'' True False, cmd_entry ''gpumem'' True False, cmd_entry ''gpuengine'' True False,
      cmd_entry ''gpufan'' True False, cmd_entry ''gpuvddc'' True False] else []) @
     [cmd_entry ''save'' True False, cmd_entry ''quit'' True False, cmd_entry ''privileged'' True False,
      cmd_entry ''notify'' False True, cmd_entry ''procnotify'' False True, cmd_entry ''devdetails'' False True,
      cmd_entry ''procdetails'' False True, cmd_entry ''restart'' True False, cmd_entry ''stats'' False True,
      cmd_entry ''check'' False False, cmd_entry ''failover-only'' True False, cmd_entry ''coin'' False True,
      cmd_entry ''debug'' True False, cmd_entry ''setconfig'' True False] @
     (if with_fpga B then [cmd_entry ''pgaset'' True False, cmd_entry ''procset'' True False] else []) @
     [cmd_entry ''zero'' True False]"

definition PRIVGROUP :: char where
  "PRIVGROUP = CHR ''W''"

definition NOPRIVGROUP :: char where
  "NOPRIVGROUP = CHR ''R''"

definition VALIDGROUP :: "char \<Rightarrow> bool" where
  "VALIDGROUP g \<longleftrightarrow> ord CHR ''A'' \<le> ord (toupper g) \<and> ord (toupper g) \<le> ord CHR ''Z''"

type_synonym api_groups = "char \<Rightarrow> string option"

text \<open>A command as it stands in the string of a group, which begins with a separator.\<close>

definition cmd_item :: "string \<Rightarrow> string" where
  "cmd_item name = ''|'' @ name @ ''|''"

definition add_command :: "string \<Rightarrow> string \<Rightarrow> string" where
  "add_command commands name = (if strstr commands (cmd_item name) = None then commands @ name @ ''|'' else commands)"

definition add_read_commands :: "api_build \<Rightarrow> string \<Rightarrow> string" where
  "add_read_commands B commands = fold (\<lambda>c s. if \<not> iswritemode c then add_command s (cmd_name c) else s) (cmds B) commands"

text \<open>The words of one group; an unknown one ends the program, which is \<open>None\<close>.\<close>

fun group_commands :: "api_build \<Rightarrow> string list \<Rightarrow> string \<Rightarrow> bool \<Rightarrow> string option" where
  "group_commands B [] commands addstar = Some (if addstar then add_read_commands B commands else commands)"
| "group_commands B (w # ws) commands addstar =
     (if w = ''*'' then group_commands B ws commands True
      else case List.find (\<lambda>c. strcaseeq w (cmd_name c)) (cmds B) of
             None \<Rightarrow> None
           | Some c \<Rightarrow> group_commands B ws (add_command commands (cmd_name c)) addstar)"

definition setup_group :: "api_build \<Rightarrow> string \<Rightarrow> api_groups \<Rightarrow> api_groups option" where
  "setup_group B ptr groups =
     (let grp = toupper (chat ptr 0)
      in if chat ptr 1 \<noteq> CHR '':'' then None
         else if \<not> VALIDGROUP grp then None
         else if grp = PRIVGROUP then None
         else if grp = NOPRIVGROUP then None
         else if groups grp \<noteq> None then None
         else case group_commands B (pieces CHR '':'' (drop 2 ptr)) ''|'' False of
                None \<Rightarrow> None
              | Some commands \<Rightarrow> Some (groups(grp \<mapsto> commands)))"

fun setup_groups_from :: "api_build \<Rightarrow> string list \<Rightarrow> api_groups \<Rightarrow> api_groups option" where
  "setup_groups_from B [] groups = Some groups"
| "setup_groups_from B (ptr # next) groups =
     (case setup_group B ptr groups of
        None \<Rightarrow> None
      | Some groups \<Rightarrow> setup_groups_from B next groups)"

definition noprivs :: "api_build \<Rightarrow> string" where
  "noprivs B = ''|'' @ concat (map (\<lambda>c. cmd_name c @ ''|'') (filter (\<lambda>c. \<not> iswritemode c) (cmds B)))"

definition setup_groups :: "api_build \<Rightarrow> string option \<Rightarrow> api_groups option" where
  "setup_groups B opt_api_groups =
     map_option (\<lambda>groups. groups(NOPRIVGROUP \<mapsto> noprivs B))
       (setup_groups_from B (pieces CHR '','' (case opt_api_groups of None \<Rightarrow> [] | Some s \<Rightarrow> s)) (\<lambda>_. None))"

text \<open>The test in front of every command; a group without a string would be a null pointer.\<close>

definition command_allowed :: "api_groups \<Rightarrow> char \<Rightarrow> string \<Rightarrow> bool outcome" where
  "command_allowed groups grp name =
     (if toupper grp = PRIVGROUP then Returns True
      else case groups (toupper grp) of
             None \<Rightarrow> Undefined
           | Some commands \<Rightarrow> Returns (strstr commands (cmd_item name) \<noteq> None))"

section \<open>Addresses\<close>

record ip4access =
  ac_ip :: u32
  ac_mask :: u32
  ac_group :: char

text \<open>
  The mask of a prefix of \<open>n\<close> bits, bit after bit. The loop makes one round too many, in which both shifts have a
  negative or too large count: what C gives for them is the argument \<open>overshift\<close>.
\<close>

fun netmask :: "u32 \<Rightarrow> nat \<Rightarrow> u32 \<Rightarrow> u32" where
  "netmask overshift 0 m = m OR overshift"
| "netmask overshift (Suc k) m = netmask overshift k (m OR push_bit (24 - 8 * (k div 8)) (push_bit (k mod 8) 1))"

fun read_octets :: "nat \<Rightarrow> string list \<Rightarrow> u32 \<Rightarrow> u32 option" where
  "read_octets i [] ip = Some ip"
| "read_octets i (s # ss) ip =
     (let octet = atoi s
      in if octet < 0 \<or> octet > 0xff then None
         else read_octets (Suc i) ss (ip OR push_bit (24 - i * 8) (word_of_int octet)))"

text \<open>One entry; \<open>None\<close> if it is skipped.\<close>

definition ipaccess_entry :: "u32 \<Rightarrow> api_groups \<Rightarrow> string \<Rightarrow> ip4access option" where
  "ipaccess_entry overshift groups ptr =
     (let named = (VALIDGROUP (chat ptr 0) \<and> chat ptr 1 = CHR '':'');
          g = toupper (chat ptr 0);
          grp = (if named \<and> (g = PRIVGROUP \<or> groups g \<noteq> None) then g else NOPRIVGROUP);
          ptr = (if named then drop 2 ptr else ptr)
      in if ptr = ''0/0'' then Some \<lparr>ac_ip = 0, ac_mask = 0, ac_group = grp\<rparr>
         else let parts = split_on CHR ''/'' ptr;
                  slash = (tl parts \<noteq> []);
                  bits = atoi (drop (Suc (length (hd parts))) ptr);
                  mask = (if slash then netmask overshift (nat bits) 0 else 0xffffffff)
              in if slash \<and> (bits < 1 \<or> bits > 32) then None
                 else case read_octets 0 (take 4 (split_on CHR ''.'' (hd parts))) 0 of
                        None \<Rightarrow> None
                      | Some ip \<Rightarrow> Some \<lparr>ac_ip = ip AND mask, ac_mask = mask, ac_group = grp\<rparr>)"

definition skip_blanks :: "string \<Rightarrow> string" where
  "skip_blanks s = dropWhile (\<lambda>c. c = CHR '' '' \<or> c = CHR 0x09) s"

function setup_ipaccess :: "u32 \<Rightarrow> api_groups \<Rightarrow> string \<Rightarrow> ip4access list" where
  "setup_ipaccess overshift groups ptr =
     (if ptr = [] then []
      else let ptr = skip_blanks ptr
           in if chat ptr 0 = CHR '','' then setup_ipaccess overshift groups (tl ptr)
              else let entry = takeWhile (\<lambda>c. c \<noteq> CHR '','') ptr;
                       rest = setup_ipaccess overshift groups (drop (Suc (length entry)) ptr)
                   in case ipaccess_entry overshift groups entry of None \<Rightarrow> rest | Some e \<Rightarrow> e # rest)"
  by pat_completeness auto
termination
proof (relation "measure (\<lambda>(_, _, ptr). length ptr)", goal_cases)
  case (2 overshift groups ptr x)
  have "length x \<le> length ptr" by (simp add: 2 skip_blanks_def length_dropWhile_le)
  moreover have "x \<noteq> []" using 2(3) by (auto simp: chat_def)
  ultimately show ?case by (cases x) auto
next
  case (3 overshift groups ptr x xa)
  have "length x \<le> length ptr" by (simp add: 3 skip_blanks_def length_dropWhile_le)
  with 3(1) show ?case by (cases ptr) auto
qed simp

declare setup_ipaccess.simps [simp del]

definition inet_ntoa :: "u32 \<Rightarrow> string" where
  "inet_ntoa ip =
     (let octet = (\<lambda>n. nat_text (unat (drop_bit n ip AND 0xff)))
      in octet 24 @ ''.'' @ octet 16 @ ''.'' @ octet 8 @ ''.'' @ octet 0)"

definition localaddr :: string where
  "localaddr = ''127.0.0.1''"

text \<open>The first entry that fits decides. Without a list the group is the one that reads.\<close>

fun find_access :: "u32 \<Rightarrow> ip4access list \<Rightarrow> bool \<times> char" where
  "find_access client_ip [] = (False, NOPRIVGROUP)"
| "find_access client_ip (e # es) =
     (if client_ip AND ac_mask e = ac_ip e then (True, ac_group e) else find_access client_ip es)"

record api_options =
  opt_api_allow :: bool
  opt_api_network :: bool
  ipaccess :: "ip4access list"

definition check_connect :: "api_options \<Rightarrow> u32 \<Rightarrow> bool \<times> char" where
  "check_connect opt cli =
     (if opt_api_allow opt then find_access cli (ipaccess opt)
      else if opt_api_network opt then (True, NOPRIVGROUP)
      else (inet_ntoa cli = localaddr, NOPRIVGROUP))"

section \<open>Requests\<close>

text \<open>What a request does, in order: commands run with their parameter, and the replies that are no command's own.\<close>

datatype api_event =
  API_RUN string "string option"
| API_ACCDENY string
| API_INVCMD
| API_INVJSON
| API_MISCMD
| API_JOIN_HEAD string
| API_JOIN_TAIL
| API_SEND_RESULT

text \<open>One command of a request; \<open>done\<close> holds the commands of a joined request so far.\<close>

definition run_command ::
  "api_build \<Rightarrow> api_groups \<Rightarrow> char \<Rightarrow> bool \<Rightarrow> string option \<Rightarrow> string \<Rightarrow> string \<Rightarrow> (api_event list \<times> string) outcome"
where
  "run_command B groups grp isjoin param cmdptr cmdsbuf =
     (let head = (if isjoin then [API_JOIN_HEAD cmdptr] else []);
          tail = (if isjoin then [API_JOIN_TAIL] else [API_SEND_RESULT])
      in case List.find (\<lambda>c. cmd_name c = cmdptr) (cmds B) of
           None \<Rightarrow> Returns (head @ [API_INVCMD] @ tail, cmdsbuf)
         | Some c \<Rightarrow>
             if isjoin \<and> strstr cmdsbuf (cmd_item cmdptr) \<noteq> None then Returns ([], cmdsbuf)
             else let cmdsbuf = (if isjoin then cmdsbuf @ cmdptr @ ''|'' else cmdsbuf)
                  in if isjoin \<and> \<not> joinable c then Returns (head @ [API_ACCDENY (cmd_name c)] @ tail, cmdsbuf)
                     else and_then (command_allowed groups grp cmdptr) (\<lambda>ok.
                       Returns (head @ [if ok then API_RUN (cmd_name c) param else API_ACCDENY (cmd_name c)] @ tail, cmdsbuf)))"

fun run_joined :: "api_build \<Rightarrow> api_groups \<Rightarrow> char \<Rightarrow> string list \<Rightarrow> string \<Rightarrow> api_event list outcome" where
  "run_joined B groups grp [] cmdsbuf = Returns []"
| "run_joined B groups grp (cmdptr # ps) cmdsbuf =
     (if cmdptr = [] then run_joined B groups grp ps cmdsbuf
      else and_then (run_command B groups grp True None cmdptr cmdsbuf) (\<lambda>(events, cmdsbuf).
        and_then (run_joined B groups grp ps cmdsbuf) (\<lambda>more_events. Returns (events @ more_events))))"

definition run_commands :: "api_build \<Rightarrow> api_groups \<Rightarrow> char \<Rightarrow> string \<Rightarrow> string option \<Rightarrow> api_event list outcome" where
  "run_commands B groups grp cmd param =
     (if CHR ''+'' \<in> set cmd
      then and_then (run_joined B groups grp (split_on CHR ''+'' cmd) ''|'') (\<lambda>events. Returns (events @ [API_SEND_RESULT]))
      else and_then (run_command B groups grp False param cmd []) (\<lambda>(events, _). Returns events))"

text \<open>The parameter of a JSON request: a text, an integer or a real number as C prints it.\<close>

definition json_param :: "'j jansson \<Rightarrow> (rat \<Rightarrow> string) \<Rightarrow> 'j option \<Rightarrow> string option" where
  "json_param J print_f json_val =
     (case json_val of
        None \<Rightarrow> None
      | Some v \<Rightarrow>
          if is_string J v then Some (string_value J v)
          else if is_integer J v then Some (int_text (int_of_long (integer_value J v)))
          else if is_number J v then Some (print_f (double_value J v))
          else None)"

definition api_request ::
  "api_build \<Rightarrow> api_groups \<Rightarrow> 'j jansson \<Rightarrow> (rat \<Rightarrow> string) \<Rightarrow> char \<Rightarrow> string \<Rightarrow> api_event list outcome"
where
  "api_request B groups J print_f grp buf =
     (if chat buf 0 \<noteq> CHR 0x7B then
        (let cmd = takeWhile (\<lambda>c. c \<noteq> CHR ''|'') buf
         in run_commands B groups grp cmd (if CHR ''|'' \<in> set buf then Some (drop (Suc (length cmd)) buf) else None))
      else if \<not> json_is (is_object J) (loads J buf) then Returns [API_INVJSON, API_SEND_RESULT]
      else let json_config = loads J buf
           in case jobject_get J json_config ''command'' of
                None \<Rightarrow> Returns [API_MISCMD, API_SEND_RESULT]
              | Some v \<Rightarrow>
                  if \<not> is_string J v then Returns [API_INVCMD, API_SEND_RESULT]
                  else run_commands B groups grp (string_value J v) (json_param J print_f (jobject_get J json_config ''parameter'')))"

text \<open>A connection from the address \<open>cli\<close>; \<open>None\<close> as the request is a failed read.\<close>

definition api_connection ::
  "api_build \<Rightarrow> api_groups \<Rightarrow> api_options \<Rightarrow> 'j jansson \<Rightarrow> (rat \<Rightarrow> string) \<Rightarrow> u32 \<Rightarrow> string option \<Rightarrow> api_event list outcome"
where
  "api_connection B groups opt J print_f cli request =
     (let (addrok, grp) = check_connect opt cli
      in case request of
           None \<Rightarrow> Returns []
         | Some buf \<Rightarrow> if addrok then api_request B groups J print_f grp buf else Returns [])"

text \<open>The command \<^verbatim>\<open>check\<close>: does a command exist, and may the caller run it? \<open>None\<close> without a parameter.\<close>

definition checkcommand :: "api_build \<Rightarrow> api_groups \<Rightarrow> char \<Rightarrow> string option \<Rightarrow> (bool \<times> bool) option outcome" where
  "checkcommand B groups grp param =
     (case param of
        None \<Rightarrow> Returns None
      | Some p \<Rightarrow>
          if p = [] then Returns None
          else if list_ex (\<lambda>c. cmd_name c = p) (cmds B)
               then and_then (command_allowed groups grp p) (\<lambda>access. Returns (Some (True, access)))
               else Returns (Some (False, False)))"


section \<open>What the groups allow\<close>

lemma is_prefix_append: "is_prefix p (p @ s)"
  by (induction p) auto

lemma is_prefix_item:
  "CHR ''|'' \<notin> set a \<Longrightarrow> CHR ''|'' \<notin> set c \<Longrightarrow> is_prefix (a @ ''|'') (c @ CHR ''|'' # r) \<longleftrightarrow> a = c"
  by (induction a c rule: list_induct2') auto

lemma strstr_skip_item: "CHR ''|'' \<notin> set c \<Longrightarrow> strstr (c @ s) (CHR ''|'' # n) = None \<longleftrightarrow> strstr s (CHR ''|'' # n) = None"
  by (induction c) auto

text \<open>The string of a list of commands.\<close>

definition item_text :: "string list \<Rightarrow> string" where
  "item_text cs = ''|'' @ concat (map (\<lambda>n. n @ ''|'') cs)"

lemma item_text_Cons: "item_text (c # cs) = CHR ''|'' # c @ item_text cs"
  by (simp add: item_text_def)

lemma item_text_snoc: "item_text (cs @ [c]) = item_text cs @ c @ ''|''"
  by (simp add: item_text_def)

lemma strstr_item_text:
  assumes "CHR ''|'' \<notin> set n" "\<forall>c\<in>set cs. CHR ''|'' \<notin> set c"
  shows "strstr (item_text cs) (cmd_item n) \<noteq> None \<longleftrightarrow> n \<in> set cs"
  using assms(2)
proof (induction cs)
  case Nil
  have "\<not> is_prefix (n @ ''|'') []" by (cases n) auto
  then show ?case by (simp add: item_text_def cmd_item_def)
next
  case (Cons c cs)
  obtain r where r: "item_text cs = CHR ''|'' # r" by (simp add: item_text_def)
  have "is_prefix (n @ ''|'') (c @ item_text cs) \<longleftrightarrow> n = c" using assms(1) Cons.prems by (simp add: r is_prefix_item)
  moreover have "strstr (c @ item_text cs) (cmd_item n) = None \<longleftrightarrow> strstr (item_text cs) (cmd_item n) = None"
    using Cons.prems by (simp add: cmd_item_def strstr_skip_item)
  ultimately show ?case using Cons by (auto simp: item_text_Cons cmd_item_def)
qed

definition command_names :: "api_build \<Rightarrow> string set" where
  "command_names B = cmd_name ` set (cmds B)"

definition write_command :: "api_build \<Rightarrow> string \<Rightarrow> bool" where
  "write_command B name \<longleftrightarrow> (\<exists>c\<in>set (cmds B). cmd_name c = name \<and> iswritemode c)"

lemma command_name_plain: "c \<in> set (cmds B) \<Longrightarrow> CHR ''|'' \<notin> set (cmd_name c)"
  by (auto simp: cmds_def cmd_entry_def split: if_splits)

lemma command_names_plain: "n \<in> command_names B \<Longrightarrow> CHR ''|'' \<notin> set n"
  using command_name_plain by (auto simp: command_names_def)

lemma command_names_distinct: "distinct (map cmd_name (cmds B))"
  by (cases "with_opencl B"; cases "with_fpga B"; cases "with_cpu B") (simp_all add: cmds_def cmd_entry_def)

lemma write_command_unique: "write_command B (cmd_name c) \<Longrightarrow> c \<in> set (cmds B) \<Longrightarrow> iswritemode c"
  using command_names_distinct [of B] by (auto simp: write_command_def distinct_map dest: inj_onD)

text \<open>A string lists commands; those that write are in the set \<open>W\<close>.\<close>

definition lists_commands :: "api_build \<Rightarrow> string set \<Rightarrow> string \<Rightarrow> bool" where
  "lists_commands B W t \<longleftrightarrow> (\<exists>cs. t = item_text cs \<and> set cs \<subseteq> command_names B \<and> (\<forall>n\<in>set cs. write_command B n \<longrightarrow> n \<in> W))"

lemma lists_commands_allowed:
  assumes "lists_commands B W t" "n \<in> command_names B" "strstr t (cmd_item n) \<noteq> None" "write_command B n"
  shows "n \<in> W"
proof -
  obtain cs where cs: "t = item_text cs" "set cs \<subseteq> command_names B" "\<forall>n\<in>set cs. write_command B n \<longrightarrow> n \<in> W"
    using assms(1) by (auto simp: lists_commands_def)
  have "n \<in> set cs" using strstr_item_text [of n cs] assms(2,3) cs command_names_plain by blast
  then show ?thesis using cs(3) assms(4) by blast
qed

lemma lists_add_command:
  assumes "lists_commands B W t" "n \<in> command_names B" "write_command B n \<Longrightarrow> n \<in> W"
  shows "lists_commands B W (add_command t n)"
proof -
  obtain cs where "t = item_text cs" "set cs \<subseteq> command_names B" "\<forall>n\<in>set cs. write_command B n \<longrightarrow> n \<in> W"
    using assms(1) by (auto simp: lists_commands_def)
  moreover from this have "set (cs @ [n]) \<subseteq> command_names B \<and> (\<forall>m\<in>set (cs @ [n]). write_command B m \<longrightarrow> m \<in> W)"
    using assms(2,3) by auto
  ultimately show ?thesis unfolding lists_commands_def add_command_def by (metis item_text_snoc)
qed

lemma lists_read_commands: "lists_commands B W t \<Longrightarrow> lists_commands B W (add_read_commands B t)"
proof -
  have "lists_commands B W (fold (\<lambda>c s. if \<not> iswritemode c then add_command s (cmd_name c) else s) xs t)"
    if "lists_commands B W t" "set xs \<subseteq> set (cmds B)" for xs t
    using that
  proof (induction xs arbitrary: t)
    case (Cons c xs)
    have "lists_commands B W (if \<not> iswritemode c then add_command t (cmd_name c) else t)"
      using Cons.prems write_command_unique [of B c] by (auto intro!: lists_add_command simp: command_names_def)
    then show ?case using Cons by simp
  qed simp
  then show "lists_commands B W t \<Longrightarrow> lists_commands B W (add_read_commands B t)" by (simp add: add_read_commands_def)
qed

lemma lists_group_commands:
  "group_commands B ws t star = Some u \<Longrightarrow> lists_commands B W t \<Longrightarrow> {n. \<exists>w\<in>set ws. strcaseeq w n} \<subseteq> W \<Longrightarrow> lists_commands B W u"
proof (induction B ws t star arbitrary: u rule: group_commands.induct)
  case (1 B t star)
  then show ?case by (auto intro: lists_read_commands split: if_splits)
next
  case (2 B w ws t star)
  show ?case
  proof (cases "w = ''*''")
    case True
    then show ?thesis using 2 by auto
  next
    case False
    then obtain c where c: "List.find (\<lambda>c. strcaseeq w (cmd_name c)) (cmds B) = Some c"
      "group_commands B ws (add_command t (cmd_name c)) star = Some u" using "2.prems"(1) by (auto split: option.splits)
    then have "c \<in> set (cmds B)" "strcaseeq w (cmd_name c)" by (auto simp: find_Some_iff)
    then have "lists_commands B W (add_command t (cmd_name c))"
      using "2.prems"(2,3) by (intro lists_add_command) (auto simp: command_names_def)
    from "2.IH"(2) [OF False c(1) c(2) this] "2.prems"(3) show ?thesis by auto
  qed
qed

text \<open>The text of \<^verbatim>\<open>--api-groups\<close> names a command in a group.\<close>

definition group_names :: "string option \<Rightarrow> char \<Rightarrow> string \<Rightarrow> bool" where
  "group_names opt g n \<longleftrightarrow>
     (\<exists>ptr\<in>set (pieces CHR '','' (case opt of None \<Rightarrow> [] | Some s \<Rightarrow> s)).
        toupper (chat ptr 0) = g \<and> (\<exists>w\<in>set (pieces CHR '':'' (drop 2 ptr)). strcaseeq w n))"

lemma lists_Nil: "lists_commands B W ''|''"
  by (auto simp: lists_commands_def item_text_def intro: exI [of _ "[]"])

lemma setup_group_lists:
  assumes "setup_group B ptr groups = Some groups'" "groups' g = Some t" "groups g = Some t \<Longrightarrow> lists_commands B (W g) t"
    "\<And>w n. toupper (chat ptr 0) = g \<Longrightarrow> w \<in> set (pieces CHR '':'' (drop 2 ptr)) \<Longrightarrow> strcaseeq w n \<Longrightarrow> n \<in> W g"
  shows "lists_commands B (W g) t"
proof (cases "toupper (chat ptr 0) = g")
  case True
  obtain u where u: "group_commands B (pieces CHR '':'' (drop 2 ptr)) ''|'' False = Some u" "groups' = groups(g \<mapsto> u)"
    using assms(1) True by (auto simp: setup_group_def Let_def split: if_splits option.splits)
  have "lists_commands B (W g) u" by (rule lists_group_commands [OF u(1) lists_Nil]) (use assms(4) True in auto)
  then show ?thesis using assms(2) u(2) by simp
next
  case False
  then have "groups' g = groups g" using assms(1) by (auto simp: setup_group_def Let_def split: if_splits option.splits)
  then show ?thesis using assms(2,3) by simp
qed

lemma setup_groups_from_lists:
  "setup_groups_from B ps groups = Some groups' \<Longrightarrow> groups' g = Some t \<Longrightarrow> (\<And>t. groups g = Some t \<Longrightarrow> lists_commands B (W g) t) \<Longrightarrow>
   (\<And>ptr w n. ptr \<in> set ps \<Longrightarrow> toupper (chat ptr 0) = g \<Longrightarrow> w \<in> set (pieces CHR '':'' (drop 2 ptr)) \<Longrightarrow> strcaseeq w n \<Longrightarrow> n \<in> W g) \<Longrightarrow>
   lists_commands B (W g) t"
proof (induction ps arbitrary: groups)
  case (Cons ptr ps)
  obtain u where u: "setup_group B ptr groups = Some u" "setup_groups_from B ps u = Some groups'"
    using Cons.prems(1) by (auto split: option.splits)
  have "lists_commands B (W g) t'" if "u g = Some t'" for t'
    by (rule setup_group_lists [OF u(1) that]) (use Cons.prems(3,4) in auto)
  then show ?case by (rule Cons.IH [OF u(2) Cons.prems(2)]) (use Cons.prems(4) in auto)
qed simp

lemma noprivs_text: "noprivs B = item_text (map cmd_name (filter (\<lambda>c. \<not> iswritemode c) (cmds B)))"
  by (simp add: noprivs_def item_text_def comp_def)

lemma setup_groups_lists:
  assumes "setup_groups B opt = Some groups" "groups g = Some t"
  shows "lists_commands B {n. g \<noteq> NOPRIVGROUP \<and> group_names opt g n} t"
proof (cases "g = NOPRIVGROUP")
  case True
  then have t: "t = noprivs B" using assms by (auto simp: setup_groups_def)
  show ?thesis unfolding t noprivs_text lists_commands_def
    using write_command_unique by (intro exI conjI refl) (auto simp: command_names_def)
next
  case False
  obtain groups' where g: "setup_groups_from B (pieces CHR '','' (case opt of None \<Rightarrow> [] | Some s \<Rightarrow> s)) (\<lambda>_. None) = Some groups'"
    "groups = groups'(NOPRIVGROUP \<mapsto> noprivs B)" using assms(1) by (auto simp: setup_groups_def)
  have "lists_commands B {n. group_names opt g n} t"
    by (rule setup_groups_from_lists [OF g(1), where W = "\<lambda>g. {n. group_names opt g n}"])
      (use assms(2) False g(2) in \<open>auto simp: group_names_def\<close>)
  then show ?thesis using False by simp
qed


lemma run_command_runs:
  assumes "run_command B groups grp isjoin param cmdptr buf = Returns (events, buf')" "API_RUN name p \<in> set events"
  shows "name \<in> command_names B \<and> command_allowed groups grp name = Returns True"
proof (cases "List.find (\<lambda>c. cmd_name c = cmdptr) (cmds B)")
  case None
  then show ?thesis using assms by (auto simp: run_command_def Let_def split: if_splits)
next
  case (Some c)
  then have c: "c \<in> set (cmds B)" "cmd_name c = cmdptr" by (auto simp: find_Some_iff)
  have "command_allowed groups grp cmdptr = Returns True \<and> name = cmdptr"
    using assms Some c(2) by (cases "command_allowed groups grp cmdptr") (auto simp: run_command_def Let_def split: if_splits)
  then show ?thesis using c by (auto simp: command_names_def)
qed

lemma run_joined_runs:
  "run_joined B groups grp ps buf = Returns events \<Longrightarrow> API_RUN name p \<in> set events \<Longrightarrow>
   name \<in> command_names B \<and> command_allowed groups grp name = Returns True"
proof (induction ps arbitrary: buf events)
  case (Cons cmdptr ps)
  show ?case
  proof (cases "cmdptr = []")
    case False
    obtain e buf' where r: "run_command B groups grp True None cmdptr buf = Returns (e, buf')"
      using Cons.prems(1) False by (cases "run_command B groups grp True None cmdptr buf") auto
    obtain es where j: "run_joined B groups grp ps buf' = Returns es" "events = e @ es"
      using Cons.prems(1) False r by (cases "run_joined B groups grp ps buf'") auto
    show ?thesis using Cons.IH [OF j(1)] run_command_runs [OF r] Cons.prems(2) j(2) by auto
  qed (use Cons in simp)
qed simp

lemma run_commands_runs:
  assumes "run_commands B groups grp cmd param = Returns events" "API_RUN name p \<in> set events"
  shows "name \<in> command_names B \<and> command_allowed groups grp name = Returns True"
proof (cases "CHR ''+'' \<in> set cmd")
  case True
  obtain es where "run_joined B groups grp (split_on CHR ''+'' cmd) ''|'' = Returns es" "events = es @ [API_SEND_RESULT]"
    using assms(1) True by (cases "run_joined B groups grp (split_on CHR ''+'' cmd) ''|''") (auto simp: run_commands_def)
  then show ?thesis using run_joined_runs [of B groups grp _ _ es name p] assms(2) by auto
next
  case False
  obtain buf where "run_command B groups grp False param cmd [] = Returns (events, buf)"
    using assms(1) False by (cases "run_command B groups grp False param cmd []") (auto simp: run_commands_def)
  from run_command_runs [OF this assms(2)] show ?thesis .
qed

lemma api_request_runs:
  assumes "api_request B groups J print_f grp buf = Returns events" "API_RUN name p \<in> set events"
  shows "name \<in> command_names B \<and> command_allowed groups grp name = Returns True"
  using assms run_commands_runs [of B groups grp _ _ events name p]
  by (auto simp: api_request_def Let_def split: if_splits option.splits)

lemma find_access_fits: "find_access cli es = (True, g) \<Longrightarrow> \<exists>e\<in>set es. cli AND ac_mask e = ac_ip e \<and> ac_group e = g"
  by (induction es) (auto split: if_splits)

text \<open>
  C12. No command that changes anything runs without permission. If a request makes a command run that is marked as writing,
  then access is restricted by a list of addresses, the address of the client fits an entry of that list, and the group of the entry is
  either the one with all privileges or one whose text in \<^verbatim>\<open>--api-groups\<close> names that very command: a star, the
  group that reads, joined commands and the search of substrings never let one through.
\<close>

theorem api_write_needs_group:
  assumes "setup_groups B opt_groups = Some groups" "api_connection B groups opt J print_f cli request = Returns events"
    "API_RUN name param \<in> set events" "write_command B name"
  shows "opt_api_allow opt \<and> (\<exists>e\<in>set (ipaccess opt). cli AND ac_mask e = ac_ip e \<and>
    (toupper (ac_group e) = PRIVGROUP \<or>
     toupper (ac_group e) \<noteq> NOPRIVGROUP \<and> group_names opt_groups (toupper (ac_group e)) name))"
proof -
  obtain ok g where c: "check_connect opt cli = (ok, g)" by (cases "check_connect opt cli")
  have ok: ok and "\<exists>buf. api_request B groups J print_f g buf = Returns events"
    using assms(2,3) by (auto simp: api_connection_def c split: option.splits if_splits)
  then have n: "name \<in> command_names B" "command_allowed groups g name = Returns True"
    using api_request_runs assms(3) by blast+
  have g: "toupper g = PRIVGROUP \<or> toupper g \<noteq> NOPRIVGROUP \<and> group_names opt_groups (toupper g) name"
  proof (cases "toupper g = PRIVGROUP")
    case False
    obtain t where t: "groups (toupper g) = Some t" "strstr t (cmd_item name) \<noteq> None"
      using n(2) False by (auto simp: command_allowed_def split: option.splits)
    show ?thesis using lists_commands_allowed [OF setup_groups_lists [OF assms(1) t(1)] n(1) t(2) assms(4)] by simp
  qed simp
  have "toupper NOPRIVGROUP = NOPRIVGROUP" "NOPRIVGROUP \<noteq> PRIVGROUP" by code_simp+
  then have "opt_api_allow opt \<and> find_access cli (ipaccess opt) = (True, g)"
    using g c ok by (auto simp: check_connect_def split: if_splits)
  then show ?thesis using find_access_fits [of cli "ipaccess opt" g] g by auto
qed

section \<open>What the addresses allow\<close>

text \<open>The place of a bit of an address in the order the prefix counts them in.\<close>

definition prefix_place :: "nat \<Rightarrow> nat" where
  "prefix_place i = 8 * (3 - i div 8) + i mod 8"

lemma bit_netmask_step:
  assumes "j < 32"
  shows "bit (push_bit (24 - 8 * (j div 8)) (push_bit (j mod 8) (1 :: u32))) i \<longleftrightarrow> i < 32 \<and> prefix_place i = j"
proof -
  define q where "q = j div 8"
  define r where "r = j mod 8"
  have j: "j = 8 * q + r" "r < 8" "q < 4" using assms by (auto simp: q_def r_def)
  have "bit (push_bit (24 - 8 * q) (push_bit r (1 :: u32))) i \<longleftrightarrow> i = 24 - 8 * q + r"
  proof -
    have "push_bit (24 - 8 * q) (push_bit r (1 :: u32)) = 2 ^ (24 - 8 * q + r)" by (simp add: push_bit_eq_mult power_add mult.commute)
    then show ?thesis using j by (auto simp: bit_exp_iff)
  qed
  also have "\<dots> \<longleftrightarrow> i < 32 \<and> prefix_place i = j"
  proof
    assume i: "i = 24 - 8 * q + r"
    have "i = 8 * (3 - q) + r" using i j(3) by auto
    then have "i div 8 = 3 - q" "i mod 8 = r" using j(2) by auto
    then show "i < 32 \<and> prefix_place i = j" using i j by (auto simp: prefix_place_def)
  next
    assume i: "i < 32 \<and> prefix_place i = j"
    have "i mod 8 < 8" "i = 8 * (i div 8) + i mod 8" "i div 8 < 4" using i by auto
    moreover from i have p: "8 * (3 - i div 8) + i mod 8 = 8 * q + r" using j(1) by (simp add: prefix_place_def)
    moreover have "(8 * (3 - i div 8) + i mod 8) mod 8 = i mod 8" "(8 * q + r) mod 8 = r" using j(2) by simp_all
    then have "i mod 8 = r" using p by metis
    moreover from this p have "3 - i div 8 = q" by simp
    ultimately show "i = 24 - 8 * q + r" using j by auto
  qed
  finally show ?thesis by (simp add: q_def r_def)
qed

lemma bit_netmask:
  "k \<le> 32 \<Longrightarrow> bit (netmask overshift k m) i \<longleftrightarrow> bit overshift i \<or> bit m i \<or> i < 32 \<and> prefix_place i < k"
proof (induction k arbitrary: m)
  case 0
  show ?case by (simp add: bit_or_iff disj_commute)
next
  case (Suc k)
  have "bit (netmask overshift (Suc k) m) i \<longleftrightarrow> bit overshift i \<or> (bit m i \<or> i < 32 \<and> prefix_place i = k) \<or> i < 32 \<and> prefix_place i < k"
    using Suc.IH Suc.prems bit_netmask_step [of k i] by (simp add: bit_or_iff)
  then show ?case by (simp add: less_Suc_eq) blast
qed

lemma prefix_place_whole:
  assumes "n \<in> {8, 16, 24, 32}" "i < 32"
  shows "prefix_place i < n \<longleftrightarrow> 32 - n \<le> i"
proof -
  obtain q r where i: "i div 8 = q" "i mod 8 = r" "i = 8 * q + r" "r < 8" "q < 4"
    using assms(2) by (intro that [of "i div 8" "i mod 8"]) auto
  have "q = 0 \<or> q = 1 \<or> q = 2 \<or> q = 3" using i(5) by auto
  then show ?thesis using assms(1) i(1,2,4) unfolding prefix_place_def by (elim disjE insertE emptyE) (simp_all add: i(3))
qed

text \<open>What a digit is not.\<close>

definition digit_only :: "char \<Rightarrow> bool" where
  "digit_only c \<longleftrightarrow> \<not> isspace c \<and> c \<notin> {CHR ''-'', CHR ''+'', CHR ''.'', CHR ''/'', CHR '','', CHR '' '', CHR 0x09, CHR '':''} \<and> \<not> VALIDGROUP c"

lemma digit_only: "isdigit c \<Longrightarrow> digit_only c"
proof -
  assume "isdigit c"
  then have "int (of_char c) \<in> {48..57}" unfolding of_nat_of_char by (simp add: isdigit_def ord_def)
  then have "of_char c \<in> {48..57::nat}" by simp
  moreover have "\<forall>m\<in>{48..57::nat}. digit_only (char_of m)" by code_simp
  ultimately show ?thesis by (metis char_of_char)
qed

lemma split_on_absent: "c \<notin> set s \<Longrightarrow> split_on c s = [s]"
  by (induction s) auto

lemma split_on_append: "c \<notin> set s \<Longrightarrow> split_on c (s @ c # t) = s # split_on c t"
  by (induction s) auto


definition dotted :: "nat \<Rightarrow> nat \<Rightarrow> nat \<Rightarrow> nat \<Rightarrow> string" where
  "dotted a b c d = nat_text a @ CHR ''.'' # nat_text b @ CHR ''.'' # nat_text c @ CHR ''.'' # nat_text d"

definition address :: "nat \<Rightarrow> nat \<Rightarrow> nat \<Rightarrow> nat \<Rightarrow> u32" where
  "address a b c d = push_bit 24 (of_nat a) OR push_bit 16 (of_nat b) OR push_bit 8 (of_nat c) OR of_nat d"

lemma nat_text_not: "x \<in> {CHR ''.'', CHR ''/'', CHR '','', CHR '' '', CHR 0x09} \<Longrightarrow> x \<notin> set (nat_text n)"
  using nat_text_digits [of n] digit_only [of x] by (auto simp: digit_only_def)

lemma dotted_not: "x \<in> {CHR ''/'', CHR '','', CHR '' '', CHR 0x09} \<Longrightarrow> x \<notin> set (dotted a b c d)"
  using nat_text_not [of x a] nat_text_not [of x b] nat_text_not [of x c] nat_text_not [of x d] by (auto simp: dotted_def)

lemma read_dotted:
  assumes "a < 256" "b < 256" "c < 256" "d < 256"
  shows "read_octets 0 (take 4 (split_on CHR ''.'' (dotted a b c d))) 0 = Some (address a b c d)"
proof -
  have "split_on CHR ''.'' (dotted a b c d) = [nat_text a, nat_text b, nat_text c, nat_text d]"
    by (simp add: dotted_def split_on_append split_on_absent nat_text_not)
  then show ?thesis using assms by (simp add: atoi_nat_text address_def or.assoc)
qed

lemma ipaccess_entry_dotted:
  assumes "a < 256" "b < 256" "c < 256" "d < 256" "1 \<le> n" "n \<le> 32"
  shows "ipaccess_entry overshift groups (dotted a b c d @ CHR ''/'' # nat_text n) =
    Some \<lparr>ac_ip = address a b c d AND netmask overshift n 0, ac_mask = netmask overshift n 0, ac_group = NOPRIVGROUP\<rparr>"
    (is "ipaccess_entry _ _ ?t = _")
proof -
  obtain x xs where x: "nat_text a = x # xs" using nat_text_digits [of a] by (cases "nat_text a") auto
  then have "isdigit x" using nat_text_digits [of a] by auto
  then have v: "\<not> VALIDGROUP (chat ?t 0)" using digit_only [of x] by (simp add: digit_only_def dotted_def x chat_def)
  have split: "split_on CHR ''/'' ?t = [dotted a b c d, nat_text n]"
    by (simp add: split_on_append split_on_absent nat_text_not dotted_not)
  have "CHR ''.'' \<in> set ?t" by (simp add: dotted_def)
  moreover have "CHR ''.'' \<notin> set ''0/0''" by simp
  ultimately have "?t \<noteq> ''0/0''" by metis
  moreover have "drop (Suc (length (dotted a b c d))) ?t = nat_text n" "0x7FFFFFFF + 1 = (2::nat) ^ 31" by simp_all
  ultimately show ?thesis using assms read_dotted [OF assms(1-4)] atoi_nat_text [of n]
    unfolding ipaccess_entry_def Let_def by (simp add: v split)
qed

lemma setup_ipaccess_one:
  assumes "a < 256" "b < 256" "c < 256" "d < 256" "1 \<le> n" "n \<le> 32"
  shows "setup_ipaccess overshift groups (dotted a b c d @ CHR ''/'' # nat_text n) =
    [\<lparr>ac_ip = address a b c d AND netmask overshift n 0, ac_mask = netmask overshift n 0, ac_group = NOPRIVGROUP\<rparr>]"
    (is "setup_ipaccess _ _ ?t = _")
proof -
  obtain x xs where x: "nat_text a = x # xs" using nat_text_digits [of a] by (cases "nat_text a") auto
  have no: "c' \<notin> set ?t" if "c' \<in> {CHR '','', CHR '' '', CHR 0x09}" for c'
    using that nat_text_not [of c' n] dotted_not [of c' a b c d] by auto
  obtain ys where t: "?t = x # ys" by (simp add: dotted_def x)
  have "x \<noteq> CHR '' ''" "x \<noteq> CHR 0x09" "x \<noteq> CHR '',''" using no t by auto
  then have "skip_blanks ?t = ?t" "chat ?t 0 \<noteq> CHR '',''" by (simp_all add: skip_blanks_def t chat_def)
  moreover have "takeWhile (\<lambda>c. c \<noteq> CHR '','') ?t = ?t" using no by (auto simp: takeWhile_eq_all_conv)
  moreover have "setup_ipaccess overshift groups [] = []" by (simp add: setup_ipaccess.simps)
  moreover have "drop (Suc (length ?t)) ?t = []" by simp
  ultimately show ?thesis
    using ipaccess_entry_dotted [OF assms, of overshift groups] t
    by (subst setup_ipaccess.simps) (simp only: Let_def if_False list.simps option.case)
qed

lemma same_network_iff:
  "n \<le> 32 \<Longrightarrow> drop_bit (32 - n) x = drop_bit (32 - n) (y :: u32) \<longleftrightarrow> (\<forall>i<32. 32 - n \<le> i \<longrightarrow> bit x i = bit y i)"
proof
  assume n: "n \<le> 32" and e: "drop_bit (32 - n) x = drop_bit (32 - n) y"
  have "bit x i = bit y i" if "i < 32" "32 - n \<le> i" for i
    using arg_cong [OF e, of "\<lambda>w. bit w (i - (32 - n))"] that n by (simp add: bit_drop_bit_eq)
  then show "\<forall>i<32. 32 - n \<le> i \<longrightarrow> bit x i = bit y i" by blast
next
  assume n: "n \<le> 32" and e: "\<forall>i<32. 32 - n \<le> i \<longrightarrow> bit x i = bit y i"
  show "drop_bit (32 - n) x = drop_bit (32 - n) y"
  proof (rule bit_word_eqI)
    fix i assume "i < LENGTH(32)"
    show "bit (drop_bit (32 - n) x) i = bit (drop_bit (32 - n) y) i"
      using e n by (cases "32 - n + i < 32") (auto simp: bit_drop_bit_eq dest: bit_imp_le_length)
  qed
qed

lemma mask_fits_iff: "(x AND m = (y :: u32) AND m) \<longleftrightarrow> (\<forall>i<32. bit m i \<longrightarrow> bit x i = bit y i)"
  by (auto simp: bit_eq_iff bit_and_iff dest: bit_imp_le_length)

text \<open>
  C24. An entry \<open>a.b.c.d/n\<close> of \<^verbatim>\<open>--api-allow\<close> with a prefix of whole bytes lets in exactly the addresses of that network, as long as
  what the last round of the loop adds to the mask lies in its first byte.
\<close>

theorem api_allow_network:
  assumes "a < 256" "b < 256" "c < 256" "d < 256" "n \<in> {8, 16, 24, 32}" "take_bit 24 overshift = 0"
  shows "find_access cli (setup_ipaccess overshift groups (dotted a b c d @ CHR ''/'' # nat_text n)) =
    (drop_bit (32 - n) cli = drop_bit (32 - n) (address a b c d), NOPRIVGROUP)"
proof -
  have n: "1 \<le> n" "n \<le> 32" using assms(5) by auto
  have "bit overshift i \<Longrightarrow> 24 \<le> i" for i using arg_cong [OF assms(6), of "\<lambda>w. bit w i"] by (auto simp: bit_take_bit_iff)
  then have "bit overshift i \<Longrightarrow> 32 - n \<le> i" for i using assms(5) by fastforce
  then have "bit (netmask overshift n 0) i \<longleftrightarrow> 32 - n \<le> i" if "i < 32" for i
    using that prefix_place_whole [OF assms(5) that] bit_netmask [OF n(2)] by auto
  then have "cli AND netmask overshift n 0 = address a b c d AND netmask overshift n 0 \<longleftrightarrow>
      drop_bit (32 - n) cli = drop_bit (32 - n) (address a b c d)"
    using n(2) by (auto simp: mask_fits_iff same_network_iff)
  then show ?thesis by (simp add: setup_ipaccess_one [OF assms(1-4) n])
qed

text \<open>
  C25. Any other prefix longer than a byte opens the list to strangers: the bits of the last byte are counted from the wrong
  end, so there are addresses outside the network, differing within the prefix, that the entry lets in.
\<close>

theorem api_allow_strangers:
  assumes "a < 256" "b < 256" "c < 256" "d < 256" "8 < n" "n < 32" "n mod 8 \<noteq> 0" "take_bit 24 overshift = 0"
  shows "\<exists>cli. drop_bit (32 - n) cli \<noteq> drop_bit (32 - n) (address a b c d) \<and>
    find_access cli (setup_ipaccess overshift groups (dotted a b c d @ CHR ''/'' # nat_text n)) = (True, NOPRIVGROUP)"
proof -
  define q where "q = n div 8"
  define i where "i = 31 - 8 * q"
  have q: "1 \<le> q" "q < 4" "8 * q < n" "n \<le> 8 * q + 7" using assms(5-7) by (auto simp: q_def) presburger+
  have i: "i = 8 * (3 - q) + 7" using q(2) by (simp add: i_def)
  then have "i div 8 = 3 - q" "i mod 8 = 7" by auto
  then have "prefix_place i = 8 * q + 7" using q(2) by (simp add: prefix_place_def)
  moreover have "\<not> bit overshift i"
    using arg_cong [OF assms(8), of "\<lambda>w. bit w i"] q by (auto simp: bit_take_bit_iff i_def)
  ultimately have m: "\<not> bit (netmask overshift n 0) i" using bit_netmask [of n overshift 0 i] q assms(6) by auto
  let ?x = "address a b c d"
  define cli where "cli = ?x XOR 2 ^ i"
  have bits: "bit cli j = (bit ?x j \<noteq> (j = i))" if "j < 32" for j
    using that q i_def by (auto simp: cli_def bit_xor_iff bit_exp_iff)
  have "i < 32" "32 - n \<le> i" using q by (auto simp: i_def)
  then have "drop_bit (32 - n) cli \<noteq> drop_bit (32 - n) ?x" using bits [of i] assms(6) by (auto simp: same_network_iff)
  moreover have "cli AND netmask overshift n 0 = ?x AND netmask overshift n 0" using bits m by (auto simp: mask_fits_iff)
  ultimately show ?thesis using setup_ipaccess_one [OF assms(1-4), of n] assms(5,6) by auto
qed

end
