(* ===== verification/ApiExamples.thy ===== *)
theory ApiExamples
  imports ApiAccess StratumMsgExamples
begin

text \<open>
  A group with one writing command for the network 10/8, a client in it, and what the properties of the access to the RPC
  interface say of them.
\<close>

definition example_build :: api_build where
  "example_build = \<lparr>with_opencl = False, with_fpga = False, with_cpu = False\<rparr>"

definition example_groups_text :: string where
  "example_groups_text = ''P:switchpool:*''"

definition example_groups :: api_groups where
  "example_groups = the (setup_groups example_build (Some example_groups_text))"

definition example_access :: api_options where
  "example_access = \<lparr>opt_api_allow = True, opt_api_network = False,
     ipaccess = setup_ipaccess 0x80000000 example_groups ''P:10.0.0.0/8''\<rparr>"

lemma example_groups: "setup_groups example_build (Some example_groups_text) = Some example_groups"
proof -
  have "setup_groups example_build (Some example_groups_text) \<noteq> None" by code_simp
  then show ?thesis by (simp add: example_groups_def)
qed

lemma example_request:
  "api_connection example_build example_groups example_access (example_jansson (\<lambda>_. None)) (\<lambda>_. []) (address 10 1 2 3) (Some ''switchpool|1'') =
    Returns [API_RUN ''switchpool'' (Some ''1''), API_SEND_RESULT]"
  by code_simp

theorem api_write_needs_group_witness:
  "\<exists>e\<in>set (ipaccess example_access). address 10 1 2 3 AND ac_mask e = ac_ip e \<and>
    (toupper (ac_group e) = PRIVGROUP \<or>
     toupper (ac_group e) \<noteq> NOPRIVGROUP \<and> group_names (Some example_groups_text) (toupper (ac_group e)) ''switchpool'')"
proof -
  have "write_command example_build ''switchpool''" by code_simp
  from api_write_needs_group [OF example_groups example_request _ this, of "Some ''1''"] show ?thesis by simp
qed

theorem api_allow_network_witness:
  "find_access (address 192 168 7 9) (setup_ipaccess 0x80000000 (\<lambda>_. None) (dotted 192 168 7 0 @ CHR ''/'' # nat_text 24)) = (True, NOPRIVGROUP)"
proof -
  have "drop_bit 8 (address 192 168 7 9) = drop_bit 8 (address 192 168 7 0)" "take_bit 24 (0x80000000 :: u32) = 0" by code_simp+
  then show ?thesis by (subst api_allow_network) simp_all
qed

theorem api_allow_strangers_witness:
  "\<exists>cli. drop_bit 12 cli \<noteq> drop_bit 12 (address 192 168 16 0) \<and>
    find_access cli (setup_ipaccess 0x80000000 (\<lambda>_. None) (dotted 192 168 16 0 @ CHR ''/'' # nat_text 20)) = (True, NOPRIVGROUP)"
proof -
  have "take_bit 24 (0x80000000 :: u32) = 0" by code_simp
  then show ?thesis using api_allow_strangers [of 192 168 16 0 20 "0x80000000" "\<lambda>_. None"] by simp
qed

end
