(* ===== verification/MinerLoop.thy ===== *)
theory MinerLoop
  imports Timers
begin

text \<open>
  The loops that drive a processor (\<^verbatim>\<open>deviceapi.c\<close>): the asynchronous one as a state machine beside the driver, the one for
  devices with a queue, and the one that scans. Work items are numbers; \<open>live\<close> holds those that are allocated. What
  the driver, \<^verbatim>\<open>get_work\<close> and \<^verbatim>\<open>abandon_work\<close> answer is a sequence for each; a driver may finish starting a
  job, or fetching results, at once or later.
\<close>

section \<open>State\<close>

datatype thr_busy_state = TBS_IDLE | TBS_GETTING_RESULTS | TBS_STARTING_JOB

datatype dev_enable = DEV_ENABLED | DEV_DISABLED | DEV_RECOVER | DEV_RECOVER_ERR | DEV_RECOVER_DRV

text \<open>A new item, none, or one the driver cannot prepare.\<close>

datatype get_ret = GOT_WORK | NO_WORK | PREPARE_FAILS

text \<open>A job is running (the time more work is needed comes with it), will be, or could not be started.\<close>

datatype start_ret = START_DONE timeval | START_LATER | START_FAILS

datatype fetch_ret = FETCH_DONE | FETCH_LATER

record thr_info =
  t_prev_work :: "nat option"
  t_work :: "nat option"
  t_next_work :: "nat option"
  t_busy_state :: thr_busy_state
  t_mt_disable_called :: bool
  t_tv_morework :: timeval
  t_in_transition :: bool
  t_proceed :: bool
  t_tv_results_jobstart :: timeval
  t_tv_jobstart :: timeval
  t_starting_next_work :: bool
  t_queue_full :: bool
  t_work_restart :: bool
  t_pause :: bool
  t_scanhash_working :: bool
  t_hashes_done :: u64
  t_tv_hashes_done :: timeval
  t_tv_lastupdate :: timeval
  t_max_hashes :: int
  t_deven :: dev_enable
  live :: "nat list"
  next_id :: nat
  gets :: "get_ret list"
  starts :: "start_ret list"
  fetches :: "fetch_ret list"
  processed :: "int list"
  abandons :: "bool list"
  appends :: "(bool \<times> bool) list"
  clock :: "timeval list"
  metered :: "u64 list"
  queued :: "nat list"
  driver_starting :: bool
  driver_fetching :: bool

text \<open>
  \<open>driver_starting\<close> and \<open>driver_fetching\<close> say what the driver has yet to finish; \<open>clock\<close> is what the clock shows when the
  meter of hashes asks for it, and \<open>metered\<close> what that meter has been given.
\<close>

text \<open>What a sequence gives next, and \<open>d\<close> when it has ended.\<close>

definition next_of :: "'a \<Rightarrow> 'a list \<Rightarrow> 'a" where
  "next_of d xs = (case xs of [] \<Rightarrow> d | x # _ \<Rightarrow> x)"

section \<open>Work items\<close>

definition free_work_id :: "nat \<Rightarrow> thr_info \<Rightarrow> thr_info outcome" where
  "free_work_id w t = (if w \<in> set (live t) then Returns (t\<lparr>live := remove1 w (live t)\<rparr>) else Undefined)"

definition free_if_any :: "nat option \<Rightarrow> thr_info \<Rightarrow> thr_info outcome" where
  "free_if_any w t = (case w of None \<Rightarrow> Returns t | Some w \<Rightarrow> free_work_id w t)"

definition get_and_prepare_work :: "thr_info \<Rightarrow> thr_info \<times> nat option" where
  "get_and_prepare_work t =
     (let r = next_of NO_WORK (gets t); t = t\<lparr>gets := tl (gets t)\<rparr>
      in case r of
           GOT_WORK \<Rightarrow> (t\<lparr>live := next_id t # live t, next_id := next_id t + 1\<rparr>, Some (next_id t))
         | NO_WORK \<Rightarrow> (t, None)
         | PREPARE_FAILS \<Rightarrow> (t\<lparr>next_id := next_id t + 1, t_deven := DEV_RECOVER_ERR\<rparr>, None))"

section \<open>Hashes\<close>

text \<open>
  The options of the loop. \<open>cycle\<close> is a fifth of the interval of the log, at least one second; the range of nonces for
  the next call is scaled to it by the time the hashes took. A failure (\<open>- 1\<close>) disables the processor, except once.
\<close>

record loop_opts =
  opt_restart :: bool
  opt_log_interval :: int

definition log_cycle :: "loop_opts \<Rightarrow> int" where
  "log_cycle opts = (let c = opt_log_interval opts sdiv 5 in if c = 0 then 1 else c)"

definition scale_max_nonce :: "int \<Rightarrow> timeval \<Rightarrow> u32 \<Rightarrow> u32 outcome" where
  "scale_max_nonce cycle t max_nonce =
     (let d = word_of_int (tv_sec t) * 1000000 + word_of_int (tv_usec t) :: u64;
          n = ucast max_nonce * word_of_int cycle * 1000000 div d
      in if d = 0 then Undefined else Returns (if n > 0xffffffff then 0xffffffff else ucast n))"

text \<open>The hashes go to the meter five times a second at most, or when the interval of the log is over.\<close>

definition hashmeter2 :: "loop_opts \<Rightarrow> thr_info \<Rightarrow> thr_info" where
  "hashmeter2 opts t =
     (let tv_now = next_of \<lparr>tv_sec = 0, tv_usec = 0\<rparr> (clock t);
          elapsed = timersub tv_now (t_tv_lastupdate t);
          t = t\<lparr>t_tv_hashes_done := \<lparr>tv_sec = 0, tv_usec = 0\<rparr>, clock := tl (clock t)\<rparr>
      in if t_hashes_done t \<noteq> 0 \<and> (tv_sec elapsed > 0 \<or> tv_usec elapsed > 200000) \<or> tv_sec elapsed \<ge> opt_log_interval opts
         then t\<lparr>metered := metered t @ [t_hashes_done t], t_hashes_done := 0, t_tv_lastupdate := tv_now\<rparr>
         else t)"

definition hashes_done ::
  "loop_opts \<Rightarrow> int \<Rightarrow> timeval \<Rightarrow> u32 option \<Rightarrow> thr_info \<Rightarrow> (thr_info \<times> u32 option \<times> bool) outcome"
where
  "hashes_done opts hashes tvp_hashes max_nonce t =
     (let failed = (hashes = - 1);
          again = (t_scanhash_working t \<and> opt_restart opts)
      in if failed \<and> \<not> again then Returns (t\<lparr>t_deven := DEV_RECOVER_ERR\<rparr>, max_nonce, False)
         else let hashes = (if failed then 0 else hashes);
                  t = t\<lparr>t_scanhash_working := \<not> failed,
                        t_hashes_done := t_hashes_done t + word_of_int hashes,
                        t_max_hashes := max hashes (t_max_hashes t),
                        t_tv_hashes_done := timeradd (t_tv_hashes_done t) tvp_hashes\<rparr>
              in case max_nonce of
                   None \<Rightarrow> Returns (hashmeter2 opts t, None, True)
                 | Some n \<Rightarrow> and_then (scale_max_nonce (log_cycle opts) (t_tv_hashes_done t) n) (\<lambda>n. Returns (hashmeter2 opts t, Some n, True)))"

section \<open>Jobs\<close>

text \<open>The driver's count of hashes; none of the drivers of the asynchronous loop limits the nonces.\<close>

definition do_process_results :: "loop_opts \<Rightarrow> timeval \<Rightarrow> thr_info \<Rightarrow> thr_info outcome" where
  "do_process_results opts tv_now t =
     (let hashes = next_of 0 (processed t);
          t = t\<lparr>processed := tl (processed t)\<rparr>
      in if hashes = 0 then Returns t
         else and_then (hashes_done opts hashes (timersub tv_now (t_tv_results_jobstart t)) None t) (\<lambda>(t, _, _). Returns t))"

definition mt_disable_start :: "loop_opts \<Rightarrow> thr_info \<Rightarrow> thr_info" where
  "mt_disable_start opts t = (hashmeter2 opts t)\<lparr>t_mt_disable_called := True\<rparr>"

definition mt_disable_finish :: "thr_info \<Rightarrow> thr_info" where
  "mt_disable_finish t = t\<lparr>t_mt_disable_called := False\<rparr>"

text \<open>The call waits until the processor is to run again.\<close>

definition mt_disable :: "loop_opts \<Rightarrow> thr_info \<Rightarrow> thr_info" where
  "mt_disable opts t = mt_disable_finish ((mt_disable_start opts t)\<lparr>t_pause := False, t_deven := DEV_ENABLED\<rparr>)"

definition mt_disable_start__async :: "loop_opts \<Rightarrow> thr_info \<Rightarrow> thr_info outcome" where
  "mt_disable_start__async opts t =
     (let t = mt_disable_start opts t
      in and_then (free_if_any (t_prev_work t) t) (\<lambda>t.
           Returns (t\<lparr>t_prev_work := t_work t, t_work := None, t_in_transition := False\<rparr>)))"

definition mt_job_transition :: "timeval \<Rightarrow> thr_info \<Rightarrow> thr_info outcome" where
  "mt_job_transition tv_now t =
     and_then
       (if t_starting_next_work t then
          (if t_next_work t = None then Undefined
           else and_then (free_if_any (t_prev_work t) t) (\<lambda>t.
             Returns (t\<lparr>t_prev_work := t_work t, t_work := t_next_work t, t_next_work := None\<rparr>)))
        else Returns t)
       (\<lambda>t. Returns (t\<lparr>t_tv_jobstart := tv_now, t_in_transition := False\<rparr>))"

definition job_start_complete :: "loop_opts \<Rightarrow> timeval \<Rightarrow> thr_info \<Rightarrow> thr_info outcome" where
  "job_start_complete opts tv_now t = (if t_prev_work t = None then Returns t else do_process_results opts tv_now t)"

definition job_start_abort :: "bool \<Rightarrow> thr_info \<Rightarrow> thr_info" where
  "job_start_abort failure t =
     (let t = (if failure then t\<lparr>t_deven := DEV_RECOVER_ERR\<rparr> else t)
      in t\<lparr>t_work := None, t_in_transition := False\<rparr>)"

text \<open>What a driver does when a job has started.\<close>

definition job_started :: "loop_opts \<Rightarrow> timeval \<Rightarrow> timeval \<Rightarrow> thr_info \<Rightarrow> thr_info outcome" where
  "job_started opts tv_now morework t =
     and_then (mt_job_transition tv_now t) (\<lambda>t. job_start_complete opts tv_now (t\<lparr>t_tv_morework := morework\<rparr>))"

definition do_job_start :: "loop_opts \<Rightarrow> timeval \<Rightarrow> thr_info \<Rightarrow> thr_info outcome" where
  "do_job_start opts tv_now t =
     (let r = next_of START_LATER (starts t); t = t\<lparr>starts := tl (starts t), driver_starting := (r = START_LATER)\<rparr>
      in case r of
           START_DONE morework \<Rightarrow> job_started opts tv_now morework t
         | START_LATER \<Rightarrow> Returns t
         | START_FAILS \<Rightarrow> Returns (job_start_abort True t))"

definition job_results_fetched :: "loop_opts \<Rightarrow> timeval \<Rightarrow> thr_info \<Rightarrow> thr_info outcome" where
  "job_results_fetched opts tv_now t =
     (if t_proceed t then do_job_start opts tv_now t
      else and_then (if t_prev_work t \<noteq> None then do_process_results opts tv_now t else Returns t) (mt_disable_start__async opts))"

definition do_get_results :: "loop_opts \<Rightarrow> timeval \<Rightarrow> bool \<Rightarrow> thr_info \<Rightarrow> thr_info outcome" where
  "do_get_results opts tv_now proceed_with_new_job t =
     (let t = t\<lparr>t_in_transition := True, t_tv_results_jobstart := t_tv_jobstart t, t_proceed := proceed_with_new_job\<rparr>;
          r = next_of FETCH_LATER (fetches t);
          t = t\<lparr>fetches := tl (fetches t), driver_fetching := (r = FETCH_LATER)\<rparr>
      in case r of
           FETCH_DONE \<Rightarrow> job_results_fetched opts tv_now t
         | FETCH_LATER \<Rightarrow> Returns t)"

definition job_prepare_complete :: "loop_opts \<Rightarrow> timeval \<Rightarrow> thr_info \<Rightarrow> thr_info outcome" where
  "job_prepare_complete opts tv_now t =
     (if t_busy_state t = TBS_GETTING_RESULTS then Returns t
      else if t_work t \<noteq> None then do_get_results opts tv_now True t
      else do_job_start opts tv_now t)"

definition do_job_prepare :: "loop_opts \<Rightarrow> timeval \<Rightarrow> thr_info \<Rightarrow> (thr_info \<times> bool) outcome" where
  "do_job_prepare opts tv_now t =
     (let t = t\<lparr>t_tv_morework := timer_unset (t_tv_morework t), t_in_transition := True\<rparr>;
          abandon = (t_work t = None \<or> next_of True (abandons t));
          t = (if t_work t = None then t else t\<lparr>abandons := tl (abandons t)\<rparr>)
      in if abandon then
           and_then (free_if_any (t_next_work t) (t\<lparr>t_work_restart := False\<rparr>)) (\<lambda>t.
             let (t, w) = get_and_prepare_work t; t = t\<lparr>t_next_work := w\<rparr>
             in if w = None then Returns (t, False)
                else and_then (job_prepare_complete opts tv_now (t\<lparr>t_starting_next_work := True\<rparr>)) (\<lambda>t. Returns (t, True)))
         else and_then (job_prepare_complete opts tv_now (t\<lparr>t_starting_next_work := False\<rparr>)) (\<lambda>t. Returns (t, True)))"

section \<open>The asynchronous loop\<close>

text \<open>The processor is to stop; \<open>is_running\<close> is what it was when the round began.\<close>

definition stop_processor :: "loop_opts \<Rightarrow> timeval \<Rightarrow> bool \<Rightarrow> thr_info \<Rightarrow> thr_info outcome" where
  "stop_processor opts tv_now is_running t =
     and_then
       (if is_running then
          (if t_busy_state t \<noteq> TBS_GETTING_RESULTS then do_get_results opts tv_now False t
           else Returns (t\<lparr>t_proceed := False\<rparr>))
        else mt_disable_start__async opts t)
       (\<lambda>t. Returns (t\<lparr>t_tv_morework := timer_unset (t_tv_morework t)\<rparr>))"

definition prepare_or_stop :: "loop_opts \<Rightarrow> timeval \<Rightarrow> bool \<Rightarrow> thr_info \<Rightarrow> thr_info outcome" where
  "prepare_or_stop opts tv_now is_running t =
     and_then (do_job_prepare opts tv_now t) (\<lambda>(t, ok). if ok then Returns t else stop_processor opts tv_now is_running t)"

text \<open>One round for a processor, without the timers of the driver and the watchdog.\<close>

definition async_round :: "loop_opts \<Rightarrow> timeval \<Rightarrow> thr_info \<Rightarrow> thr_info outcome" where
  "async_round opts tv_now t =
     (if t_busy_state t = TBS_STARTING_JOB then Returns t
      else let is_running = (t_work t \<noteq> None);
               should_be_running = (t_deven t = DEV_ENABLED \<and> \<not> t_pause t)
           in if should_be_running then
                (if \<not> (is_running \<or> t_in_transition t) then prepare_or_stop opts tv_now is_running (mt_disable_finish t)
                 else if t_work_restart t then prepare_or_stop opts tv_now is_running t
                 else if timer_passed (t_tv_morework t) tv_now then prepare_or_stop opts tv_now is_running t
                 else Returns t)
              else let t = (if t_in_transition t \<and> timer_isset (t_tv_morework t) then t\<lparr>t_in_transition := False\<rparr> else t)
                   in if (is_running \<or> \<not> t_mt_disable_called t) \<and> \<not> t_in_transition t
                      then stop_processor opts tv_now is_running t
                      else Returns (t\<lparr>t_tv_morework := timer_unset (t_tv_morework t)\<rparr>))"

section \<open>The loop for devices with a queue\<close>

text \<open>The items the driver takes are its own from then on. An answer of \<^verbatim>\<open>queue_append\<close> comes with whether the queue is full now.\<close>

definition do_queue_flush :: "thr_info \<Rightarrow> thr_info outcome" where
  "do_queue_flush t = and_then (free_if_any (t_next_work t) t) (\<lambda>t. Returns (t\<lparr>t_next_work := None, queued := []\<rparr>))"

function fill_queue :: "thr_info \<Rightarrow> thr_info" where
  "fill_queue t =
     (if t_queue_full t \<or> appends t = [] then t
      else let (t', w) = (case t_next_work t of
                 Some w \<Rightarrow> (t\<lparr>t_next_work := None\<rparr>, Some w)
               | None \<Rightarrow> get_and_prepare_work t)
           in case w of
                None \<Rightarrow> t'
              | Some w \<Rightarrow>
                  let (taken, full) = hd (appends t);
                      t' = t'\<lparr>appends := tl (appends t), t_queue_full := full\<rparr>
                  in fill_queue (if taken then t'\<lparr>queued := queued t' @ [w], live := remove1 w (live t')\<rparr> else t'\<lparr>t_next_work := Some w\<rparr>))"
  by pat_completeness auto
termination
  by (relation "measure (\<lambda>t. length (appends t))") auto

declare fill_queue.simps [simp del]

definition queue_round :: "loop_opts \<Rightarrow> thr_info \<Rightarrow> thr_info outcome" where
  "queue_round opts t =
     (if t_deven t = DEV_ENABLED \<and> \<not> t_pause t then
        (let t = (if t_mt_disable_called t then mt_disable_finish t else t)
         in and_then (if t_work_restart t then do_queue_flush (t\<lparr>t_work_restart := False\<rparr>) else Returns t)
              (\<lambda>t. Returns (fill_queue t)))
      else if \<not> t_mt_disable_called t then and_then (do_queue_flush t) (\<lambda>t. Returns (mt_disable_start opts t))
      else Returns t)"


section \<open>The loop that scans\<close>

text \<open>A call of the driver: hashes, their time, the time the item has been worked on is left to \<open>abandons\<close>; and what others asked for meanwhile.\<close>

record scan_ret =
  sr_hashes :: int
  sr_time :: timeval
  sr_restart :: bool
  sr_pause :: bool

fun scan_loop :: "loop_opts \<Rightarrow> bool \<Rightarrow> u32 \<Rightarrow> scan_ret list \<Rightarrow> thr_info \<Rightarrow> (thr_info \<times> u32 \<times> scan_ret list) outcome" where
  "scan_loop opts limits max_nonce [] t = Returns (t, max_nonce, [])"
| "scan_loop opts limits max_nonce (r # rs) t =
     (let t = t\<lparr>t_work_restart := t_work_restart t \<or> sr_restart r, t_pause := sr_pause r\<rparr>
      in and_then (hashes_done opts (sr_hashes r) (sr_time r) (if limits then Some max_nonce else None) t) (\<lambda>(t, n, ok).
           let max_nonce = (case n of None \<Rightarrow> max_nonce | Some n \<Rightarrow> n);
               proceed = (\<lambda>t. if next_of True (abandons t) then Returns (t\<lparr>abandons := tl (abandons t)\<rparr>, max_nonce, rs)
                              else scan_loop opts limits max_nonce rs (t\<lparr>abandons := tl (abandons t)\<rparr>))
           in if \<not> ok then proceed (mt_disable opts t)
              else if t_work_restart t then Returns (t, max_nonce, rs)
              else if t_pause t \<or> t_deven t \<noteq> DEV_ENABLED then proceed (mt_disable opts t)
              else proceed t))"

text \<open>One item of work; the results tell whether the loop goes on.\<close>

definition scanhash_round :: "loop_opts \<Rightarrow> bool \<Rightarrow> u32 \<Rightarrow> scan_ret list \<Rightarrow> thr_info \<Rightarrow> (thr_info \<times> u32 \<times> scan_ret list \<times> bool) outcome" where
  "scanhash_round opts limits max_nonce rs t =
     (let (t, w) = get_and_prepare_work (t\<lparr>t_work_restart := False\<rparr>)
      in case w of
           None \<Rightarrow> Returns (t, max_nonce, rs, False)
         | Some w \<Rightarrow>
             and_then (scan_loop opts limits max_nonce rs t) (\<lambda>(t, max_nonce, rs).
               and_then (free_work_id w t) (\<lambda>t. Returns (t, max_nonce, rs, True))))"

section \<open>Runs\<close>

text \<open>
  What happens to a processor of the asynchronous loop: rounds, the driver finishing what it has begun, requests of others, and new
  answers at the ends of the sequences.
\<close>

datatype loop_event =
  Round timeval
| Job_started timeval timeval
| Job_failed bool
| Results_fetched timeval
| Work_restart
| Pause bool
| Set_deven dev_enable
| Clock "timeval list"
| Answers "get_ret list" "start_ret list" "fetch_ret list" "int list" "bool list"

fun possible :: "loop_event \<Rightarrow> thr_info \<Rightarrow> bool" where
  "possible (Job_started _ _) t = driver_starting t"
| "possible (Job_failed _) t = driver_starting t"
| "possible (Results_fetched _) t = driver_fetching t"
| "possible _ t = True"

fun loop_step :: "loop_opts \<Rightarrow> loop_event \<Rightarrow> thr_info \<Rightarrow> thr_info outcome" where
  "loop_step opts (Round tv_now) t = async_round opts tv_now t"
| "loop_step opts (Job_started tv_now morework) t = job_started opts tv_now morework (t\<lparr>driver_starting := False\<rparr>)"
| "loop_step opts (Job_failed failure) t = Returns (job_start_abort failure (t\<lparr>driver_starting := False\<rparr>))"
| "loop_step opts (Results_fetched tv_now) t = job_results_fetched opts tv_now (t\<lparr>driver_fetching := False\<rparr>)"
| "loop_step opts Work_restart t = Returns (t\<lparr>t_work_restart := True\<rparr>)"
| "loop_step opts (Pause b) t = Returns (t\<lparr>t_pause := b\<rparr>)"
| "loop_step opts (Set_deven d) t = Returns (t\<lparr>t_deven := d\<rparr>)"
| "loop_step opts (Clock ts) t = Returns (t\<lparr>clock := clock t @ ts\<rparr>)"
| "loop_step opts (Answers gs ss fs ps as) t =
     Returns (t\<lparr>gets := gets t @ gs, starts := starts t @ ss, fetches := fetches t @ fs, processed := processed t @ ps, abandons := abandons t @ as\<rparr>)"

text \<open>A thread as it is allocated.\<close>

definition new_thread :: thr_info where
  "new_thread =
     \<lparr>t_prev_work = None, t_work = None, t_next_work = None, t_busy_state = TBS_IDLE, t_mt_disable_called = False,
      t_tv_morework = \<lparr>tv_sec = 0, tv_usec = 0\<rparr>, t_in_transition = True, t_proceed = False,
      t_tv_results_jobstart = \<lparr>tv_sec = 0, tv_usec = 0\<rparr>, t_tv_jobstart = \<lparr>tv_sec = 0, tv_usec = 0\<rparr>, t_starting_next_work = False,
      t_queue_full = False, t_work_restart = False, t_pause = False, t_scanhash_working = True, t_hashes_done = 0,
      t_tv_hashes_done = \<lparr>tv_sec = 0, tv_usec = 0\<rparr>, t_tv_lastupdate = \<lparr>tv_sec = 0, tv_usec = 0\<rparr>, t_max_hashes = 0, t_deven = DEV_ENABLED, live = [], next_id = 0, gets = [], starts = [],
      fetches = [], processed = [], abandons = [], appends = [], clock = [], metered = [], queued = [], driver_starting = False, driver_fetching = False\<rparr>"

inductive loop_reaches :: "loop_opts \<Rightarrow> thr_info \<Rightarrow> thr_info \<Rightarrow> bool" for opts where
  here: "loop_reaches opts t t"
| step: "loop_reaches opts t u \<Longrightarrow> possible e u \<Longrightarrow> loop_step opts e u = Returns v \<Longrightarrow> loop_reaches opts t v"

section \<open>Who owns the work\<close>

definition opt_list :: "'a option \<Rightarrow> 'a list" where
  "opt_list x = (case x of None \<Rightarrow> [] | Some a \<Rightarrow> [a])"

lemma opt_list_simps [simp]: "opt_list None = []" "opt_list (Some a) = [a]"
  by (simp_all add: opt_list_def)

definition held :: "thr_info \<Rightarrow> nat list" where
  "held t = opt_list (t_prev_work t) @ opt_list (t_work t) @ opt_list (t_next_work t)"

definition owned :: "thr_info \<Rightarrow> bool" where
  "owned t \<longleftrightarrow> distinct (live t) \<and> distinct (held t) \<and> set (held t) \<subseteq> set (live t) \<and> (\<forall>w\<in>set (live t). w < next_id t)"

text \<open>From \<open>t\<close> to \<open>u\<close>: the work is owned, and what nobody held is neither freed nor held again.\<close>

definition evolves :: "thr_info \<Rightarrow> thr_info \<Rightarrow> bool" where
  "evolves t u \<longleftrightarrow> owned u \<and> (\<forall>w\<in>set (live t). w \<notin> set (held t) \<longrightarrow> w \<in> set (live u) \<and> w \<notin> set (held u))"

definition good :: "thr_info \<Rightarrow> thr_info outcome \<Rightarrow> bool" where
  "good t r \<longleftrightarrow> (\<exists>u. r = Returns u \<and> evolves t u)"

definition work_view :: "thr_info \<Rightarrow> nat option \<times> nat option \<times> nat option \<times> nat list \<times> nat" where
  "work_view t = (t_prev_work t, t_work t, t_next_work t, live t, next_id t)"

lemma evolves_refl: "owned t \<Longrightarrow> evolves t t"
  by (simp add: evolves_def)

lemma evolves_trans: "evolves t u \<Longrightarrow> evolves u v \<Longrightarrow> evolves t v"
  by (auto simp: evolves_def)

lemma evolves_owned: "evolves t u \<Longrightarrow> owned u"
  by (simp add: evolves_def)

lemma evolves_same: "work_view u = work_view t \<Longrightarrow> owned t \<Longrightarrow> evolves t u"
  by (auto simp: evolves_def owned_def held_def work_view_def)

lemma good_Returns [simp]: "good t (Returns u) = evolves t u"
  by (simp add: good_def)

lemma good_then: "good t r \<Longrightarrow> (\<And>u. evolves t u \<Longrightarrow> good u (f u)) \<Longrightarrow> good t (and_then r f)"
  unfolding good_def using evolves_trans by (metis and_then.simps(1))

lemma good_from: "evolves t u \<Longrightarrow> good u r \<Longrightarrow> good t r"
  by (auto simp: good_def intro: evolves_trans)

lemma good_same: "work_view u = work_view t \<Longrightarrow> owned t \<Longrightarrow> good u r \<Longrightarrow> good t r"
  using evolves_same good_from by blast


definition drop_live :: "nat option \<Rightarrow> thr_info \<Rightarrow> thr_info" where
  "drop_live x t = t\<lparr>live := (case x of None \<Rightarrow> live t | Some w \<Rightarrow> remove1 w (live t))\<rparr>"

lemma free_held:
  assumes "owned t" "set (opt_list x) \<subseteq> set (held t)" "live u = live t"
  shows "free_if_any x u = Returns (drop_live x u)"
  using assms by (cases x) (auto simp: free_if_any_def free_work_id_def drop_live_def owned_def)

lemma held_parts: "set (opt_list (t_prev_work t)) \<subseteq> set (held t)" "set (opt_list (t_next_work t)) \<subseteq> set (held t)"
  by (auto simp: held_def)

text \<open>The meter of hashes leaves the rest alone.\<close>

lemma hashmeter2_frame [simp]:
  "t_prev_work (hashmeter2 opts t) = t_prev_work t" "t_work (hashmeter2 opts t) = t_work t" "t_next_work (hashmeter2 opts t) = t_next_work t"
  "live (hashmeter2 opts t) = live t" "next_id (hashmeter2 opts t) = next_id t" "t_work_restart (hashmeter2 opts t) = t_work_restart t"
  "t_in_transition (hashmeter2 opts t) = t_in_transition t" "driver_starting (hashmeter2 opts t) = driver_starting t"
  "t_starting_next_work (hashmeter2 opts t) = t_starting_next_work t"
  by (simp_all add: hashmeter2_def Let_def)

lemma mt_disable_start_frame [simp]:
  "t_prev_work (mt_disable_start opts t) = t_prev_work t" "t_work (mt_disable_start opts t) = t_work t" "t_next_work (mt_disable_start opts t) = t_next_work t"
  "live (mt_disable_start opts t) = live t" "next_id (mt_disable_start opts t) = next_id t" "driver_starting (mt_disable_start opts t) = driver_starting t"
  "t_starting_next_work (mt_disable_start opts t) = t_starting_next_work t"
  by (simp_all add: mt_disable_start_def)

lemma disable_start_good: "owned t \<Longrightarrow> good t (mt_disable_start__async opts t)"
proof -
  assume t: "owned t"
  have f: "free_if_any (t_prev_work t) (mt_disable_start opts t) = Returns (drop_live (t_prev_work t) (mt_disable_start opts t))"
    using free_held [OF t held_parts(1), of "mt_disable_start opts t"] by simp
  show ?thesis unfolding mt_disable_start__async_def Let_def mt_disable_start_frame f
    using t by (cases "t_prev_work t"; cases "t_work t"; cases "t_next_work t")
      (auto simp: evolves_def owned_def held_def drop_live_def)
qed

definition lost_next :: "thr_info \<Rightarrow> bool" where
  "lost_next t \<longleftrightarrow> t_starting_next_work t \<and> t_next_work t = None"

lemma transition_good: "owned t \<Longrightarrow> \<not> lost_next t \<Longrightarrow> good t (mt_job_transition tv_now t)"
proof -
  assume t: "owned t" and n: "\<not> lost_next t"
  show ?thesis
  proof (cases "t_starting_next_work t")
    case True
    then show ?thesis unfolding mt_job_transition_def free_held [OF t held_parts(1) refl]
      using t n by (cases "t_prev_work t"; cases "t_work t"; cases "t_next_work t")
        (auto simp: evolves_def owned_def held_def drop_live_def lost_next_def)
  qed (simp add: mt_job_transition_def evolves_same [OF _ t] work_view_def)
qed

lemma transition_lost: "lost_next t \<Longrightarrow> mt_job_transition tv_now t = Undefined"
  by (simp add: mt_job_transition_def lost_next_def)

lemma process_good: "owned t \<Longrightarrow> good t (do_process_results opts tv_now t)"
  by (auto simp: do_process_results_def hashes_done_def Let_def work_view_def intro!: evolves_same)

lemma complete_good: "owned t \<Longrightarrow> good t (job_start_complete opts tv_now t)"
  by (simp add: job_start_complete_def process_good evolves_refl)

lemma started_good: "owned t \<Longrightarrow> \<not> lost_next t \<Longrightarrow> good t (job_started opts tv_now m t)"
  unfolding job_started_def
  by (rule good_then [OF transition_good])
    (auto intro!: good_same [where u = "_\<lparr>t_tv_morework := m\<rparr>", OF _ _ complete_good] evolves_owned simp: work_view_def owned_def held_def evolves_def)

lemma abort_evolves: "owned t \<Longrightarrow> evolves t (job_start_abort failure t)"
  by (cases "t_work t") (auto simp: job_start_abort_def Let_def evolves_def owned_def held_def)

lemma job_start_good:
  assumes "owned t" "\<not> lost_next t"
  shows "good t (do_job_start opts tv_now t)"
proof -
  define r where "r = next_of START_LATER (starts t)"
  define u where "u = t\<lparr>starts := tl (starts t), driver_starting := (r = START_LATER)\<rparr>"
  have u: "work_view u = work_view t" "owned u" "\<not> lost_next u"
    using assms by (auto simp: u_def work_view_def owned_def held_def lost_next_def)
  have "do_job_start opts tv_now t = (case r of
           START_DONE morework \<Rightarrow> job_started opts tv_now morework u
         | START_LATER \<Rightarrow> Returns u
         | START_FAILS \<Rightarrow> Returns (job_start_abort True u))" by (cases r) (simp_all add: do_job_start_def Let_def r_def u_def)
  also have "good u \<dots>" using u by (cases r) (auto simp: started_good abort_evolves evolves_refl)
  finally show ?thesis by (rule good_same [OF u(1) assms(1)])
qed

lemma fetched_good: "owned t \<Longrightarrow> (t_proceed t \<Longrightarrow> \<not> lost_next t) \<Longrightarrow> good t (job_results_fetched opts tv_now t)"
  unfolding job_results_fetched_def
  by (auto intro!: job_start_good good_then [of t _ "mt_disable_start__async opts"] process_good disable_start_good evolves_refl dest: evolves_owned)

lemma get_results_good:
  assumes "owned t" "proceed \<Longrightarrow> \<not> lost_next t"
  shows "good t (do_get_results opts tv_now proceed t)"
proof -
  define r where "r = next_of FETCH_LATER (fetches t)"
  define u where "u = t\<lparr>t_in_transition := True, t_tv_results_jobstart := t_tv_jobstart t, t_proceed := proceed, fetches := tl (fetches t),
    driver_fetching := (r = FETCH_LATER)\<rparr>"
  have u: "work_view u = work_view t" "owned u" "t_proceed u \<Longrightarrow> \<not> lost_next u"
    using assms by (auto simp: u_def work_view_def owned_def held_def lost_next_def)
  have "do_get_results opts tv_now proceed t = (case r of FETCH_DONE \<Rightarrow> job_results_fetched opts tv_now u | FETCH_LATER \<Rightarrow> Returns u)"
    by (cases r) (simp_all add: do_get_results_def Let_def r_def u_def)
  also have "good u \<dots>" using u by (cases r) (auto simp: fetched_good evolves_refl)
  finally show ?thesis by (rule good_same [OF u(1) assms(1)])
qed

lemma prepare_complete_good: "owned t \<Longrightarrow> \<not> lost_next t \<Longrightarrow> good t (job_prepare_complete opts tv_now t)"
  by (simp add: job_prepare_complete_def evolves_refl get_results_good job_start_good)


text \<open>A new item in the place of the next one, which has been freed.\<close>

lemma replace_next:
  assumes "owned t" "get_and_prepare_work (drop_live (t_next_work t) (t\<lparr>t_work_restart := False\<rparr>)) = (u, w)"
  shows "evolves t (u\<lparr>t_next_work := w\<rparr>)"
proof -
  have l: "\<forall>x\<in>set (live t). x < next_id t" "next_id t \<notin> set (live t)" using assms(1) by (auto simp: owned_def)
  have "distinct (live t)" "distinct (held t)" "set (held t) \<subseteq> set (live t)" using assms(1) by (auto simp: owned_def)
  then show ?thesis using l assms(2)
    by (cases "next_of NO_WORK (gets t)"; cases "t_prev_work t"; cases "t_work t"; cases "t_next_work t")
      (auto simp: get_and_prepare_work_def drop_live_def evolves_def owned_def held_def Let_def less_Suc_eq)
qed

lemma job_prepare_good:
  assumes "owned t"
  shows "\<exists>u ok. do_job_prepare opts tv_now t = Returns (u, ok) \<and> evolves t u"
proof -
  define t' where "t' = (let t = t\<lparr>t_tv_morework := timer_unset (t_tv_morework t), t_in_transition := True\<rparr>
    in if t_work t = None then t else t\<lparr>abandons := tl (abandons t)\<rparr>)"
  define abandon where "abandon = (t_work t = None \<or> next_of True (abandons t))"
  have v: "work_view t' = work_view t" and t': "owned t'"
    using assms by (auto simp: t'_def work_view_def owned_def held_def Let_def)
  have e: "evolves t t'" using evolves_same [OF v assms] .
  have body: "do_job_prepare opts tv_now t =
      (if abandon then
           and_then (free_if_any (t_next_work t') (t'\<lparr>t_work_restart := False\<rparr>)) (\<lambda>t.
             let (t, w) = get_and_prepare_work t; t = t\<lparr>t_next_work := w\<rparr>
             in if w = None then Returns (t, False)
                else and_then (job_prepare_complete opts tv_now (t\<lparr>t_starting_next_work := True\<rparr>)) (\<lambda>t. Returns (t, True)))
         else and_then (job_prepare_complete opts tv_now (t'\<lparr>t_starting_next_work := False\<rparr>)) (\<lambda>t. Returns (t, True)))"
    by (auto simp: do_job_prepare_def t'_def abandon_def Let_def)
  show ?thesis
  proof (cases abandon)
    case False
    let ?u = "t'\<lparr>t_starting_next_work := False\<rparr>"
    have "owned ?u" "work_view ?u = work_view t'" "\<not> lost_next ?u" using t' by (auto simp: owned_def held_def work_view_def lost_next_def)
    then have "good t' (job_prepare_complete opts tv_now ?u)" using good_same prepare_complete_good t' by blast
    then show ?thesis using False body e evolves_trans by (auto simp: good_def)
  next
    case True
    obtain u w where g: "get_and_prepare_work (drop_live (t_next_work t') (t'\<lparr>t_work_restart := False\<rparr>)) = (u, w)"
      by (cases "get_and_prepare_work (drop_live (t_next_work t') (t'\<lparr>t_work_restart := False\<rparr>))")
    have u: "evolves t (u\<lparr>t_next_work := w\<rparr>)" using replace_next [OF t' g] e evolves_trans by blast
    have f: "free_if_any (t_next_work t') (t'\<lparr>t_work_restart := False\<rparr>) = Returns (drop_live (t_next_work t') (t'\<lparr>t_work_restart := False\<rparr>))"
      by (rule free_held [OF t' held_parts(2)]) simp
    show ?thesis
    proof (cases "w = None")
      case True
      then show ?thesis using \<open>abandon\<close> body f g u by (auto simp: Let_def)
    next
      case False
      let ?v = "u\<lparr>t_next_work := w, t_starting_next_work := True\<rparr>"
      have "owned ?v" "work_view ?v = work_view (u\<lparr>t_next_work := w\<rparr>)" "\<not> lost_next ?v"
        using evolves_owned [OF u] False by (auto simp: owned_def held_def work_view_def lost_next_def)
      then have "good t (job_prepare_complete opts tv_now ?v)"
        using good_same [OF _ evolves_owned [OF u]] prepare_complete_good good_from [OF u] by blast
      then show ?thesis using \<open>abandon\<close> False body f g by (auto simp: good_def Let_def)
    qed
  qed
qed

lemma unset_good: "owned t \<Longrightarrow> evolves t (t\<lparr>t_tv_morework := x\<rparr>)"
  by (rule evolves_same) (simp_all add: work_view_def)

lemma stop_good: "owned t \<Longrightarrow> good t (stop_processor opts tv_now is_running t)"
  unfolding stop_processor_def
  by (rule good_then) (auto simp: get_results_good disable_start_good work_view_def intro!: evolves_same unset_good dest: evolves_owned)

lemma prepare_or_stop_good: "owned t \<Longrightarrow> good t (prepare_or_stop opts tv_now is_running t)"
proof -
  assume t: "owned t"
  obtain u ok where u: "do_job_prepare opts tv_now t = Returns (u, ok)" "evolves t u" using job_prepare_good [OF t] by blast
  show ?thesis using u good_from [OF u(2) stop_good] evolves_owned [OF u(2)] by (simp add: prepare_or_stop_def)
qed

lemma round_good: "owned t \<Longrightarrow> good t (async_round opts tv_now t)"
proof -
  assume t: "owned t"
  have o: "owned (mt_disable_finish t)" "work_view (mt_disable_finish t) = work_view t"
    "owned (t\<lparr>t_in_transition := b\<rparr>)" "work_view (t\<lparr>t_in_transition := b\<rparr>) = work_view t" for b
    using t by (auto simp: owned_def held_def work_view_def mt_disable_finish_def)
  note g = good_same [OF o(2) t prepare_or_stop_good [OF o(1)]] good_same [OF o(4) t stop_good [OF o(3)]]
    prepare_or_stop_good [OF t] stop_good [OF t] unset_good [OF t] evolves_refl [OF t]
  show ?thesis unfolding async_round_def Let_def
    using g good_same [OF o(4) t, of False "Returns _"] unset_good [OF o(3)] by auto
qed

text \<open>An impossible start is the only way to undefined behaviour.\<close>

lemma event_good: "owned t \<Longrightarrow> loop_step opts e t = Undefined \<and> lost_next t \<and> (\<nexists>tv. e = Round tv) \<or> good t (loop_step opts e t)"
proof -
  assume t: "owned t"
  have o: "owned (t\<lparr>driver_starting := False\<rparr>)" "owned (t\<lparr>driver_fetching := False\<rparr>)" using t by (auto simp: owned_def held_def)
  have v: "work_view (t\<lparr>driver_starting := False\<rparr>) = work_view t" "work_view (t\<lparr>driver_fetching := False\<rparr>) = work_view t"
    by (simp_all add: work_view_def)
  show ?thesis
  proof (cases e)
    case (Job_started a m)
    show ?thesis
    proof (cases "lost_next t")
      case True
      then have "lost_next (t\<lparr>driver_starting := False\<rparr>)" by (simp add: lost_next_def)
      then show ?thesis using True Job_started by (simp add: job_started_def transition_lost)
    next
      case False
      then have "\<not> lost_next (t\<lparr>driver_starting := False\<rparr>)" by (simp add: lost_next_def)
      then show ?thesis using good_same [OF v(1) t started_good [OF o(1)]] Job_started by simp
    qed
  next
    case (Results_fetched a)
    show ?thesis
    proof (cases "lost_next t")
      case False
      then have "\<not> lost_next (t\<lparr>driver_fetching := False\<rparr>)" by (simp add: lost_next_def)
      then show ?thesis using good_same [OF v(2) t fetched_good [OF o(2)]] Results_fetched by simp
    next
      case True
      show ?thesis
      proof (cases "t_proceed t")
        case proceed: True
        define r where "r = next_of START_LATER (starts t)"
        define u where "u = t\<lparr>driver_fetching := False, starts := tl (starts t), driver_starting := (r = START_LATER)\<rparr>"
        have u: "work_view u = work_view t" "owned u" "lost_next u" using t True by (auto simp: u_def work_view_def owned_def held_def lost_next_def)
        have step: "loop_step opts e t = (case r of START_DONE m \<Rightarrow> job_started opts a m u | START_LATER \<Rightarrow> Returns u | START_FAILS \<Rightarrow> Returns (job_start_abort True u))"
          using proceed Results_fetched by (cases r) (simp_all add: job_results_fetched_def do_job_start_def Let_def r_def u_def)
        have "good t (Returns u)" "good t (Returns (job_start_abort True u))"
          using good_same [OF u(1) t, of "Returns _"] abort_evolves [OF u(2)] evolves_refl [OF u(2)] by auto
        moreover have "job_started opts a m u = Undefined" for m using u(3) by (simp add: job_started_def transition_lost)
        ultimately show ?thesis unfolding step using True Results_fetched by (cases r) auto
      next
        case False
        then have "good (t\<lparr>driver_fetching := False\<rparr>) (loop_step opts e t)" using fetched_good [OF o(2)] Results_fetched by simp
        then show ?thesis using good_same [OF v(2) t] by blast
      qed
    qed
  qed (use t o v in \<open>auto simp: round_good work_view_def intro!: evolves_same good_same [OF v(1) t, of "Returns _", simplified] abort_evolves\<close>)
qed


lemma reaches_evolves: "loop_reaches opts t u \<Longrightarrow> owned t \<Longrightarrow> evolves t u"
proof (induction rule: loop_reaches.induct)
  case (step t u e v)
  then have u: "evolves t u" by simp
  have "good u (Returns v)" using event_good [OF evolves_owned [OF u], of opts e] step.hyps(3) by simp
  then show ?case using evolves_trans [OF u] by simp
qed (rule evolves_refl)

lemma new_thread_owned: "owned new_thread"
  by (simp add: owned_def held_def new_thread_def)

section \<open>Properties of the asynchronous loop\<close>

text \<open>
  C6. No work item is freed twice or used after it was freed, in any order of rounds, answers of the driver and requests:
  the current, the previous and the next item of a processor are different and allocated; and the only step that can
  be undefined is a driver reporting a start after the item to start was lost.
\<close>

theorem loop_owns_work:
  assumes "loop_reaches opts new_thread t"
  shows "distinct (held t) \<and> set (held t) \<subseteq> set (live t) \<and>
    (\<forall>e. loop_step opts e t = Undefined \<longrightarrow> t_starting_next_work t \<and> t_next_work t = None \<and> (\<nexists>tv. e = Round tv))"
proof -
  have t: "owned t" using reaches_evolves [OF assms new_thread_owned] evolves_owned by blast
  have "lost_next t \<and> (\<nexists>tv. e = Round tv)" if "loop_step opts e t = Undefined" for e
    using event_good [OF t, of opts e] that by (auto simp: good_def)
  then show ?thesis using t by (auto simp: owned_def lost_next_def)
qed

text \<open>
  A job that cannot be started is lost for good: the item the processor worked on before is forgotten without being
  freed, and no later step frees or uses it.
\<close>

theorem failed_start_leaks:
  assumes "loop_reaches opts new_thread t" "t_work t = Some w" "loop_step opts (Job_failed failure) t = Returns u" "loop_reaches opts u v"
  shows "w \<in> set (live v) \<and> w \<notin> set (held v)"
proof -
  have t: "owned t" using reaches_evolves [OF assms(1) new_thread_owned] evolves_owned by blast
  have u: "u = job_start_abort failure (t\<lparr>driver_starting := False\<rparr>)" using assms(3) by simp
  have "owned (t\<lparr>driver_starting := False\<rparr>)" using t by (auto simp: owned_def held_def)
  then have "owned u" unfolding u by (rule evolves_owned [OF abort_evolves])
  moreover have "w \<in> set (live u) \<and> w \<notin> set (held u)"
    using t assms(2) unfolding u by (cases "t_prev_work t"; cases "t_next_work t") (auto simp: job_start_abort_def Let_def owned_def held_def)
  ultimately show ?thesis using reaches_evolves [OF assms(4)] by (auto simp: evolves_def)
qed


lemma process_frame:
  "\<exists>u. do_process_results opts tv_now t = Returns u \<and> work_view u = work_view t \<and> t_work_restart u = t_work_restart t \<and>
     t_in_transition u = t_in_transition t"
  by (auto simp: do_process_results_def hashes_done_def Let_def work_view_def)

text \<open>
  C14. A restart reaches the device: in the round after it, if the item at hand is abandoned and the driver answers at once, the
  processor works on a new item, the old one is kept as the previous one, what was kept before is freed, and the request
  is taken back.
\<close>

theorem restart_starts_new_work:
  assumes "owned t" "t_busy_state t = TBS_IDLE" "t_work t = Some w" "t_deven t = DEV_ENABLED" "\<not> t_pause t" "t_work_restart t"
    "next_of True (abandons t)" "next_of NO_WORK (gets t) = GOT_WORK" "next_of FETCH_LATER (fetches t) = FETCH_DONE"
    "next_of START_LATER (starts t) = START_DONE m"
  shows "\<exists>u. async_round opts tv_now t = Returns u \<and> t_work u = Some (next_id t) \<and> t_prev_work u = Some w \<and> t_next_work u = None \<and>
    \<not> t_work_restart u \<and> \<not> t_in_transition u \<and> set (live u) = {next_id t, w}  \<union> (set (live t) - set (held t))"
proof -
  let ?s0 = "t\<lparr>t_tv_morework := timer_unset (t_tv_morework t), t_in_transition := True, abandons := tl (abandons t)\<rparr>"
  let ?s1 = "(drop_live (t_next_work t) (?s0\<lparr>t_work_restart := False\<rparr>))\<lparr>gets := tl (gets t)\<rparr>"
  let ?s2 = "?s1\<lparr>live := next_id t # live ?s1, next_id := next_id t + 1, t_next_work := Some (next_id t), t_starting_next_work := True\<rparr>"
  let ?s3 = "?s2\<lparr>t_in_transition := True, t_tv_results_jobstart := t_tv_jobstart t, t_proceed := True, fetches := tl (fetches t), driver_fetching := False,
    starts := tl (starts t), driver_starting := False\<rparr>"
  let ?s4 = "(drop_live (t_prev_work t) ?s3)\<lparr>t_prev_work := Some w, t_work := Some (next_id t), t_next_work := None, t_tv_jobstart := tv_now,
    t_in_transition := False, t_tv_morework := m\<rparr>"
  have s0: "owned ?s0" "t_next_work ?s0 = t_next_work t" using assms(1) by (auto simp: owned_def held_def)
  have f1: "free_if_any (t_next_work t) (?s0\<lparr>t_work_restart := False\<rparr>) = Returns (drop_live (t_next_work t) (?s0\<lparr>t_work_restart := False\<rparr>))"
    by (rule free_held [OF assms(1) held_parts(2)]) simp
  have g: "get_and_prepare_work (drop_live (t_next_work t) (?s0\<lparr>t_work_restart := False\<rparr>)) =
      (?s1\<lparr>live := next_id t # live ?s1, next_id := next_id t + 1\<rparr>, Some (next_id t))"
    using assms(8) by (simp add: get_and_prepare_work_def drop_live_def Let_def)
  have "owned ?s2"
  proof -
    have "evolves ?s0 ((?s1\<lparr>live := next_id t # live ?s1, next_id := next_id t + 1\<rparr>)\<lparr>t_next_work := Some (next_id t)\<rparr>)"
      by (rule replace_next [OF s0(1)]) (simp add: g)
    from evolves_owned [OF this] show ?thesis by (auto simp: owned_def held_def)
  qed
  then have f2: "free_if_any (t_prev_work t) ?s3 = Returns (drop_live (t_prev_work t) ?s3)"
    by (rule free_held) (auto simp: held_def drop_live_def)
  have fields: "t_next_work ?s3 = Some (next_id t)" "t_prev_work ?s3 = t_prev_work t" "t_work ?s3 = Some w" "t_starting_next_work ?s3" by (auto simp: drop_live_def assms(3))
  have tr: "mt_job_transition tv_now ?s3 = Returns ((drop_live (t_prev_work t) ?s3)\<lparr>t_prev_work := Some w, t_work := Some (next_id t), t_next_work := None,
    t_tv_jobstart := tv_now, t_in_transition := False\<rparr>)"
    unfolding mt_job_transition_def fields(1,2) f2 using fields by (simp add: drop_live_def)
  obtain u where u: "do_process_results opts tv_now ?s4 = Returns u" "work_view u = work_view ?s4" "t_work_restart u = t_work_restart ?s4"
      "t_in_transition u = t_in_transition ?s4" using process_frame by blast
  have start: "job_started opts tv_now m ?s3 = Returns u"
    unfolding job_started_def tr using u(1) by (simp add: job_start_complete_def)
  have results: "do_get_results opts tv_now True ?s2 = Returns u"
  proof -
    have "do_get_results opts tv_now True ?s2 = job_started opts tv_now m ?s3"
      using assms(9,10) by (simp add: do_get_results_def job_results_fetched_def do_job_start_def Let_def drop_live_def)
    then show ?thesis using start by simp
  qed
  have "do_job_prepare opts tv_now t = Returns (u, True)"
  proof -
    have "job_prepare_complete opts tv_now ?s2 = Returns u"
      using results assms(2,3) by (simp add: job_prepare_complete_def drop_live_def)
    then show ?thesis using assms(3,7) f1 g by (simp add: do_job_prepare_def Let_def)
  qed
  then have "async_round opts tv_now t = Returns u"
    using assms(2-6) by (simp add: async_round_def prepare_or_stop_def Let_def)
  moreover have "set (live ?s4) = {next_id t, w} \<union> (set (live t) - set (held t))"
    using assms(1,3) by (cases "t_prev_work t"; cases "t_next_work t") (auto simp: drop_live_def owned_def held_def)
  ultimately show ?thesis using u(2-4) by (auto simp: work_view_def drop_live_def)
qed


section \<open>Hashes\<close>

text \<open>A hash that was reported is with the meter or waits for it, once.\<close>

definition all_hashes :: "thr_info \<Rightarrow> u64" where
  "all_hashes t = sum_list (metered t) + t_hashes_done t"

lemma hashmeter2_counts: "all_hashes (hashmeter2 opts t) = all_hashes t"
  by (simp add: all_hashes_def hashmeter2_def Let_def)

lemma hashes_done_counts:
  "hashes_done opts n d None t = Returns (u, m, ok) \<Longrightarrow> all_hashes u = all_hashes t + (if n = - 1 then 0 else word_of_int n)"
  by (auto simp: hashes_done_def Let_def hashmeter2_counts split: if_splits) (simp_all add: all_hashes_def)

section \<open>Ranges of nonces\<close>

definition timeval_us :: "timeval \<Rightarrow> int" where
  "timeval_us t = tv_sec t * 1000000 + tv_usec t"

text \<open>
  The next range of nonces is the one that would have taken \<open>cycle\<close> seconds, or all nonces if that is less: nothing wraps around in
  64 bits as long as the cycle stays below 4294 seconds; only hashes that took no time at all are a division by zero.
\<close>

theorem scale_max_nonce_exact:
  assumes "0 \<le> tv_sec t" "tv_sec t < 2 ^ 40" "0 \<le> tv_usec t" "tv_usec t < 1000000" "0 \<le> cycle" "cycle \<le> 4294"
  shows "scale_max_nonce cycle t n =
    (if timeval_us t = 0 then Undefined
     else Returns (word_of_int (min (2 ^ 32 - 1) (uint n * cycle * 1000000 div timeval_us t))))"
proof -
  define d where "d = (word_of_int (tv_sec t) * 1000000 + word_of_int (tv_usec t) :: u64)"
  define x where "x = (ucast n * word_of_int cycle * 1000000 :: u64)"
  have us: "0 \<le> timeval_us t" "timeval_us t < 2 ^ 64" using assms(1-4) by (auto simp: timeval_us_def)
  have "d = word_of_int (timeval_us t)" by (simp add: d_def timeval_us_def)
  then have d: "uint d = timeval_us t" using us by (simp add: uint_word_of_int)
  have n: "0 \<le> uint n" "uint n < 2 ^ 32" using unsigned_greater_eq [of n] unsigned_less [of n, where 'a = int] by simp_all
  have million: "(1000000 :: u64) = word_of_int 1000000" by simp
  have x_eq: "x = word_of_int (uint n * cycle * 1000000)" unfolding x_def million by (simp only: ucast_eq wi_hom_mult)
  have "uint n * cycle \<le> 2 ^ 32 * 4294" using n assms(5,6) by (intro mult_mono) auto
  then have "uint n * cycle * 1000000 \<le> 2 ^ 32 * 4294 * 1000000" by (rule mult_right_mono) simp
  then have small: "uint n * cycle * 1000000 < 2 ^ LENGTH(64)" by (rule le_less_trans) simp
  have nonneg: "0 \<le> uint n * cycle * 1000000" using n assms(5) by simp
  have x: "uint x = uint n * cycle * 1000000" by (rule word_of_int_inverse [OF x_eq [symmetric] nonneg small])
  have q: "uint (x div d) = uint n * cycle * 1000000 div timeval_us t" by (simp add: uint_div_distrib x d)
  have z: "d = 0 \<longleftrightarrow> timeval_us t = 0" using d by (metis unsigned_0 unsigned_eq_0_iff)
  have g: "x div d > 0xffffffff \<longleftrightarrow> uint n * cycle * 1000000 div timeval_us t > 2 ^ 32 - 1" unfolding q [symmetric] by (simp add: word_less_def)
  have "(if x div d > 0xffffffff then 0xffffffff else ucast (x div d)) =
      (word_of_int (min (2 ^ 32 - 1) (uint n * cycle * 1000000 div timeval_us t)) :: u32)"
  proof (cases "x div d > 0xffffffff")
    case True
    then show ?thesis using g by (simp add: min_def)
  next
    case False
    then have "min (2 ^ 32 - 1) (uint n * cycle * 1000000 div timeval_us t) = uint (x div d)" using g q by (simp add: min_def)
    then show ?thesis using False by (simp only: if_False ucast_eq)
  qed
  then show ?thesis by (simp add: scale_max_nonce_def Let_def d_def [symmetric] x_def [symmetric] z)
qed

section \<open>The loop that scans\<close>

lemma hashes_done_view: "hashes_done opts h d n t = Returns (u, m, ok) \<Longrightarrow> work_view u = work_view t"
  by (cases n; cases "scale_max_nonce (log_cycle opts) (timeradd (t_tv_hashes_done t) d) (the n)")
    (auto simp: hashes_done_def Let_def work_view_def split: if_splits)

lemma scan_loop_view: "scan_loop opts limits n rs t = Returns (u, m, qs) \<Longrightarrow> work_view u = work_view t"
proof (induction rs arbitrary: n t)
  case (Cons r rs)
  let ?t = "t\<lparr>t_work_restart := t_work_restart t \<or> sr_restart r, t_pause := sr_pause r\<rparr>"
  let ?h = "hashes_done opts (sr_hashes r) (sr_time r) (if limits then Some n else None) ?t"
  obtain v k ok where h: "?h = Returns (v, k, ok)" using Cons.prems by (cases ?h) auto
  have v: "work_view v = work_view t" using hashes_done_view [OF h] by (simp add: work_view_def)
  have d: "work_view (mt_disable opts v) = work_view v" "work_view (x\<lparr>abandons := y\<rparr>) = work_view x" for x y
    by (simp_all add: work_view_def mt_disable_def mt_disable_finish_def)
  show ?case using Cons.prems v d Cons.IH by (auto simp: h Let_def split: if_splits)
qed simp

text \<open>The loop that scans frees what it gets.\<close>

lemma scanhash_round_frees:
  "owned t \<Longrightarrow> scanhash_round opts limits n rs t = Returns (u, m, qs, ok) \<Longrightarrow> live u = live t \<and> held u = held t"
proof -
  assume t: "owned t" and r: "scanhash_round opts limits n rs t = Returns (u, m, qs, ok)"
  show ?thesis
  proof (cases "next_of NO_WORK (gets t) = GOT_WORK")
    case True
    let ?t = "t\<lparr>t_work_restart := False, gets := tl (gets t), live := next_id t # live t, next_id := next_id t + 1\<rparr>"
    have g: "get_and_prepare_work (t\<lparr>t_work_restart := False\<rparr>) = (?t, Some (next_id t))"
      using True by (simp add: get_and_prepare_work_def Let_def)
    obtain v k qs' where l: "scan_loop opts limits n rs ?t = Returns (v, k, qs')"
      using r by (cases "scan_loop opts limits n rs ?t") (auto simp: scanhash_round_def g)
    then have v: "work_view v = work_view ?t" by (rule scan_loop_view)
    then have f: "free_work_id (next_id t) v = Returns (v\<lparr>live := live t\<rparr>)" by (simp add: free_work_id_def work_view_def)
    have "u = v\<lparr>live := live t\<rparr>" using r unfolding scanhash_round_def Let_def g prod.case option.case l and_then.simps f by simp
    then show ?thesis using v by (simp add: work_view_def held_def)
  next
    case False
    then show ?thesis using r
      by (cases "next_of NO_WORK (gets t)") (auto simp: scanhash_round_def get_and_prepare_work_def held_def Let_def)
  qed
qed

section \<open>The loop for devices with a queue\<close>

text \<open>The items of the driver are neither the loop's nor anybody's else.\<close>

definition queue_ok :: "thr_info \<Rightarrow> bool" where
  "queue_ok t \<longleftrightarrow> owned t \<and> t_prev_work t = None \<and> t_work t = None \<and> distinct (queued t) \<and> set (queued t) \<inter> set (live t) = {} \<and>
     (\<forall>w\<in>set (queued t). w < next_id t)"

text \<open>A new item is nobody's yet.\<close>

lemma get_work_cases:
  assumes "get_and_prepare_work t = (u, w)" "queue_ok t" "t_next_work t = None"
  shows "w = None \<and> queue_ok u \<and> queued u = queued t \<and> t_next_work u = None \<and> next_id t \<le> next_id u \<and> appends u = appends t \<or>
    (w = Some (next_id t) \<and> u = t\<lparr>gets := tl (gets t), live := next_id t # live t, next_id := next_id t + 1\<rparr>)"
  using assms by (cases "next_of NO_WORK (gets t)") (auto simp: get_and_prepare_work_def Let_def queue_ok_def owned_def held_def less_Suc_eq)

lemma handed_ok:
  assumes "queue_ok t" "t_next_work t = Some w"
  shows "queue_ok (t\<lparr>t_next_work := None, queued := queued t @ [w], live := remove1 w (live t)\<rparr>)"
  using assms by (auto simp: queue_ok_def owned_def held_def)

text \<open>What the driver has, and then the item it refused, are what they were before, with new items behind.\<close>

definition fed :: "thr_info \<Rightarrow> thr_info \<Rightarrow> bool" where
  "fed t u \<longleftrightarrow> queue_ok u \<and> next_id t \<le> next_id u \<and>
     (\<exists>ws. queued u @ opt_list (t_next_work u) = queued t @ opt_list (t_next_work t) @ ws \<and> (\<forall>w\<in>set ws. next_id t \<le> w))"

lemma fed_trans: "fed t u \<Longrightarrow> fed u v \<Longrightarrow> fed t v"
proof -
  assume a: "fed t u" and b: "fed u v"
  obtain xs where x: "queued u @ opt_list (t_next_work u) = queued t @ opt_list (t_next_work t) @ xs" "\<forall>w\<in>set xs. next_id t \<le> w"
    "next_id t \<le> next_id u" using a by (auto simp: fed_def)
  obtain ys where y: "queued v @ opt_list (t_next_work v) = (queued u @ opt_list (t_next_work u)) @ ys" "\<forall>w\<in>set ys. next_id u \<le> w"
    "next_id u \<le> next_id v" "queue_ok v" using b by (auto simp: fed_def)
  have "queued v @ opt_list (t_next_work v) = queued t @ opt_list (t_next_work t) @ (xs @ ys)" using y(1) x(1) by simp
  moreover have "\<forall>w\<in>set (xs @ ys). next_id t \<le> w" using x(2,3) y(2) by (auto intro: order_trans)
  ultimately show "fed t v" using x(3) y(3,4) unfolding fed_def by (intro conjI exI [of _ "xs @ ys"]) simp_all
qed

text \<open>One item given to the driver, or kept.\<close>

definition offer :: "bool \<Rightarrow> bool \<Rightarrow> nat \<Rightarrow> thr_info \<Rightarrow> thr_info" where
  "offer taken full w t =
     (let t = t\<lparr>appends := tl (appends t), t_queue_full := full\<rparr>
      in if taken then t\<lparr>queued := queued t @ [w], live := remove1 w (live t)\<rparr> else t\<lparr>t_next_work := Some w\<rparr>)"

lemma fed_offer_next: "queue_ok t \<Longrightarrow> t_next_work t = Some w \<Longrightarrow> fed t (offer taken full w (t\<lparr>t_next_work := None\<rparr>))"
  by (auto simp: fed_def offer_def Let_def queue_ok_def owned_def held_def)

lemma fed_offer_new:
  "queue_ok t \<Longrightarrow> t_next_work t = None \<Longrightarrow>
   fed t (offer taken full (next_id t) (t\<lparr>gets := g, live := next_id t # live t, next_id := next_id t + 1\<rparr>))"
  by (auto simp: fed_def offer_def Let_def queue_ok_def owned_def held_def less_Suc_eq)

text \<open>Filling the queue keeps the order and loses nothing.\<close>

lemma fill_queue_fed: "queue_ok t \<Longrightarrow> fed t (fill_queue t)"
proof (induction t rule: fill_queue.induct)
  case (1 t)
  show ?case
  proof (cases "t_queue_full t \<or> appends t = []")
    case True
    then show ?thesis using "1.prems" by (simp add: fill_queue.simps [of t] fed_def)
  next
    case False
    obtain taken full where a: "hd (appends t) = (taken, full)" by (cases "hd (appends t)")
    obtain u w where uw: "(case t_next_work t of Some w \<Rightarrow> (t\<lparr>t_next_work := None\<rparr>, Some w) | None \<Rightarrow> get_and_prepare_work t) = (u, w)"
      by (cases "case t_next_work t of Some w \<Rightarrow> (t\<lparr>t_next_work := None\<rparr>, Some w) | None \<Rightarrow> get_and_prepare_work t")
    have "appends u = appends t"
      using uw by (cases "t_next_work t"; cases "next_of NO_WORK (gets t)") (auto simp: get_and_prepare_work_def Let_def)
    note same = this
    have body: "fill_queue t = (case w of None \<Rightarrow> u | Some w \<Rightarrow> fill_queue (offer taken full w u))"
      using False by (subst fill_queue.simps) (simp add: uw a same offer_def Let_def split: option.split)
    show ?thesis
    proof (cases w)
      case None
      then have n: "t_next_work t = None" "get_and_prepare_work t = (u, None)" using uw by (auto split: option.splits)
      then show ?thesis using get_work_cases [OF n(2) "1.prems" n(1)] body None by (auto simp: fed_def)
    next
      case (Some x)
      have fed: "fed t (offer taken full x u)"
      proof (cases "t_next_work t")
        case None
        then have "get_and_prepare_work t = (u, Some x)" using uw Some by simp
        from get_work_cases [OF this "1.prems" None] show ?thesis using fed_offer_new [OF "1.prems" None] by auto
      next
        case (Some y)
        then show ?thesis using uw \<open>w = Some x\<close> fed_offer_next [OF "1.prems"] by auto
      qed
      have "queue_ok (offer taken full x u) \<Longrightarrow> fed (offer taken full x u) (fill_queue (offer taken full x u))"
        using "1.IH" [OF False uw [symmetric] refl Some a [symmetric] refl] by (simp add: offer_def Let_def same)
      then have "fed (offer taken full x u) (fill_queue (offer taken full x u))" using fed by (simp add: fed_def)
      then show ?thesis using fed_trans [OF fed] body Some by simp
    qed
  qed
qed

lemma free_next_ok: "queue_ok t \<Longrightarrow> free_if_any (t_next_work t) t = Returns (drop_live (t_next_work t) t)"
  using free_held [OF _ held_parts(2) refl] by (simp add: queue_ok_def)

lemma flush_ok: "queue_ok t \<Longrightarrow> \<exists>u. do_queue_flush t = Returns u \<and> queue_ok u"
proof -
  assume t: "queue_ok t"
  have "queue_ok ((drop_live (t_next_work t) t)\<lparr>t_next_work := None, queued := []\<rparr>)"
    using t by (cases "t_next_work t") (auto simp: drop_live_def queue_ok_def owned_def held_def)
  then show ?thesis by (simp add: do_queue_flush_def free_next_ok [OF t])
qed


end
