(* ===== verification/MinerLoopExamples.thy ===== *)
theory MinerLoopExamples
  imports MinerLoop
begin

text \<open>
  Runs of the loops: a processor that has started its first job, one that is starting it, and one whose work is to be restarted.
\<close>

definition loop_opts0 :: loop_opts where
  "loop_opts0 = \<lparr>opt_restart = True, opt_log_interval = 20\<rparr>"

abbreviation at_time :: "int \<Rightarrow> timeval" where
  "at_time s \<equiv> \<lparr>tv_sec = s, tv_usec = 0\<rparr>"

text \<open>The thread with answers, after the events.\<close>

fun run_events :: "loop_opts \<Rightarrow> loop_event list \<Rightarrow> thr_info \<Rightarrow> thr_info outcome" where
  "run_events opts [] t = Returns t"
| "run_events opts (e # es) t = (if possible e t then and_then (loop_step opts e t) (run_events opts es) else Undefined)"

lemma run_events_reach: "run_events opts es t = Returns u \<Longrightarrow> loop_reaches opts s t \<Longrightarrow> loop_reaches opts s u"
proof (induction es arbitrary: t)
  case (Cons e es)
  then obtain v where v: "possible e t" "loop_step opts e t = Returns v" "run_events opts es v = Returns u"
    by (cases "loop_step opts e t") (auto split: if_splits)
  show ?case by (rule Cons.IH [OF v(3) loop_reaches.step [OF Cons.prems(2) v(1,2)]])
qed simp

lemmas loop_defs = async_round_def prepare_or_stop_def stop_processor_def do_job_prepare_def job_prepare_complete_def do_get_results_def
  job_results_fetched_def do_job_start_def job_started_def job_start_abort_def job_start_complete_def mt_job_transition_def
  mt_disable_start__async_def mt_disable_start_def mt_disable_finish_def do_process_results_def get_and_prepare_work_def
  free_if_any_def free_work_id_def next_of_def timer_unset_def timer_isset_def timer_passed_def timer_less_def hashmeter2_def

text \<open>A first job, started at once.\<close>

definition first_job :: "loop_event list" where
  "first_job = [Answers [GOT_WORK] [START_DONE (at_time 60)] [] [] [], Round (at_time 10)]"

text \<open>A first job the driver is starting, and a request to restart the work.\<close>

definition first_job_starting :: "loop_event list" where
  "first_job_starting = [Answers [GOT_WORK] [START_LATER] [] [] [], Round (at_time 10), Work_restart]"

text \<open>A second job, whose start takes time.\<close>

definition second_job_starting :: "loop_event list" where
  "second_job_starting = first_job @ [Work_restart, Answers [GOT_WORK] [START_LATER] [FETCH_DONE] [] [True], Round (at_time 20)]"

lemma first_job_run:
  "\<exists>t. run_events loop_opts0 first_job new_thread = Returns t \<and> t_work t = Some 0 \<and> t_busy_state t = TBS_IDLE \<and> live t = [0] \<and> held t = [0] \<and> next_id t = 1 \<and>
     t_deven t = DEV_ENABLED \<and> \<not> t_pause t"
  by (simp add: first_job_def new_thread_def loop_defs Let_def held_def)

lemma first_job_starting_run:
  "\<exists>t. run_events loop_opts0 first_job_starting new_thread = Returns t \<and> driver_starting t \<and> t_starting_next_work t \<and> t_busy_state t = TBS_IDLE \<and>
     t_work t = None \<and> t_in_transition t \<and> t_deven t = DEV_ENABLED \<and> \<not> t_pause t \<and> t_work_restart t \<and> gets t = []"
  by (simp add: first_job_starting_def new_thread_def loop_defs Let_def)

lemma second_job_starting_run:
  "\<exists>t. run_events loop_opts0 second_job_starting new_thread = Returns t \<and> driver_starting t \<and> t_work t = Some 0"
  by (simp add: second_job_starting_def first_job_def new_thread_def loop_defs Let_def)

theorem loop_owns_work_witness:
  "\<exists>t. run_events loop_opts0 first_job new_thread = Returns t \<and> held t = [0] \<and> distinct (held t) \<and> set (held t) \<subseteq> set (live t)"
proof -
  obtain t where t: "run_events loop_opts0 first_job new_thread = Returns t" "held t = [0]" using first_job_run by blast
  show ?thesis using t loop_owns_work [OF run_events_reach [OF t(1) loop_reaches.here]] by blast
qed

theorem failed_start_leaks_witness:
  "\<exists>t u. run_events loop_opts0 second_job_starting new_thread = Returns t \<and> possible (Job_failed True) t \<and>
     loop_step loop_opts0 (Job_failed True) t = Returns u \<and> 0 \<in> set (live u) \<and> 0 \<notin> set (held u)"
proof -
  obtain t where t: "run_events loop_opts0 second_job_starting new_thread = Returns t" "driver_starting t" "t_work t = Some 0"
    using second_job_starting_run by blast
  obtain u where u: "loop_step loop_opts0 (Job_failed True) t = Returns u" by simp
  show ?thesis using t u failed_start_leaks [OF run_events_reach [OF t(1) loop_reaches.here] t(3) u loop_reaches.here] by auto
qed


definition restarted :: thr_info where
  "restarted = new_thread\<lparr>t_prev_work := Some 0, t_work := Some 1, t_next_work := Some 2, live := [2, 1, 0], next_id := 3, t_work_restart := True,
     t_tv_morework := at_time 60, gets := [GOT_WORK], starts := [START_DONE (at_time 90)], fetches := [FETCH_DONE], processed := [4096],
     abandons := [True]\<rparr>"

theorem restart_starts_new_work_witness:
  "\<exists>u. async_round loop_opts0 (at_time 20) restarted = Returns u \<and> t_work u = Some 3 \<and> t_prev_work u = Some 1 \<and> set (live u) = {3, 1}"
proof -
  have r: "owned restarted" "t_busy_state restarted = TBS_IDLE" "t_work restarted = Some 1" "t_deven restarted = DEV_ENABLED" "\<not> t_pause restarted"
    "t_work_restart restarted" "next_of True (abandons restarted)" "next_of NO_WORK (gets restarted) = GOT_WORK"
    "next_of FETCH_LATER (fetches restarted) = FETCH_DONE" "next_of START_LATER (starts restarted) = START_DONE (at_time 90)"
    by (simp_all add: restarted_def new_thread_def next_of_def owned_def held_def)
  have "next_id restarted = 3" "set (live restarted) - set (held restarted) = {}" by (simp_all add: restarted_def new_thread_def held_def)
  then show ?thesis using restart_starts_new_work [OF r, of loop_opts0 "at_time 20"] by auto
qed

theorem scale_max_nonce_exact_witness:
  "scale_max_nonce 4 \<lparr>tv_sec = 8, tv_usec = 0\<rparr> 0x1000 = Returns 0x800"
  using scale_max_nonce_exact [of "\<lparr>tv_sec = 8, tv_usec = 0\<rparr>" 4 "0x1000"] by (simp add: timeval_us_def)

definition with_queue :: thr_info where
  "with_queue = new_thread\<lparr>t_next_work := Some 1, live := [1], next_id := 2, queued := [0], gets := [GOT_WORK, GOT_WORK],
     appends := [(True, False), (True, True)]\<rparr>"


end
