(* ===== verification/Devices.thy ===== *)
theory Devices
  imports UriParams MinerLoop
begin

text \<open>
  The devices as options and commands name them (\<^verbatim>\<open>miner.c\<close>), and their settings (\<^verbatim>\<open>deviceapi.c\<close>). A processor is a number, the
  table gives the structures. What the driver's own setters do is an argument.
\<close>

section \<open>State\<close>

text \<open>
  The unchanging part of \<^verbatim>\<open>cgpu_info\<close>: the names of the driver, the device the processor belongs to, itself and the processors linked behind it,
  its numbers, path and serial.
\<close>

record cgpu_id =
  drv_dname :: string
  drv_name :: string
  cg_device :: nat
  cg_procs :: "nat list"
  device_id :: int
  proc_id :: int
  device_path :: "string option"
  dev_serial :: "string option"

record device_table =
  devices :: "nat list"
  cgpus :: "nat \<Rightarrow> cgpu_id"

text \<open>\<^verbatim>\<open>INT_MAX\<close>.\<close>

definition INT_MAX :: int where
  "INT_MAX = 2 ^ 31 - 1"

section \<open>Paths\<close>

text \<open>\<open>stat\<close> gives the device number of a path, as bytes.\<close>

definition devpath_to_devid :: "(string \<Rightarrow> bytes option) \<Rightarrow> string \<Rightarrow> string option" where
  "devpath_to_devid stat devpath =
     (if chat devpath 0 \<noteq> CHR ''/'' then None else map_option (\<lambda>rdev. ''dev_t:'' @ bin2hex rdev) (stat devpath))"

definition devpaths_match :: "(string \<Rightarrow> bytes option) \<Rightarrow> string \<Rightarrow> string \<Rightarrow> bool" where
  "devpaths_match stat ap bp =
     (case devpath_to_devid stat ap of
        None \<Rightarrow> False
      | Some a \<Rightarrow> (case devpath_to_devid stat bp of None \<Rightarrow> False | Some b \<Rightarrow> a = b))"

section \<open>Patterns\<close>

text \<open>The length of what precedes the numbers: a name of the driver, the letter d, or nothing.\<close>

definition match_start :: "cgpu_id \<Rightarrow> string \<Rightarrow> nat option" where
  "match_start c pattern =
     (if strncaseeq (drv_dname c) pattern (length (drv_dname c)) then Some (length (drv_dname c))
      else if strncaseeq (drv_name c) pattern (length (drv_name c)) then Some (length (drv_name c))
      else if chat pattern 0 = CHR ''d'' \<and> (isdigit (chat pattern 1) \<or> chat pattern 1 = CHR ''-'') then Some 1
      else if isdigit (chat pattern 0) \<or> chat pattern 0 = CHR ''@'' \<or> chat pattern 0 = CHR ''-'' then Some 0
      else None)"

text \<open>The first and the last number, and what follows.\<close>

definition match_range :: "string \<Rightarrow> int \<times> int \<times> string" where
  "match_range p =
     (let (n, p2) = (if isdigit (chat p 0) then (let (v, k) = strtol0 p in (int_of_long v, drop k p)) else (0, p))
      in if chat p2 0 = CHR ''-'' then
           (let p2 = tl p2
            in if p2 \<noteq> [] \<and> isdigit (chat p2 0) then (let (v, k) = strtol0 p2 in (n, int_of_long v, drop k p2))
               else (n, INT_MAX, p2))
         else (n, n, p2))"

text \<open>The first and the last processor by their letters; \<open>- 1\<close> for any. \<open>None\<close> when something follows.\<close>

definition match_letters :: "string \<Rightarrow> (int \<times> int) option" where
  "match_letters p2 =
     (if p2 = [] then Some (- 1, - 1)
      else let (proc_first, p2) = proc_letter_to_number p2
           in if chat p2 0 = CHR ''-'' then
                (let p2 = tl p2;
                     (proc_last, p2) = (if p2 \<noteq> [] then proc_letter_to_number p2 else (INT_MAX, p2))
                 in if p2 \<noteq> [] then None else Some (proc_first, proc_last))
              else if p2 \<noteq> [] then None else Some (proc_first, proc_first))"

definition proc_within :: "int \<times> int \<Rightarrow> cgpu_id \<Rightarrow> bool" where
  "proc_within procs c = (fst procs = - 1 \<or> \<not> (proc_id c < fst procs \<or> proc_id c > snd procs))"

text \<open>The processors \<open>n\<close> to \<open>n2\<close> of all; a negative number reads before the array.\<close>

definition match_numbers :: "device_table \<Rightarrow> nat \<Rightarrow> int \<Rightarrow> int \<Rightarrow> bool outcome" where
  "match_numbers T a n n2 =
     (if n > n2 then Returns False
      else if n < 0 then Undefined
      else Returns (list_ex (\<lambda>i. devices T ! i = a) [nat n..<min (nat n2 + 1) (length (devices T))]))"

text \<open>The devices \<open>n\<close> to \<open>n2\<close>, counted by their first processors.\<close>

fun match_devices :: "device_table \<Rightarrow> nat \<Rightarrow> int \<Rightarrow> int \<Rightarrow> int \<times> int \<Rightarrow> int \<Rightarrow> nat list \<Rightarrow> bool" where
  "match_devices T a n n2 procs c [] = False"
| "match_devices T a n n2 procs c (d # ds) =
     (if cg_device (cgpus T d) \<noteq> d then match_devices T a n n2 procs c ds
      else let c = c + 1
           in if c < n then match_devices T a n n2 procs c ds
              else if c > n2 then False
              else if list_ex (\<lambda>p. proc_within procs (cgpus T p) \<and> p = a) (cg_procs (cgpus T d)) then True
              else match_devices T a n n2 procs c ds)"

definition match_serial :: "(string \<Rightarrow> bytes option) \<Rightarrow> cgpu_id \<Rightarrow> string \<Rightarrow> (string) option" where
  "match_serial stat c ser =
     (let wanted = takeWhile (\<lambda>ch. ch \<noteq> CHR ''@'') ser;
          path = (case device_path c of None \<Rightarrow> [] | Some p \<Rightarrow> p);
          serial = (case dev_serial c of None \<Rightarrow> [] | Some s \<Rightarrow> s)
      in if path = wanted \<or> serial = wanted \<or> devpaths_match stat path ser
         then Some (drop (length wanted + 1) ser) else None)"

text \<open>With a name before the numbers, or nothing but a serial: the driver's own numbers count.\<close>

definition match_named :: "cgpu_id \<Rightarrow> string \<Rightarrow> nat \<Rightarrow> bool \<Rightarrow> int \<Rightarrow> int \<Rightarrow> int \<times> int \<Rightarrow> bool" where
  "match_named c pattern L numbered n n2 procs =
     ((L = 3 \<and> strncaseeq pattern (drv_name c) 3 \<or> L = 0 \<or> L = length (drv_dname c) \<and> strncaseeq pattern (drv_dname c) L) \<and>
      \<not> (numbered \<and> (device_id c < n \<or> device_id c > n2)) \<and> proc_within procs c)"

text \<open>What is left to do when the numbers are read.\<close>

definition match_rest :: "device_table \<Rightarrow> nat \<Rightarrow> string \<Rightarrow> nat \<Rightarrow> string \<Rightarrow> int \<Rightarrow> int \<Rightarrow> string \<Rightarrow> bool" where
  "match_rest T a pattern L p n n2 p2 =
     (case match_letters p2 of
        None \<Rightarrow> False
      | Some procs \<Rightarrow>
          if L > 1 \<or> tolower (chat pattern 0) \<noteq> CHR ''d'' \<or> p = []
          then match_named (cgpus T a) pattern L (p \<noteq> []) n n2 procs
          else match_devices T a n n2 procs (- 1) (devices T))"

definition cgpu_match :: "(string \<Rightarrow> bytes option) \<Rightarrow> device_table \<Rightarrow> string \<Rightarrow> nat \<Rightarrow> bool outcome" where
  "cgpu_match stat T pattern a =
     (if strcaseeq pattern ''all'' then Returns True
      else case match_start (cgpus T a) pattern of
             None \<Rightarrow> Returns False
           | Some L \<Rightarrow>
               let p = dropWhile isspace (drop L pattern)
               in if chat p 0 = CHR ''@'' then
                    (case match_serial stat (cgpus T a) (tl p) of
                       None \<Rightarrow> Returns False
                     | Some p2 \<Rightarrow> Returns (match_rest T a pattern L [] 0 0 p2))
                  else let (n, n2, p2) = match_range p
                       in if p = pattern then
                            (if p = [] then Returns True
                             else if p2 \<noteq> [] then Returns False
                             else match_numbers T a n n2)
                          else Returns (match_rest T a pattern L p n n2 p2))"

text \<open>The next processor that fits, from \<open>first\<close> on and then from the start; \<open>- 1\<close> if there is none.\<close>

fun search_in :: "(string \<Rightarrow> bytes option) \<Rightarrow> device_table \<Rightarrow> string \<Rightarrow> nat list \<Rightarrow> int outcome" where
  "search_in stat T pattern [] = Returns (- 1)"
| "search_in stat T pattern (i # is) =
     (if i \<ge> length (devices T) then Undefined
      else and_then (cgpu_match stat T pattern (devices T ! i)) (\<lambda>fits.
             if fits then Returns (int i) else search_in stat T pattern is))"

definition cgpu_search :: "(string \<Rightarrow> bytes option) \<Rightarrow> device_table \<Rightarrow> string \<Rightarrow> nat \<Rightarrow> int outcome" where
  "cgpu_search stat T pattern first = search_in stat T pattern ([first..<length (devices T)] @ [0..<first])"

text \<open>Which devices are enabled at the start: all, or those that fit a pattern of \<^verbatim>\<open>--device\<close>.\<close>

fun any_match :: "(string \<Rightarrow> bytes option) \<Rightarrow> device_table \<Rightarrow> string list \<Rightarrow> nat \<Rightarrow> bool outcome" where
  "any_match stat T [] a = Returns False"
| "any_match stat T (s # ss) a = and_then (cgpu_match stat T s a) (\<lambda>fits. if fits then Returns True else any_match stat T ss a)"

definition initial_deven :: "(string \<Rightarrow> bytes option) \<Rightarrow> device_table \<Rightarrow> string list \<Rightarrow> nat \<Rightarrow> dev_enable \<Rightarrow> dev_enable outcome" where
  "initial_deven stat T enabled_list a deven =
     (if enabled_list = [] then Returns deven
      else and_then (any_match stat T enabled_list a) (\<lambda>fits. Returns (if fits then DEV_ENABLED else DEV_DISABLED)))"

section \<open>The tests of the program\<close>

definition test_cgpu :: cgpu_id where
  "test_cgpu = \<lparr>drv_dname = ''test'', drv_name = ''TST'', cg_device = 2, cg_procs = [2], device_id = 1, proc_id = 1, device_path = None, dev_serial = None\<rparr>"

text \<open>The processor 1a belongs to device 0a in the table of the tests.\<close>

definition test_table :: "(cgpu_id \<Rightarrow> cgpu_id) \<Rightarrow> device_table" where
  "test_table f = \<lparr>devices = [0, 1, 2], cgpus = (\<lambda>a. if a = 0 then test_cgpu\<lparr>cg_device := 0, cg_procs := [0], device_id := 0, proc_id := 0\<rparr>
     else if a = 1 then test_cgpu\<lparr>cg_device := 0, cg_procs := [1], proc_id := 0\<rparr> else f test_cgpu)\<rparr>"

definition matches :: "(cgpu_id \<Rightarrow> cgpu_id) \<Rightarrow> string \<Rightarrow> bool" where
  "matches f s \<longleftrightarrow> cgpu_match (\<lambda>_. None) (test_table f) s 2 = Returns True"

definition matches_not :: "(cgpu_id \<Rightarrow> cgpu_id) \<Rightarrow> string \<Rightarrow> bool" where
  "matches_not f s \<longleftrightarrow> cgpu_match (\<lambda>_. None) (test_table f) s 2 = Returns False"

lemma test_cgpu_match_plain:
  "list_all (matches (\<lambda>c. c))
     [''all'', ''d1'', ''d0-5'', ''d-1'', ''d1-'', ''2'', ''1-2'', ''2-3'', ''TST'', ''test'', ''tst'', ''TEST'', ''TST1'', ''test1'', ''TST0-1'',
      ''TST 1'', ''TST 1-2'', ''TEST 1-2'', ''TST1b'', ''tst1b'', ''TST0-1b'', ''TST1a-d'', ''@'', ''@@b'', ''TST@'', ''TST@@b'', ''TST@@b-f'']"
  by code_simp

lemma test_cgpu_nomatch_plain:
  "list_all (matches_not (\<lambda>c. c))
     [''d2'', ''d0-0'', ''d2-5'', ''d-0'', ''d2-'', ''3'', ''1-1'', ''3-4'', ''TSF'', ''TS'', ''TSTF'', ''TST2'', ''TST2-3'', ''TST0-0'', ''TST1c'',
      ''TST1bb'', ''TST0-1c'', ''TST1a-a'', ''TST1-a'', ''TST1c-z'', ''TST1c-'', ''@abc'', ''@@c'', ''TST@abc'', ''TST@@c'', ''TST@@c-f'', ''TST@@-a'']"
  by code_simp

definition with_serial :: "cgpu_id \<Rightarrow> cgpu_id" where
  "with_serial c = c\<lparr>device_path := Some ''/dev/test'', dev_serial := Some ''testy''\<rparr>"

lemma test_cgpu_match_serial:
  "list_all (matches with_serial) [''TST@/dev/test'', ''TST@testy'', ''TST@/dev/test@b'', ''TST@testy@b'']"
  "list_all (matches_not with_serial)
     [''TST@'', ''TST@/dev/test5@b'', ''TST@testy3@b'', ''TST@/dev/test@c'', ''TST@testy@c'']"
  by code_simp+

section \<open>Numbers and letters in patterns\<close>

lemma nat_text_cons: "\<exists>x xs. nat_text n = x # xs \<and> isdigit x \<and> (\<forall>c\<in>set xs. isdigit c) \<and> (n \<noteq> 0 \<longrightarrow> x \<noteq> CHR ''0'')"
proof -
  have head: "n \<noteq> 0 \<Longrightarrow> hd (nat_text n) \<noteq> CHR ''0''" for n
  proof (induction n rule: nat_text.induct)
    case (1 n)
    show ?case
    proof (cases "n < 10")
      case True
      have "char_of (48 + n) \<noteq> CHR ''0''"
      proof
        assume "char_of (48 + n) = CHR ''0''"
        then have "(of_char (char_of (48 + n)) :: nat) = of_char CHR ''0''" by (rule arg_cong)
        then show False using 1(2) True by simp
      qed
      then show ?thesis using 1(2) True by (simp add: nat_text.simps [of n])
    next
      case False
      then have "hd (nat_text (n div 10)) \<noteq> CHR ''0''" using 1(1) by simp
      moreover have "nat_text (n div 10) \<noteq> []" using nat_text_digits [of "n div 10"] by blast
      ultimately show ?thesis using False by (simp add: nat_text.simps [of n])
    qed
  qed
  obtain x xs where x: "nat_text n = x # xs" using nat_text_digits [of n] by (cases "nat_text n") simp_all
  have "\<forall>c\<in>set (nat_text n). isdigit c" using nat_text_digits [of n] by blast
  then show ?thesis using head [of n] x by (intro exI [of _ x] exI [of _ xs]) simp
qed

text \<open>What may follow a number: no digit, and no hexadecimal number that would begin with it.\<close>

definition number_ends :: "nat \<Rightarrow> string \<Rightarrow> bool" where
  "number_ends n rest \<longleftrightarrow> \<not> isdigit (chat rest 0) \<and> \<not> (n = 0 \<and> tolower (chat rest 0) = CHR ''x'' \<and> is_hex (chat rest 1))"

lemma char_no_sign: "(CHR ''0'' = CHR ''-'') = False" "(CHR ''0'' = CHR ''+'') = False" "(CHR ''0'' = CHR ''-'' \<or> CHR ''0'' = CHR ''+'') = False"
  by simp_all

lemma strtol0_nat_text:
  assumes "n < 2 ^ 31" "number_ends n rest"
  shows "strtol0 (nat_text n @ rest) = (int n, length (nat_text n))"
proof -
  obtain x xs where x: "nat_text n = x # xs" "isdigit x" "\<forall>c\<in>set xs. isdigit c" "n \<noteq> 0 \<longrightarrow> x \<noteq> CHR ''0''" using nat_text_cons by blast
  have p: "\<not> isspace x" "x \<noteq> CHR ''-''" "x \<noteq> CHR ''+''" using plain_digit [OF x(2)] by (auto simp: plain_digit_def)
  have d: "takeWhile isdigit rest = []" using assms(2) by (cases rest) (auto simp: number_ends_def chat_def)
  have v: "digits_value 10 (x # xs) = int n" using nat_text_digits [of n] x(1) by simp
  have c: "clamp_long (int n) = int n" using assms(1) by (simp add: clamp_long_def)
  have i: "takeWhile isspace (nat_text n @ rest) = []" "chat (nat_text n @ rest) 0 = x" using p(1) by (simp_all add: x(1))
  show ?thesis
  proof (cases "n = 0")
    case False
    have "takeWhile isdigit (nat_text n @ rest) = nat_text n" using x(2,3) d by (simp add: takeWhile_append x(1))
    then show ?thesis using x(4) p(2,3) v c False unfolding strtol0_def Let_def i by (simp add: i x(1))
  next
    case True
    have "char_of (48 :: nat) = CHR ''0''" by code_simp
    then have t0: "nat_text 0 = [CHR ''0'']" by (simp add: nat_text.simps)
    then have n0: "nat_text n = [CHR ''0'']" by (simp add: True)
    have o: "takeWhile (\<lambda>c. isdigit c \<and> ord c < 56) rest = []" using assms(2) by (cases rest) (simp_all add: number_ends_def)
    have z: "\<not> (tolower (chat rest 0) = CHR ''x'' \<and> is_hex (chat rest 1))" using assms(2) True by (auto simp: number_ends_def)
    have y: "isdigit CHR ''0'' \<and> ord CHR ''0'' < 56" "digits_value 8 ''0'' = 0" "clamp_long 0 = 0" by code_simp+
    have s: "chat (CHR ''0'' # rest) 1 = chat rest 0" "chat (CHR ''0'' # rest) 2 = chat rest 1" by (simp_all add: chat_def numeral_2_eq_2)
    have i0: "takeWhile isspace (CHR ''0'' # rest) = []" "chat (CHR ''0'' # rest) 0 = CHR ''0''" using i n0 x(1) by auto
    have t: "takeWhile (\<lambda>c. isdigit c \<and> ord c < 56) (CHR ''0'' # rest) = ''0''" using o y(1) by simp
    have hex: "(tolower (chat rest 0) = CHR ''x'' \<and> is_hex (chat rest 1)) = False" using z by simp
    have base: "(if CHR ''0'' = CHR ''0'' \<and> tolower (chat (CHR ''0'' # rest) 1) = CHR ''x'' \<and> is_hex (chat (CHR ''0'' # rest) 2)
         then (16, 2, takeWhile is_hex (drop 2 (CHR ''0'' # rest)))
         else if CHR ''0'' = CHR ''0'' then (8, 0, takeWhile (\<lambda>c. isdigit c \<and> ord c < 56) (CHR ''0'' # rest))
         else (10, 0, takeWhile isdigit (CHR ''0'' # rest))) = (8 :: int, 0 :: nat, ''0'')"
      unfolding s hex t by simp
    show ?thesis unfolding strtol0_def Let_def True t0 append_Cons append_Nil i0 list.size
      by (simp only: char_no_sign if_False add_0 drop_0 i0 base prod.case y(2,3)) (use z in \<open>simp add: y o s\<close>)
  qed
qed

lemma match_range_number:
  assumes "n < 2 ^ 31" "number_ends n rest" "chat rest 0 \<noteq> CHR ''-''"
  shows "match_range (nat_text n @ rest) = (int n, int n, rest)"
proof -
  obtain x xs where x: "nat_text n = x # xs" "isdigit x" using nat_text_cons by blast
  have "isdigit (chat (nat_text n @ rest) 0)" using x by (simp add: chat_def)
  then show ?thesis using assms strtol0_nat_text [OF assms(1,2)] by (simp add: match_range_def int_of_long_id)
qed

lemma match_range_numbers:
  assumes "n < 2 ^ 31" "m < 2 ^ 31" "number_ends m rest"
  shows "match_range (nat_text n @ CHR ''-'' # nat_text m @ rest) = (int n, int m, rest)"
proof -
  obtain x xs where x: "nat_text n = x # xs" "isdigit x" using nat_text_cons by blast
  obtain y ys where y: "nat_text m = y # ys" "isdigit y" using nat_text_cons by blast
  have e: "number_ends n (CHR ''-'' # nat_text m @ rest)" by (simp add: number_ends_def chat_def isdigit_def ord_def tolower_def)
  have i: "isdigit (chat (nat_text n @ CHR ''-'' # nat_text m @ rest) 0)" "isdigit (chat (nat_text m @ rest) 0)" "nat_text m @ rest \<noteq> []"
    using x y by (simp_all add: chat_def)
  have c: "chat (CHR ''-'' # nat_text m @ rest) 0 = CHR ''-''" by (simp add: chat_def)
  show ?thesis using assms strtol0_nat_text [OF assms(1) e] strtol0_nat_text [OF assms(2,3)] i c by (simp add: match_range_def int_of_long_id)
qed

section \<open>What patterns mean\<close>

text \<open>The letters of a processor: a, b, \<dots>, z, ba, bb, \<dots>\<close>

fun letters :: "nat \<Rightarrow> string" where
  "letters n = (if n < 26 then [] else letters (n div 26)) @ [char_of (97 + n mod 26)]"

declare letters.simps [simp del]

lemma ord_char: "ord (char_of (n :: nat)) = int (n mod 256)"
proof -
  have "ord c = int (of_char c)" for c by (simp only: ord_def of_nat_of_char)
  then show ?thesis by (simp only: of_char_of)
qed

lemma ord_a: "ord CHR ''a'' = 97"
  by (simp add: ord_def)

lemma ord_letter: "k < 26 \<Longrightarrow> ord (char_of (97 + k :: nat)) = 97 + int k"
  by (simp add: ord_char)

lemma tolower_letter: "k < 26 \<Longrightarrow> tolower (char_of (97 + k :: nat)) = char_of (97 + k)"
proof -
  assume k: "k < 26"
  have "ord CHR ''Z'' = 90" by (simp add: ord_def)
  then show ?thesis unfolding tolower_def ord_letter [OF k] by simp
qed

lemma letter_step:
  assumes "k < 26" "26 * m + k < 2 ^ 31"
  shows "proc_letter_to_number_loop (int m) (char_of (97 + k) # s) = proc_letter_to_number_loop (int (26 * m + k)) s"
proof -
  have c: "ord (tolower (char_of (97 + k))) - ord CHR ''a'' = int k" using assms(1) by (simp only: tolower_letter ord_letter ord_a)
  have "\<not> int m > (2 ^ 31 - 1) div 26" "\<not> 2 ^ 31 - 1 - int k < int m" "int m * 26 + int k = int (26 * m + k)" using assms by simp_all
  then show ?thesis using assms(1) by (subst proc_letter_to_number_loop.simps) (simp only: c Let_def, simp)
qed

lemma letters_loop: "n < 2 ^ 31 \<Longrightarrow> proc_letter_to_number_loop 0 (letters n @ s) = proc_letter_to_number_loop (int n) s"
proof (induction n arbitrary: s rule: letters.induct)
  case (1 n)
  have step: "proc_letter_to_number_loop (int (n div 26)) (char_of (97 + n mod 26) # s) = proc_letter_to_number_loop (int n) s"
    using letter_step [of "n mod 26" "n div 26" s] "1.prems" by simp
  show ?case
  proof (cases "n < 26")
    case True
    then show ?thesis using step by (simp add: letters.simps [of n])
  next
    case False
    then show ?thesis using "1.IH" [OF False] "1.prems" step by (simp add: letters.simps [of n])
  qed
qed

definition letters_end :: "string \<Rightarrow> bool" where
  "letters_end s \<longleftrightarrow> s = [] \<or> ord (tolower (chat s 0)) - ord CHR ''a'' < 0 \<or> ord (tolower (chat s 0)) - ord CHR ''a'' > 25"

lemma letters_read: "n < 2 ^ 31 \<Longrightarrow> letters_end s \<Longrightarrow> proc_letter_to_number (letters n @ s) = (int n, s)"
  using letters_loop [of n s] by (cases s) (auto simp: proc_letter_to_number_def letters_end_def Let_def)

datatype procs_pat = Any_proc | Proc nat | Procs nat nat

fun procs_text :: "procs_pat \<Rightarrow> string" where
  "procs_text Any_proc = []"
| "procs_text (Proc i) = letters i"
| "procs_text (Procs i j) = letters i @ CHR ''-'' # letters j"

fun procs_denote :: "procs_pat \<Rightarrow> int \<Rightarrow> bool" where
  "procs_denote Any_proc k = True"
| "procs_denote (Proc i) k = (k = int i)"
| "procs_denote (Procs i j) k = (int i \<le> k \<and> k \<le> int j)"

text \<open>A first letter x would make a number 0 before it hexadecimal; it comes with two letters from 598 on.\<close>

fun procs_ok :: "procs_pat \<Rightarrow> bool" where
  "procs_ok Any_proc = True"
| "procs_ok (Proc i) = (i < 598)"
| "procs_ok (Procs i j) = (i < 598 \<and> j < 2 ^ 31)"

lemma letters_cons: "\<exists>x xs. letters n = x # xs"
  by (subst letters.simps) (cases "if n < 26 then [] else letters (n div 26)"; simp)

lemma match_letters_text:
  assumes "procs_ok ps"
  shows "\<exists>lo hi. match_letters (procs_text ps) = Some (lo, hi) \<and> (\<forall>c. proc_within (lo, hi) c = procs_denote ps (proc_id c))"
proof (cases ps)
  case (Proc i)
  have "proc_letter_to_number (letters i @ []) = (int i, [])" using assms Proc by (intro letters_read) (simp_all add: letters_end_def)
  then show ?thesis using Proc letters_cons [of i] by (auto simp: match_letters_def proc_within_def)
next
  case (Procs i j)
  have "letters_end (CHR ''-'' # letters j)" by (simp add: letters_end_def ord_def tolower_def)
  then have "proc_letter_to_number (letters i @ CHR ''-'' # letters j) = (int i, CHR ''-'' # letters j)" using assms Procs by (intro letters_read) simp_all
  moreover have "proc_letter_to_number (letters j @ []) = (int j, [])" using assms Procs by (intro letters_read) (simp_all add: letters_end_def)
  ultimately show ?thesis using Procs letters_cons [of i] letters_cons [of j] by (auto simp: match_letters_def proc_within_def)
qed (simp add: match_letters_def proc_within_def)

text \<open>No number is continued by the letters that follow it.\<close>

lemma ord_inj: "ord c = ord d \<longleftrightarrow> c = d"
  by (simp add: ord_def)

lemma letter_not:
  assumes "k < 26"
  shows "\<not> isdigit (char_of (97 + k :: nat)) \<and> char_of (97 + k) \<noteq> CHR ''-'' \<and> char_of (97 + k) \<noteq> CHR ''@'' \<and> \<not> isspace (char_of (97 + k)) \<and>
   (k < 23 \<longrightarrow> tolower (char_of (97 + k)) \<noteq> CHR ''x'')"
proof -
  have o: "ord CHR ''-'' = 45" "ord CHR ''@'' = 64" "ord CHR ''x'' = 120" "ord CHR ''0'' = 48" "ord CHR ''9'' = 57" by (simp_all add: ord_def)
  show ?thesis unfolding ord_inj [symmetric] tolower_letter [OF assms] isdigit_def isspace_def ord_letter [OF assms] o using assms by auto
qed

lemma letters_head: "\<exists>(k :: nat) xs. k < 26 \<and> letters n = char_of (97 + k) # xs \<and> (n < 598 \<longrightarrow> k < 23 \<or> xs = [])"
proof (induction n rule: letters.induct)
  case (1 n)
  show ?case
  proof (cases "n < 26")
    case True
    then show ?thesis by (simp add: letters.simps [of n]) (rule exI [of _ n], simp)
  next
    case False
    then obtain k :: nat and xs where k: "k < 26" "letters (n div 26) = char_of (97 + k) # xs" using "1.IH" by blast
    have "n < 598 \<longrightarrow> k < 23"
    proof
      assume n: "n < 598"
      then have m: "n div 26 < 23" by simp
      then have "letters (n div 26) = [char_of (97 + n div 26)]" by (simp add: letters.simps [of "n div 26"])
      then have "char_of (97 + k) = (char_of (97 + n div 26) :: char)" using k(2) by simp
      then have "ord (char_of (97 + k)) = ord (char_of (97 + n div 26))" by (rule arg_cong)
      then show "k < 23" using k(1) m by (simp only: ord_letter)
    qed
    moreover have "letters n = char_of (97 + k) # xs @ [char_of (97 + n mod 26)]" using k(2) False by (simp add: letters.simps [of n])
    ultimately show ?thesis using k(1) by blast
  qed
qed

text \<open>What may follow a range.\<close>

definition range_ends :: "string \<Rightarrow> bool" where
  "range_ends s \<longleftrightarrow> chat s 0 \<noteq> CHR ''-'' \<and> (\<forall>n. number_ends n s)"

lemma chat_append_0: "s \<noteq> [] \<Longrightarrow> chat (s @ t) 0 = chat s 0"
  by (cases s) simp_all

lemma range_ends_letters:
  assumes "i < 598" "rest = [] \<or> chat rest 0 = CHR ''-''"
  shows "range_ends (letters i @ rest)"
proof -
  obtain k :: nat and xs where k: "k < 26" "letters i = char_of (97 + k) # xs" "i < 598 \<longrightarrow> k < 23 \<or> xs = []" using letters_head by blast
  have h: "\<not> is_hex (chat rest 0)"
  proof -
    have "\<not> is_hex CHR ''-''" "\<not> is_hex CHR 0x00" by code_simp+
    then show ?thesis using assms(2) by (cases rest) auto
  qed
  have c: "chat (letters i @ rest) 0 = char_of (97 + k)" "chat (letters i @ rest) 1 = chat (xs @ rest) 0" by (simp_all add: k(2) chat_def)
  show ?thesis unfolding range_ends_def number_ends_def c using letter_not [OF k(1)] k(3) assms(1) h by auto
qed

lemma range_ends_procs: "procs_ok ps \<Longrightarrow> range_ends (procs_text ps)"
proof (cases ps)
  case Any_proc
  have "\<not> isdigit CHR 0x00" "tolower CHR 0x00 \<noteq> CHR ''x''" by code_simp+
  then show ?thesis using Any_proc by (simp add: range_ends_def number_ends_def)
next
  case (Proc i)
  then show "procs_ok ps \<Longrightarrow> ?thesis" using range_ends_letters [of i "[]"] by simp
next
  case (Procs i j)
  then show "procs_ok ps \<Longrightarrow> ?thesis" using range_ends_letters [of i "CHR ''-'' # letters j"] by simp
qed

datatype range_pat = One nat | From_to nat nat | From nat | Up_to nat

fun range_text :: "range_pat \<Rightarrow> string" where
  "range_text (One n) = nat_text n"
| "range_text (From_to n m) = nat_text n @ CHR ''-'' # nat_text m"
| "range_text (From n) = nat_text n @ ''-''"
| "range_text (Up_to m) = CHR ''-'' # nat_text m"

fun range_lo :: "range_pat \<Rightarrow> int" where
  "range_lo (One n) = int n"
| "range_lo (From_to n m) = int n"
| "range_lo (From n) = int n"
| "range_lo (Up_to m) = 0"

fun range_hi :: "range_pat \<Rightarrow> int" where
  "range_hi (One n) = int n"
| "range_hi (From_to n m) = int m"
| "range_hi (From n) = INT_MAX"
| "range_hi (Up_to m) = int m"

fun range_ok :: "range_pat \<Rightarrow> bool" where
  "range_ok (One n) = (n < 2 ^ 31)"
| "range_ok (From_to n m) = (n < 2 ^ 31 \<and> m < 2 ^ 31)"
| "range_ok (From n) = (n < 2 ^ 31)"
| "range_ok (Up_to m) = (m < 2 ^ 31)"

lemma dash_ends: "number_ends n (CHR ''-'' # s)"
  by (simp add: number_ends_def isdigit_def ord_def tolower_def)

lemma dash_facts: "\<not> isdigit CHR ''-''" "\<not> isspace CHR ''-''" "CHR ''-'' \<noteq> CHR ''@''"
  by (simp_all add: isdigit_def isspace_def ord_def)

lemma digit_head: "isdigit (chat (nat_text n @ s) 0)"
  using nat_text_cons [of n] by auto

lemma match_range_text:
  assumes "range_ok r" "range_ends rest"
  shows "match_range (range_text r @ rest) = (range_lo r, range_hi r, rest)"
proof (cases r)
  case (One n)
  then show ?thesis using assms match_range_number [of n rest] by (simp add: range_ends_def)
next
  case (From_to n m)
  then show ?thesis using assms match_range_numbers [of n m rest] by (simp add: range_ends_def)
next
  case (From n)
  have "match_range (nat_text n @ CHR ''-'' # rest) = (int n, INT_MAX, rest)"
    using assms From strtol0_nat_text [OF _ dash_ends, of n rest] digit_head [of n "CHR ''-'' # rest"]
    by (auto simp: match_range_def int_of_long_id range_ends_def number_ends_def)
  then show ?thesis using From by simp
next
  case (Up_to m)
  have "nat_text m @ rest \<noteq> []" using nat_text_cons [of m] by auto
  then have "match_range (CHR ''-'' # nat_text m @ rest) = (0, int m, rest)"
    using assms Up_to strtol0_nat_text [of m rest] digit_head [of m rest] dash_facts
    by (simp add: match_range_def int_of_long_id range_ends_def)
  then show ?thesis using Up_to by simp
qed

lemma range_head: "chat (range_text r @ rest) 0 = CHR ''-'' \<or> isdigit (chat (range_text r @ rest) 0)"
  using digit_head [of _ rest] digit_head [of _ "CHR ''-'' # _"] by (cases r) simp_all

text \<open>Patterns of processors, of devices, and of the devices of a driver.\<close>

datatype device_pat =
  Numbered range_pat
| Counted range_pat procs_pat
| Named string range_pat procs_pat

fun pat_text :: "device_pat \<Rightarrow> string" where
  "pat_text (Numbered r) = range_text r"
| "pat_text (Counted r ps) = CHR ''d'' # range_text r @ procs_text ps"
| "pat_text (Named s r ps) = s @ range_text r @ procs_text ps"

text \<open>The devices are the processors that are their own device, in the order of the table.\<close>

definition first_procs :: "device_table \<Rightarrow> nat list" where
  "first_procs T = filter (\<lambda>d. cg_device (cgpus T d) = d) (devices T)"

definition in_range :: "range_pat \<Rightarrow> int \<Rightarrow> bool" where
  "in_range r k \<longleftrightarrow> range_lo r \<le> k \<and> k \<le> range_hi r"

fun pat_denotes :: "device_table \<Rightarrow> device_pat \<Rightarrow> nat \<Rightarrow> bool" where
  "pat_denotes T (Numbered r) a \<longleftrightarrow> (\<exists>k<length (devices T). devices T ! k = a \<and> in_range r (int k))"
| "pat_denotes T (Counted r ps) a \<longleftrightarrow>
     (\<exists>k<length (first_procs T). in_range r (int k) \<and> a \<in> set (cg_procs (cgpus T (first_procs T ! k)))) \<and> procs_denote ps (proc_id (cgpus T a))"
| "pat_denotes T (Named s r ps) a \<longleftrightarrow> in_range r (device_id (cgpus T a)) \<and> procs_denote ps (proc_id (cgpus T a))"

text \<open>Names of drivers begin with a letter, and not with a d and something else than a letter.\<close>

definition name_ok :: "string \<Rightarrow> bool" where
  "name_ok s \<longleftrightarrow> isCalpha (chat s 0) \<and> (tolower (chat s 0) = CHR ''d'' \<longrightarrow> isCalpha (chat s 1))"

fun pat_ok :: "cgpu_id \<Rightarrow> device_pat \<Rightarrow> bool" where
  "pat_ok c (Numbered r) \<longleftrightarrow> name_ok (drv_dname c) \<and> name_ok (drv_name c) \<and> range_ok r"
| "pat_ok c (Counted r ps) \<longleftrightarrow> name_ok (drv_dname c) \<and> name_ok (drv_name c) \<and> range_ok r \<and> procs_ok ps"
| "pat_ok c (Named s r ps) \<longleftrightarrow> strcaseeq s (drv_dname c) \<and> length s > 1 \<and> range_ok r \<and> procs_ok ps"

lemma strncaseeq_at: "strncaseeq a b (length a) \<Longrightarrow> i < length a \<Longrightarrow> i < length b \<and> tolower (a ! i) = tolower (b ! i)"
proof -
  assume e: "strncaseeq a b (length a)" and i: "i < length a"
  then have m: "map tolower a = map tolower (take (length a) b)" by (simp add: strncaseeq_def strcaseeq_def)
  then have "length a = length (take (length a) b)" using map_eq_imp_length_eq by blast
  then have l: "length a \<le> length b" by simp
  have "map tolower a ! i = map tolower (take (length a) b) ! i" using m by simp
  then show ?thesis using i l by simp
qed

lemma alpha_lower: "isCalpha c \<Longrightarrow> \<not> isdigit (tolower c) \<and> tolower c \<noteq> CHR ''-''"
proof -
  assume c: "isCalpha c"
  have o: "ord CHR ''A'' = 65" "ord CHR ''Z'' = 90" "ord CHR ''a'' = 97" "ord CHR ''z'' = 122" "ord CHR ''0'' = 48" "ord CHR ''9'' = 57" "ord CHR ''-'' = 45"
    by (simp_all add: ord_def)
  have m: "ord (char_of (i :: int)) = i mod 256" for i by (simp add: ord_def)
  have "97 \<le> ord (tolower c)" using c unfolding isCalpha_def tolower_def o by (auto simp: m split: if_splits)
  then show ?thesis unfolding isdigit_def ord_inj [symmetric] o by simp
qed

lemma range_head_lower:
  "tolower (chat (range_text r @ rest) 0) = chat (range_text r @ rest) 0"
proof -
  have "tolower CHR ''-'' = CHR ''-''" by code_simp
  then show ?thesis using range_head [of r rest] plain_digit by (auto simp: plain_digit_def)
qed

lemma range_text_cons: "\<exists>x xs. range_text r @ rest = x # xs"
proof -
  have "nat_text n \<noteq> []" for n using nat_text_cons [of n] by auto
  then have "range_text r \<noteq> []" by (cases r) simp_all
  then show ?thesis by (cases "range_text r") simp_all
qed

text \<open>A name does not begin a pattern of numbers.\<close>

lemma name_no_number: "name_ok s \<Longrightarrow> \<not> strncaseeq s (range_text r @ rest) (length s)"
proof
  assume n: "name_ok s" and e: "strncaseeq s (range_text r @ rest) (length s)"
  have "s \<noteq> []" using n by (auto simp: name_ok_def isCalpha_def ord_def)
  then have "0 < length s" by simp
  from strncaseeq_at [OF e this] have "tolower (chat s 0) = tolower (chat (range_text r @ rest) 0)" using \<open>s \<noteq> []\<close> by (simp add: chat_def)
  then show False using alpha_lower n range_head [of r rest] unfolding range_head_lower name_ok_def by metis
qed

lemma name_no_count: "name_ok s \<Longrightarrow> \<not> strncaseeq s (CHR ''d'' # range_text r @ rest) (length s)"
proof
  assume n: "name_ok s" and e: "strncaseeq s (CHR ''d'' # range_text r @ rest) (length s)"
  have z: "\<not> isCalpha CHR 0x00" by code_simp
  have "s \<noteq> []" using n z by (auto simp: name_ok_def)
  then have l: "0 < length s" by simp
  have "tolower CHR ''d'' = CHR ''d''" by code_simp
  then have d: "tolower (chat s 0) = CHR ''d''" using strncaseeq_at [OF e l] l by (simp add: chat_def)
  then have a: "isCalpha (chat s 1)" using n by (simp add: name_ok_def)
  then have l1: "1 < length s" using z by (auto simp: chat_def split: if_splits)
  obtain x xs where x: "range_text r @ rest = x # xs" using range_text_cons by blast
  have "tolower (chat s 1) = tolower (chat (range_text r @ rest) 0)" using strncaseeq_at [OF e l1] l1 by (simp add: chat_def x)
  then show False using alpha_lower [OF a] range_head [of r rest] unfolding range_head_lower by metis
qed

lemma not_all: "\<not> strcaseeq (pre @ range_text r @ rest) ''all''"
proof
  assume e: "strcaseeq (pre @ range_text r @ rest) ''all''"
  obtain x xs where x: "range_text r @ rest = x # xs" using range_text_cons by blast
  have h: "x = CHR ''-'' \<or> isdigit x" "tolower x = x" using range_head [of r rest] range_head_lower [of r rest] by (simp_all add: x)
  have "tolower x \<in> set (map tolower (pre @ range_text r @ rest))" by (simp add: x)
  also have "\<dots> = set (map tolower ''all'')" using e by (simp add: strcaseeq_def)
  also have "map tolower ''all'' = ''all''" by code_simp
  finally have "x = CHR ''a'' \<or> x = CHR ''l''" using h(2) by auto
  moreover have "\<not> isdigit CHR ''a''" "\<not> isdigit CHR ''l''" "CHR ''a'' \<noteq> CHR ''-''" "CHR ''l'' \<noteq> CHR ''-''" by code_simp+
  ultimately show False using h(1) by auto
qed

text \<open>The devices are counted from the start of the table.\<close>

lemma match_devices_iff:
  "match_devices T a n n2 procs c ds \<longleftrightarrow>
   (\<exists>k<length (filter (\<lambda>d. cg_device (cgpus T d) = d) ds). n \<le> c + 1 + int k \<and> c + 1 + int k \<le> n2 \<and>
      a \<in> set (cg_procs (cgpus T (filter (\<lambda>d. cg_device (cgpus T d) = d) ds ! k)))) \<and> proc_within procs (cgpus T a)"
proof (induction ds arbitrary: c)
  case (Cons d ds)
  let ?fs = "filter (\<lambda>d. cg_device (cgpus T d) = d) ds"
  let ?P = "\<lambda>c k. n \<le> c + 1 + int k \<and> c + 1 + int k \<le> n2 \<and> a \<in> set (cg_procs (cgpus T (?fs ! k)))"
  show ?case
  proof (cases "cg_device (cgpus T d) = d")
    case False
    then show ?thesis using Cons.IH [of c] by simp
  next
    case True
    have split: "(\<exists>k<length (filter (\<lambda>d. cg_device (cgpus T d) = d) (d # ds)). n \<le> c + 1 + int k \<and> c + 1 + int k \<le> n2 \<and>
        a \<in> set (cg_procs (cgpus T (filter (\<lambda>d. cg_device (cgpus T d) = d) (d # ds) ! k)))) \<longleftrightarrow>
      n \<le> c + 1 \<and> c + 1 \<le> n2 \<and> a \<in> set (cg_procs (cgpus T d)) \<or> (\<exists>k<length ?fs. ?P (c + 1) k)"
      using True by (simp add: Ex_less_Suc2 algebra_simps)
    have none: "c + 1 > n2 \<Longrightarrow> \<not> (\<exists>k<length ?fs. ?P (c + 1) k)" by auto
    have one: "list_ex (\<lambda>p. proc_within procs (cgpus T p) \<and> p = a) (cg_procs (cgpus T d)) \<longleftrightarrow> a \<in> set (cg_procs (cgpus T d)) \<and> proc_within procs (cgpus T a)"
      by (auto simp: list_ex_iff)
    show ?thesis unfolding split using True none Cons.IH [of "c + 1"] by (simp add: Let_def one) blast
  qed
qed simp

lemma match_numbers_iff:
  "0 \<le> n \<Longrightarrow> match_numbers T a n n2 = Returns (\<exists>k<length (devices T). devices T ! k = a \<and> n \<le> int k \<and> int k \<le> n2)"
proof -
  assume n: "0 \<le> n"
  have s: "set [nat n..<min (nat n2 + 1) (length (devices T))] = {i. n \<le> int i \<and> int i \<le> n2 \<and> i < length (devices T)}" if "n \<le> n2"
    using n that by auto
  show ?thesis
  proof (cases "n \<le> n2")
    case True
    then show ?thesis using n unfolding match_numbers_def list_ex_iff s [OF True] by auto
  qed (auto simp: match_numbers_def)
qed

lemma range_lo_nonneg: "0 \<le> range_lo r"
  by (cases r) simp_all

lemma range_start:
  "chat (range_text r @ rest) 0 \<noteq> CHR ''@''" "dropWhile isspace (range_text r @ rest) = range_text r @ rest"
proof -
  obtain x xs where x: "range_text r @ rest = x # xs" using range_text_cons by blast
  have "x \<noteq> CHR ''@'' \<and> \<not> isspace x" using range_head [of r rest] dash_facts plain_digit [of x] by (auto simp: x plain_digit_def)
  then show "chat (range_text r @ rest) 0 \<noteq> CHR ''@''" "dropWhile isspace (range_text r @ rest) = range_text r @ rest" by (simp_all add: x)
qed


lemma name_no_at: "name_ok s \<Longrightarrow> \<not> strncaseeq s (CHR ''@'' # rest) (length s)"
proof
  assume n: "name_ok s" and e: "strncaseeq s (CHR ''@'' # rest) (length s)"
  have z: "\<not> isCalpha CHR 0x00" "tolower CHR ''@'' = CHR ''@''" by code_simp+
  have o: "ord CHR ''A'' = 65" "ord CHR ''Z'' = 90" "ord CHR ''a'' = 97" "ord CHR ''z'' = 122" "ord CHR ''@'' = 64" by (simp_all add: ord_def)
  have m: "ord (char_of (i :: int)) = i mod 256" for i by (simp add: ord_def)
  have l: "0 < length s" using n z by (auto simp: name_ok_def)
  then have "tolower (chat s 0) = CHR ''@''" using strncaseeq_at [OF e l] z by (simp add: chat_def)
  then have "ord (tolower (chat s 0)) = 64" by (simp add: o)
  moreover have "97 \<le> ord (tolower (chat s 0))" using n unfolding name_ok_def isCalpha_def tolower_def o by (auto simp: m split: if_splits)
  ultimately show False by simp
qed

lemma match_start_at:
  assumes "name_ok (drv_dname c)" "name_ok (drv_name c)"
  shows "match_start c (CHR ''@'' # s) = Some 0"
  using name_no_at [OF assms(1)] name_no_at [OF assms(2)] by (simp add: match_start_def)

lemma cgpu_match_at:
  assumes "name_ok (drv_dname (cgpus T a))" "name_ok (drv_name (cgpus T a))"
  shows "cgpu_match stat T (CHR ''@'' # s) a =
    Returns (case match_serial stat (cgpus T a) s of None \<Rightarrow> False
             | Some p2 \<Rightarrow> (case match_letters p2 of None \<Rightarrow> False | Some procs \<Rightarrow> proc_within procs (cgpus T a)))"
proof -
  have "\<not> strcaseeq (CHR ''@'' # s) ''all''" by (simp add: strcaseeq_def tolower_def ord_def)
  moreover have "\<not> isspace CHR ''@''" "tolower CHR ''@'' \<noteq> CHR ''d''" by code_simp+
  ultimately show ?thesis
    by (simp add: cgpu_match_def match_start_at [OF assms] match_rest_def match_named_def split: option.split)
qed

text \<open>
  C33. Another path to a device, with the letters of a processor behind it, does not find the device: the name of the file that is looked
  up still has the letters in it, though the path was cut out before. Without the letters it is found.
\<close>

theorem alias_with_processor:
  assumes "name_ok (drv_dname (cgpus T a))" "name_ok (drv_name (cgpus T a))" "device_path (cgpus T a) = Some (CHR ''/'' # path)"
    "CHR ''@'' \<notin> set alias" "alias \<noteq> path" "dev_serial (cgpus T a) \<noteq> Some (CHR ''/'' # alias)"
    "stat (CHR ''/'' # alias) = Some rdev" "stat (CHR ''/'' # path) = Some rdev" "stat (CHR ''/'' # alias @ CHR ''@'' # procs) = None"
  shows "cgpu_match stat T (CHR ''@'' # CHR ''/'' # alias) a = Returns True \<and>
    cgpu_match stat T (CHR ''@'' # CHR ''/'' # alias @ CHR ''@'' # procs) a = Returns False"
proof -
  have at: "CHR ''/'' \<noteq> CHR ''@''" by simp
  have w: "takeWhile (\<lambda>ch. ch \<noteq> CHR ''@'') (CHR ''/'' # alias) = CHR ''/'' # alias"
    "takeWhile (\<lambda>ch. ch \<noteq> CHR ''@'') (CHR ''/'' # alias @ CHR ''@'' # procs) = CHR ''/'' # alias"
    using assms(4) at by (auto simp: takeWhile_append takeWhile_eq_all_conv)
  have serial: "(case dev_serial (cgpus T a) of None \<Rightarrow> [] | Some s \<Rightarrow> s) \<noteq> CHR ''/'' # alias" using assms(6) by (cases "dev_serial (cgpus T a)") auto
  have "match_serial stat (cgpus T a) (CHR ''/'' # alias) = Some []"
    unfolding match_serial_def Let_def w using assms(3,7,8) by (simp add: devpaths_match_def devpath_to_devid_def)
  moreover have "match_serial stat (cgpus T a) (CHR ''/'' # alias @ CHR ''@'' # procs) = None"
    unfolding match_serial_def Let_def w using assms(3,5,8,9) serial by (simp add: devpaths_match_def devpath_to_devid_def)
  ultimately show ?thesis unfolding cgpu_match_at [OF assms(1,2)] by (simp add: match_letters_def proc_within_def)
qed

text \<open>A number above \<^verbatim>\<open>INT_MAX\<close> becomes negative and reads before the table.\<close>

lemma pattern_before_table: "cgpu_match (\<lambda>_. None) (test_table (\<lambda>c. c)) ''4294967295'' 2 = Undefined"
  by code_simp


definition aliased :: device_table where
  "aliased = test_table (\<lambda>c. c\<lparr>device_path := Some ''/dev/ttyUSB0''\<rparr>)"

definition stat_usb :: "string \<Rightarrow> bytes option" where
  "stat_usb p = (if p = ''/dev/ttyUSB0'' \<or> p = ''/dev/miner'' then Some [188, 0] else None)"

theorem alias_with_processor_witness:
  "cgpu_match stat_usb aliased ''@/dev/miner'' 2 = Returns True \<and> cgpu_match stat_usb aliased ''@/dev/miner@b'' 2 = Returns False"
proof -
  have n: "name_ok ''test''" "name_ok ''TST''" by code_simp+
  have c: "cgpus aliased 2 = test_cgpu\<lparr>device_path := Some ''/dev/ttyUSB0''\<rparr>" by (simp add: aliased_def test_table_def)
  show ?thesis
    using alias_with_processor [of aliased 2 "''dev/ttyUSB0''" "''dev/miner''" stat_usb "[188, 0]" "''b''"] n unfolding c
    by (simp add: test_cgpu_def stat_usb_def)
qed

end
