(* ===== verification/DeviceHealth.thy ===== *)
theory DeviceHealth
  imports Complex_Main Devices
begin

text \<open>
  The settings of processors (\<^verbatim>\<open>deviceapi.c\<close>, \<^verbatim>\<open>miner.c\<close>) and the watch over them: temperature, errors, silence, the daily
  schedule (\<^verbatim>\<open>miner.c\<close>, \<^verbatim>\<open>util.c\<close>). Times that the code reads from the clock during a call are one argument, \<open>clk\<close>; temperatures and the
  delay before a restart are rational numbers, as every value of a \<^verbatim>\<open>float\<close> is. What drivers do is an argument. The meter of
  hashes and the discarding of stale work, which a round of the watch begins with, are not repeated here.
\<close>

section \<open>State\<close>

datatype alive =
  LIFE_WELL | LIFE_SICK | LIFE_DEAD | LIFE_NOSTART | LIFE_INIT | LIFE_WAIT | LIFE_INIT2 | LIFE_DEAD2 | LIFE_MIXED

datatype dev_reason =
  REASON_THREAD_FAIL_INIT | REASON_THREAD_ZERO_HASH | REASON_THREAD_FAIL_QUEUE | REASON_DEV_SICK_IDLE_60 | REASON_DEV_DEAD_IDLE_600
| REASON_DEV_NOSTART | REASON_DEV_OVER_HEAT | REASON_DEV_THERMAL_CUTOFF | REASON_DEV_COMMS_ERROR | REASON_DEV_THROTTLE

record dev_thr =
  th_getwork :: int
  th_last :: timeval
  th_sick :: timeval
  th_pause :: bool
  th_woken :: nat

text \<open>\<open>d_thrs\<close> holds at least one thread, even for a processor with none of its own (\<open>d_threads\<close> is 0).\<close>

record dev =
  d_status :: alive
  d_deven :: dev_enable
  d_temp :: rat
  d_cutofftemp :: int
  d_targettemp :: int
  d_targettemp_user :: bool
  d_already_set_defaults :: bool
  d_last_well :: int
  d_last_not_well :: int
  d_tv_last_not_well :: timeval
  d_not_well_reason :: dev_reason
  d_reinit_backoff :: rat
  d_errors :: "dev_reason \<Rightarrow> int"
  d_threads :: nat
  d_thrs :: "dev_thr list"
  d_disable_watchdog :: bool

datatype set_device_replytype = SDR_AUTO | SDR_OK | SDR_ERR | SDR_HELP | SDR_UNKNOWN | SDR_NOSUPP

text \<open>
  A driver. A setter gets the name, the value and the processor; it returns a reply or none and, in the table of setters,
  the kind of the reply, \<open>SDR_AUTO\<close> if it leaves that open. \<open>drv_cpu\<close> marks the driver of CPUs.
\<close>

type_synonym setter = "string \<Rightarrow> string \<Rightarrow> dev \<Rightarrow> dev \<times> string option \<times> set_device_replytype"

record device_drv =
  drv_cpu :: bool
  drv_get_stats :: "dev \<Rightarrow> dev"
  drv_watchdog :: "timeval \<Rightarrow> dev \<Rightarrow> dev"
  drv_reinit_device :: "(dev \<Rightarrow> dev) option"
  drv_set_device :: "(string \<Rightarrow> string \<Rightarrow> dev \<Rightarrow> dev \<times> string option) option"
  set_device_funcs :: "(string \<times> string option \<times> setter) list option"

section \<open>Settings\<close>

text \<open>The definitions a request for help is answered with.\<close>

definition help_for :: "string \<Rightarrow> string \<Rightarrow> string \<times> string option \<times> setter \<Rightarrow> bool" where
  "help_for optname newvalue sdf =
     (let matchlen = length (takeWhile (\<lambda>ch. \<not> isspace ch) newvalue)
      in fst (snd sdf) \<noteq> None \<and>
         \<not> (matchlen \<noteq> 0 \<and> (\<not> strncaseeq optname (fst sdf) matchlen \<or> chat optname matchlen \<noteq> CHR 0x00)))"

fun help_lines :: "(string \<times> string option \<times> setter) list \<Rightarrow> string" where
  "help_lines [] = []"
| "help_lines [sdf] = fst sdf @ '': '' @ str_text (fst (snd sdf))"
| "help_lines (sdf # sdfs) = fst sdf @ '': '' @ str_text (fst (snd sdf)) @ CHR 0x0A # help_lines sdfs"

definition proc_set_device_help :: "(string \<times> string option \<times> setter) list \<Rightarrow> string \<Rightarrow> string \<Rightarrow> string" where
  "proc_set_device_help sdfs optname newvalue =
     (let found = filter (help_for optname newvalue) sdfs
      in if found = [] then ''No help available'' else help_lines found)"

definition proc_set_device_temp_cutoff :: "string \<Rightarrow> dev \<Rightarrow> dev" where
  "proc_set_device_temp_cutoff newvalue d =
     (let target_diff = d_cutofftemp d - d_targettemp d;
          d = d\<lparr>d_cutofftemp := atoi newvalue\<rparr>
      in if d_targettemp_user d then d else d\<lparr>d_targettemp := d_cutofftemp d - target_diff\<rparr>)"

definition proc_set_device_temp_target :: "string \<Rightarrow> dev \<Rightarrow> dev" where
  "proc_set_device_temp_target newvalue d = d\<lparr>d_targettemp := atoi newvalue, d_targettemp_user := True\<rparr>"

definition set_auto_sdr :: "string option \<Rightarrow> string \<Rightarrow> set_device_replytype" where
  "set_auto_sdr rv optname = (if rv = None then SDR_OK else if strcaseeq optname ''help'' then SDR_HELP else SDR_ERR)"

text \<open>The setters of the driver.\<close>

definition driver_set_device :: "device_drv \<Rightarrow> setter" where
  "driver_set_device drv optname newvalue d =
     (case drv_set_device drv of
        Some f \<Rightarrow> let (d, rv) = f optname newvalue d in (d, rv, set_auto_sdr rv optname)
      | None \<Rightarrow>
          case set_device_funcs drv of
            None \<Rightarrow> (d, Some ''Device does not support setting parameters.'', SDR_NOSUPP)
          | Some sdfs \<Rightarrow>
              (case List.find (\<lambda>sdf. strcaseeq optname (fst sdf)) sdfs of
                 Some (_, _, f) \<Rightarrow>
                   let (d, rv, success) = f optname newvalue d
                   in (d, rv, if success = SDR_AUTO then set_auto_sdr rv optname else success)
               | None \<Rightarrow>
                   if strcaseeq optname ''help'' then (d, Some (proc_set_device_help sdfs optname newvalue), SDR_HELP)
                   else (d, Some (''Unknown option: '' @ optname), SDR_UNKNOWN)))"

text \<open>The temperatures can be set for every processor.\<close>

definition proc_set_device :: "device_drv \<Rightarrow> setter" where
  "proc_set_device drv optname newvalue d =
     (let (d, rv, success) = driver_set_device drv optname newvalue d
      in if success = SDR_NOSUPP \<or> success = SDR_UNKNOWN then
           (if strcaseeq optname ''temp-cutoff'' \<or> strcaseeq optname ''temp_cutoff'' then (proc_set_device_temp_cutoff newvalue d, None, success)
            else if strcaseeq optname ''temp-target'' \<or> strcaseeq optname ''temp_target'' then (proc_set_device_temp_target newvalue d, None, success)
            else (d, rv, success))
         else (d, rv, success))"

text \<open>One \<^verbatim>\<open>--set-device\<close>: the pattern before the first colon, the option, the value behind the first equals sign.\<close>

definition apply_setting :: "(string \<Rightarrow> bytes option) \<Rightarrow> device_table \<Rightarrow> device_drv \<Rightarrow> nat \<Rightarrow> string \<Rightarrow> dev \<Rightarrow> dev outcome" where
  "apply_setting stat T drv a setstr d =
     (let colon = CHR '':'' \<in> set setstr;
          pattern = (if colon then takeWhile (\<lambda>ch. ch \<noteq> CHR '':'') setstr else []);
          p = (if colon then drop (length pattern + 1) setstr else setstr);
          opt = takeWhile (\<lambda>ch. ch \<noteq> CHR ''='') p;
          setval = drop (length opt + 1) p
      in and_then (cgpu_match stat T pattern a) (\<lambda>fits.
           Returns (if fits then fst (proc_set_device drv opt setval d) else d)))"

fun apply_settings :: "(string \<Rightarrow> bytes option) \<Rightarrow> device_table \<Rightarrow> device_drv \<Rightarrow> nat \<Rightarrow> string list \<Rightarrow> dev \<Rightarrow> dev outcome" where
  "apply_settings stat T drv a [] d = Returns d"
| "apply_settings stat T drv a (s # ss) d = and_then (apply_setting stat T drv a s d) (apply_settings stat T drv a ss)"

definition cgpu_set_defaults ::
  "(string \<Rightarrow> bytes option) \<Rightarrow> device_table \<Rightarrow> device_drv \<Rightarrow> string list \<Rightarrow> nat \<Rightarrow> dev \<Rightarrow> dev outcome"
where
  "cgpu_set_defaults stat T drv settings a d =
     and_then (apply_settings stat T drv a settings d) (\<lambda>d. Returns (d\<lparr>d_already_set_defaults := True\<rparr>))"

section \<open>Reports of threads and errors\<close>

definition upd_thr :: "nat \<Rightarrow> (dev_thr \<Rightarrow> dev_thr) \<Rightarrow> dev \<Rightarrow> dev" where
  "upd_thr i f d = d\<lparr>d_thrs := (d_thrs d)[i := f (d_thrs d ! i)]\<rparr>"

definition thread_reportin :: "timeval \<Rightarrow> nat \<Rightarrow> dev \<Rightarrow> dev" where
  "thread_reportin clk i d =
     (upd_thr i (\<lambda>t. t\<lparr>th_last := clk, th_getwork := 0\<rparr>) d)\<lparr>d_status := LIFE_WELL, d_last_well := tv_sec clk\<rparr>"

definition thread_reportout :: "timeval \<Rightarrow> nat \<Rightarrow> dev \<Rightarrow> dev" where
  "thread_reportout clk i d = upd_thr i (\<lambda>t. t\<lparr>th_getwork := tv_sec clk\<rparr>) d"

definition dev_error_update :: "timeval \<Rightarrow> dev_reason \<Rightarrow> dev \<Rightarrow> dev" where
  "dev_error_update clk reason d = d\<lparr>d_last_not_well := tv_sec clk, d_tv_last_not_well := clk, d_not_well_reason := reason\<rparr>"

definition dev_error :: "timeval \<Rightarrow> dev_reason \<Rightarrow> dev \<Rightarrow> dev" where
  "dev_error clk reason d = (dev_error_update clk reason d)\<lparr>d_errors := (d_errors d)(reason := d_errors d reason + 1)\<rparr>"

definition proc_enable :: "dev \<Rightarrow> dev" where
  "proc_enable d = d\<lparr>d_deven := DEV_ENABLED, d_thrs := map (\<lambda>t. t\<lparr>th_woken := th_woken t + 1\<rparr>) (d_thrs d)\<rparr>"

definition drv_ready :: "dev \<Rightarrow> bool" where
  "drv_ready d = (d_status d \<noteq> LIFE_INIT \<and> d_status d \<noteq> LIFE_DEAD2)"

definition reinit_device :: "device_drv \<Rightarrow> dev \<Rightarrow> dev" where
  "reinit_device drv d = (case drv_reinit_device drv of None \<Rightarrow> d | Some f \<Rightarrow> f d)"

section \<open>The watch over one processor\<close>

definition WATCHDOG_SICK_TIME :: int where
  "WATCHDOG_SICK_TIME = 60"

definition WATCHDOG_DEAD_TIME :: int where
  "WATCHDOG_DEAD_TIME = 600"

text \<open>Temperature and errors. The result tells whether the watch goes on.\<close>

definition watch_temperature :: "loop_opts \<Rightarrow> timeval \<Rightarrow> dev \<Rightarrow> dev \<times> bool" where
  "watch_temperature opts clk d =
     (case d_deven d of
        DEV_DISABLED \<Rightarrow> (d, False)
      | DEV_RECOVER_ERR \<Rightarrow>
          (if opt_restart opts \<and> rat_of_int (tv_sec (timersub clk (d_tv_last_not_well d))) > d_reinit_backoff d
           then (proc_enable (if d_reinit_backoff d < 300 then d\<lparr>d_reinit_backoff := d_reinit_backoff d * 2\<rparr> else d), False)
           else (d, False))
      | DEV_RECOVER \<Rightarrow>
          (dev_error_update clk REASON_DEV_THERMAL_CUTOFF
             (if opt_restart opts \<and> d_temp d < rat_of_int (d_targettemp d) then proc_enable d else d), False)
      | _ \<Rightarrow>
          if d_temp d > rat_of_int (d_cutofftemp d)
          then (dev_error clk REASON_DEV_THERMAL_CUTOFF (d\<lparr>d_deven := DEV_RECOVER\<rparr>), True)
          else (d, True))"

text \<open>A processor whose first thread waits for work, or one that has none to wait for.\<close>

definition watch_waiting :: "loop_opts \<Rightarrow> timeval \<Rightarrow> dev \<Rightarrow> dev" where
  "watch_waiting opts tvp_now d =
     (if d_status d = LIFE_WELL \<and> th_getwork (d_thrs d ! 0) < tv_sec tvp_now - opt_log_interval opts \<and>
         list_all (\<lambda>i. th_getwork (d_thrs d ! i) \<noteq> 0) [0..<d_threads d]
      then d\<lparr>d_status := LIFE_WAIT\<rparr> else d)"

definition watch_silence :: "loop_opts \<Rightarrow> device_drv \<Rightarrow> timeval \<Rightarrow> timeval \<Rightarrow> dev \<Rightarrow> dev" where
  "watch_silence opts drv tvp_now clk d =
     (let idle = tv_sec tvp_now - tv_sec (th_last (d_thrs d ! 0))
      in if d_status d \<noteq> LIFE_WELL \<and> idle < WATCHDOG_SICK_TIME then d\<lparr>d_status := LIFE_WELL, d_last_well := tv_sec clk\<rparr>
         else if d_status d = LIFE_WELL \<and> idle > WATCHDOG_SICK_TIME then
           (let d = dev_error clk REASON_DEV_SICK_IDLE_60 (upd_thr 0 (\<lambda>t. t\<lparr>th_sick := clk\<rparr>) (d\<lparr>d_status := LIFE_SICK\<rparr>))
            in if opt_restart opts \<and> drv_reinit_device drv \<noteq> None then reinit_device drv d else d)
         else if d_status d = LIFE_SICK \<and> idle > WATCHDOG_DEAD_TIME then
           dev_error clk REASON_DEV_DEAD_IDLE_600 (upd_thr 0 (\<lambda>t. t\<lparr>th_sick := clk\<rparr>) (d\<lparr>d_status := LIFE_DEAD\<rparr>))
         else if tv_sec tvp_now - tv_sec (th_sick (d_thrs d ! 0)) > 60 \<and> (d_status d = LIFE_SICK \<or> d_status d = LIFE_DEAD) then
           (let d = upd_thr 0 (\<lambda>t. t\<lparr>th_sick := clk\<rparr>) d in if opt_restart opts then reinit_device drv d else d)
         else d)"

text \<open>What the driver is asked for before.\<close>

definition watch_driver ::
  "(string \<Rightarrow> bytes option) \<Rightarrow> device_table \<Rightarrow> device_drv \<Rightarrow> string list \<Rightarrow> nat \<Rightarrow> timeval \<Rightarrow> dev \<Rightarrow> dev outcome"
where
  "watch_driver stat T drv settings a tvp_now d =
     and_then
       (if drv_ready d then
          and_then (if d_already_set_defaults d then Returns d else cgpu_set_defaults stat T drv settings a d) (\<lambda>d. Returns (drv_get_stats drv d))
        else Returns d)
       (\<lambda>d. Returns (drv_watchdog drv tvp_now d))"

definition watch_state :: "loop_opts \<Rightarrow> device_drv \<Rightarrow> timeval \<Rightarrow> timeval \<Rightarrow> dev \<Rightarrow> dev" where
  "watch_state opts drv tvp_now clk d =
     (let (d, go_on) = watch_temperature opts clk d
      in if \<not> go_on then d
         else if th_getwork (d_thrs d ! 0) \<noteq> 0 then watch_waiting opts tvp_now d
         else let d = (if d_status d = LIFE_WAIT then d\<lparr>d_status := LIFE_WELL\<rparr> else d)
              in if drv_cpu drv then d else watch_silence opts drv tvp_now clk d)"

definition bfg_watchdog ::
  "loop_opts \<Rightarrow> (string \<Rightarrow> bytes option) \<Rightarrow> device_table \<Rightarrow> device_drv \<Rightarrow> string list \<Rightarrow> nat \<Rightarrow> timeval \<Rightarrow> timeval \<Rightarrow> dev \<Rightarrow> dev outcome"
where
  "bfg_watchdog opts stat T drv settings a tvp_now clk d =
     and_then (watch_driver stat T drv settings a tvp_now d) (\<lambda>d. Returns (watch_state opts drv tvp_now clk d))"

section \<open>The watch over all\<close>

text \<open>The processors in the order of the table, whether the schedule has stopped them, and the two times of the schedule.\<close>

record rig =
  sched_paused :: bool
  schedstart :: schedtime
  schedstop :: schedtime
  rig_devs :: "dev list"

definition pause_threads :: "bool \<Rightarrow> dev \<Rightarrow> dev" where
  "pause_threads b d = d\<lparr>d_thrs := map (\<lambda>t. t\<lparr>th_pause := b\<rparr>) (d_thrs d)\<rparr>"

text \<open>\<open>None\<close> when the program ends.\<close>

definition watch_schedule :: "tm \<Rightarrow> rig \<Rightarrow> rig option" where
  "watch_schedule now s =
     (let (run, start) = should_run (schedstart s) (schedstop s) now; s = s\<lparr>schedstart := start\<rparr>
      in if \<not> sched_paused s \<and> \<not> run then
           (if \<not> sched_enable (schedstart s) then None
            else Some (s\<lparr>sched_paused := True, rig_devs := map (pause_threads True) (rig_devs s)\<rparr>))
         else if sched_paused s \<and> run then
           Some (s\<lparr>sched_paused := False,
                   rig_devs := map (\<lambda>d. let d = pause_threads False d in if d_deven d = DEV_DISABLED then d else proc_enable d) (rig_devs s)\<rparr>)
         else Some s)"

fun watch_all ::
  "loop_opts \<Rightarrow> (string \<Rightarrow> bytes option) \<Rightarrow> device_table \<Rightarrow> (nat \<Rightarrow> device_drv) \<Rightarrow> string list \<Rightarrow> timeval \<Rightarrow> timeval \<Rightarrow> nat \<Rightarrow> dev list \<Rightarrow> dev list outcome"
where
  "watch_all opts stat T drvs settings now clk i [] = Returns []"
| "watch_all opts stat T drvs settings now clk i (d # ds) =
     and_then (if d_disable_watchdog d then Returns d else bfg_watchdog opts stat T (drvs i) settings (devices T ! i) now clk d) (\<lambda>d.
       and_then (watch_all opts stat T drvs settings now clk (i + 1) ds) (\<lambda>ds. Returns (d # ds)))"

definition watchdog_round ::
  "loop_opts \<Rightarrow> (string \<Rightarrow> bytes option) \<Rightarrow> device_table \<Rightarrow> (nat \<Rightarrow> device_drv) \<Rightarrow> string list \<Rightarrow> tm \<Rightarrow> timeval \<Rightarrow> timeval \<Rightarrow> rig \<Rightarrow> rig option outcome"
where
  "watchdog_round opts stat T drvs settings local now clk s =
     (case watch_schedule local s of
        None \<Rightarrow> Returns None
      | Some s \<Rightarrow> and_then (watch_all opts stat T drvs settings now clk 0 (rig_devs s)) (\<lambda>ds. Returns (Some (s\<lparr>rig_devs := ds\<rparr>))))"

section \<open>Properties of the settings\<close>

lemma chat_Nil_facts: "\<not> isdigit CHR 0x00" "\<not> isCalpha CHR 0x00"
  by code_simp+

lemma empty_pattern:
  assumes "name_ok (drv_dname (cgpus T a))" "name_ok (drv_name (cgpus T a))"
  shows "cgpu_match stat T [] a = Returns False"
proof -
  have n: "\<not> strncaseeq s [] (length s)" if "name_ok s" for s
    using that chat_Nil_facts(2) by (cases s) (auto simp: name_ok_def strncaseeq_def strcaseeq_def)
  have "match_start (cgpus T a) [] = None" using n [OF assms(1)] n [OF assms(2)] chat_Nil_facts by (simp add: match_start_def)
  then show ?thesis by (simp add: cgpu_match_def strcaseeq_def)
qed

text \<open>
  C32. A setting without a pattern of devices, which the documentation recommends to set the intensity of all, sets nothing: its pattern is
  empty, and that fits no processor.
\<close>

theorem setting_without_device:
  assumes "name_ok (drv_dname (cgpus T a))" "name_ok (drv_name (cgpus T a))" "\<forall>s\<in>set settings. CHR '':'' \<notin> set s"
  shows "cgpu_set_defaults stat T drv settings a d = Returns (d\<lparr>d_already_set_defaults := True\<rparr>)"
proof -
  have "apply_setting stat T drv a s d = Returns d" if "CHR '':'' \<notin> set s" for s d
    using that empty_pattern [OF assms(1,2)] by (simp add: apply_setting_def Let_def)
  then have "apply_settings stat T drv a settings d = Returns d" for d
    using assms(3) by (induction settings arbitrary: d) auto
  then show ?thesis by (simp add: cgpu_set_defaults_def)
qed

text \<open>
  The cutoff of the temperature can be set for a processor whose driver has no setter of that name: the target keeps its distance
  unless it was set itself. But the kind of the reply stays the driver's: success is reported as an unknown or unsupported option.
\<close>

theorem temp_cutoff_set:
  assumes "drv_set_device drv = None" "\<forall>sdfs. set_device_funcs drv = Some sdfs \<longrightarrow> (\<forall>sdf\<in>set sdfs. \<not> strcaseeq opt (fst sdf))"
    "strcaseeq opt ''temp-cutoff''" "n < 2 ^ 31"
  shows "\<exists>r kind. proc_set_device drv opt (nat_text n) d = (r, None, kind) \<and> kind \<in> {SDR_NOSUPP, SDR_UNKNOWN} \<and>
    r = d\<lparr>d_cutofftemp := int n, d_targettemp := (if d_targettemp_user d then d_targettemp d else d_targettemp d + (int n - d_cutofftemp d))\<rparr>"
proof -
  have h: "\<not> strcaseeq opt ''help''"
  proof
    assume "strcaseeq opt ''help''"
    then have "map tolower ''temp-cutoff'' = map tolower ''help''" using assms(3) by (simp add: strcaseeq_def)
    then show False by simp
  qed
  have none: "List.find (\<lambda>sdf. strcaseeq opt (fst sdf)) sdfs = None" if "set_device_funcs drv = Some sdfs" for sdfs
    using assms(2) that by (auto simp: find_None_iff)
  obtain rv kind where k: "driver_set_device drv opt (nat_text n) d = (d, rv, kind)" "kind = SDR_NOSUPP \<or> kind = SDR_UNKNOWN"
    using assms(1) h none by (cases "set_device_funcs drv") (auto simp: driver_set_device_def)
  have v: "atoi (nat_text n) = int n" by (rule atoi_nat_text [OF assms(4)])
  have "proc_set_device drv opt (nat_text n) d = (proc_set_device_temp_cutoff (nat_text n) d, None, kind)"
    using k assms(3) by (auto simp: proc_set_device_def)
  moreover have "proc_set_device_temp_cutoff (nat_text n) d =
      d\<lparr>d_cutofftemp := int n, d_targettemp := (if d_targettemp_user d then d_targettemp d else d_targettemp d + (int n - d_cutofftemp d))\<rparr>"
    by (simp add: proc_set_device_temp_cutoff_def v Let_def)
  ultimately show ?thesis using k(2) by auto
qed

section \<open>Silence\<close>

text \<open>Reinitialising a device leaves alone what the watch looks at.\<close>

definition watch_view :: "dev \<Rightarrow> alive \<times> dev_enable \<times> rat \<times> int \<times> int \<times> (int \<times> timeval) list" where
  "watch_view d = (d_status d, d_deven d, d_temp d, d_cutofftemp d, d_targettemp d, map (\<lambda>t. (th_getwork t, th_last t)) (d_thrs d))"

definition quiet_reinit :: "device_drv \<Rightarrow> bool" where
  "quiet_reinit drv \<longleftrightarrow> (\<forall>d. watch_view (reinit_device drv d) = watch_view d)"

text \<open>What becomes of the state of a processor that has been silent for some seconds.\<close>

definition health_step :: "int \<Rightarrow> alive \<Rightarrow> alive" where
  "health_step idle status =
     (if idle < 60 then LIFE_WELL
      else let status = (if status = LIFE_WAIT then LIFE_WELL else status)
           in if status = LIFE_WELL \<and> idle > 60 then LIFE_SICK
              else if status = LIFE_SICK \<and> idle > 600 then LIFE_DEAD
              else status)"

definition idle_time :: "timeval \<Rightarrow> dev \<Rightarrow> int" where
  "idle_time now d = tv_sec now - tv_sec (th_last (d_thrs d ! 0))"

lemma upd_sick_view [simp]: "d_thrs d \<noteq> [] \<Longrightarrow> watch_view (upd_thr 0 (\<lambda>t. t\<lparr>th_sick := c\<rparr>) d) = watch_view d"
  by (cases "d_thrs d") (auto simp: watch_view_def upd_thr_def)

lemma dev_error_view [simp]: "watch_view (dev_error clk r d) = watch_view d" "watch_view (dev_error_update clk r d) = watch_view d"
  by (simp_all add: dev_error_def dev_error_update_def watch_view_def)

lemma quiet_view: "quiet_reinit drv \<Longrightarrow> watch_view (reinit_device drv d) = watch_view d"
  by (simp add: quiet_reinit_def)

lemma view_status: "watch_view a = watch_view b \<Longrightarrow> d_status a = d_status b \<and> d_deven a = d_deven b \<and> d_temp a = d_temp b \<and> d_cutofftemp a = d_cutofftemp b \<and>
    d_targettemp a = d_targettemp b \<and> map (\<lambda>t. (th_getwork t, th_last t)) (d_thrs a) = map (\<lambda>t. (th_getwork t, th_last t)) (d_thrs b)"
  by (simp add: watch_view_def)

lemma status_view: "watch_view (d\<lparr>d_status := s\<rparr>) = (s, snd (watch_view d))" "fst (watch_view d) = d_status d"
  "watch_view (d\<lparr>d_status := s, d_last_well := w\<rparr>) = (s, snd (watch_view d))"
  by (simp_all add: watch_view_def)

lemma view_status_of: "watch_view r = (s, v) \<Longrightarrow> d_status r = s"
  by (simp add: watch_view_def)

lemma watch_silence_view:
  assumes "quiet_reinit drv" "d_thrs d \<noteq> []" "d_status d \<noteq> LIFE_WAIT"
  shows "watch_view (watch_silence opts drv now clk d) = (health_step (idle_time now d) (d_status d), snd (watch_view d))"
proof -
  let ?idle = "idle_time now d"
  have same: "watch_view d = (d_status d, snd (watch_view d))" by (simp add: watch_view_def)
  consider (well) "d_status d \<noteq> LIFE_WELL" "?idle < 60" | (fine) "d_status d = LIFE_WELL" "?idle \<le> 60" | (sick) "d_status d = LIFE_WELL" "?idle > 60"
    | (dead) "d_status d = LIFE_SICK" "?idle > 600" | (still) "d_status d \<noteq> LIFE_WELL" "\<not> ?idle < 60" "\<not> (d_status d = LIFE_SICK \<and> ?idle > 600)"
    by linarith
  then show ?thesis
  proof cases
    case well
    then show ?thesis by (simp add: watch_silence_def Let_def idle_time_def [symmetric] WATCHDOG_SICK_TIME_def health_step_def status_view)
  next
    case fine
    then show ?thesis using same by (auto simp: watch_silence_def Let_def idle_time_def [symmetric] WATCHDOG_SICK_TIME_def health_step_def)
  next
    case sick
    have "d_thrs (d\<lparr>d_status := LIFE_SICK\<rparr>) \<noteq> []" using assms(2) by simp
    then show ?thesis using sick quiet_view [OF assms(1)]
      by (simp add: watch_silence_def Let_def idle_time_def [symmetric] WATCHDOG_SICK_TIME_def health_step_def status_view)
  next
    case dead
    have "d_thrs (d\<lparr>d_status := LIFE_DEAD\<rparr>) \<noteq> []" using assms(2) by simp
    then show ?thesis using dead
      by (simp add: watch_silence_def Let_def idle_time_def [symmetric] WATCHDOG_SICK_TIME_def WATCHDOG_DEAD_TIME_def health_step_def status_view)
  next
    case still
    then have "watch_view (watch_silence opts drv now clk d) = watch_view d"
      using quiet_view [OF assms(1)] assms(2)
      by (auto simp: watch_silence_def Let_def idle_time_def [symmetric] WATCHDOG_SICK_TIME_def WATCHDOG_DEAD_TIME_def)
    moreover have "health_step ?idle (d_status d) = d_status d" using still assms(3) by (auto simp: health_step_def)
    ultimately show ?thesis using same by simp
  qed
qed

text \<open>A processor that is to run, is not too hot, does not wait for work and is no CPU.\<close>

definition watched :: "dev \<Rightarrow> bool" where
  "watched d \<longleftrightarrow> d_thrs d \<noteq> [] \<and> d_deven d \<in> {DEV_ENABLED, DEV_RECOVER_DRV} \<and> \<not> d_temp d > rat_of_int (d_cutofftemp d) \<and> th_getwork (d_thrs d ! 0) = 0"

lemma watch_state_watched:
  assumes "quiet_reinit drv" "watched d" "\<not> drv_cpu drv"
  shows "watch_view (watch_state opts drv now clk d) = (health_step (idle_time now d) (d_status d), snd (watch_view d))"
proof -
  have t: "watch_temperature opts clk d = (d, True)" using assms(2) by (auto simp: watch_temperature_def watched_def)
  let ?d = "if d_status d = LIFE_WAIT then d\<lparr>d_status := LIFE_WELL\<rparr> else d"
  have "watch_state opts drv now clk d = watch_silence opts drv now clk ?d"
    using assms(2,3) t by (simp add: watch_state_def watched_def)
  moreover have "d_thrs ?d \<noteq> []" "d_status ?d \<noteq> LIFE_WAIT" "idle_time now ?d = idle_time now d" "snd (watch_view ?d) = snd (watch_view d)"
    using assms(2) by (simp_all add: watched_def idle_time_def watch_view_def)
  moreover have "health_step i (d_status ?d) = health_step i (d_status d)" for i by (simp add: health_step_def)
  ultimately show ?thesis using watch_silence_view [OF assms(1)] by simp
qed

lemma watched_view: "snd (watch_view r) = snd (watch_view d) \<Longrightarrow> watched r = watched d \<and> idle_time now r = idle_time now d"
proof -
  assume v: "snd (watch_view r) = snd (watch_view d)"
  then have m: "map (\<lambda>t. (th_getwork t, th_last t)) (d_thrs r) = map (\<lambda>t. (th_getwork t, th_last t)) (d_thrs d)" by (simp add: watch_view_def)
  then have l: "length (d_thrs r) = length (d_thrs d)" using map_eq_imp_length_eq by blast
  have "th_getwork (d_thrs r ! 0) = th_getwork (d_thrs d ! 0) \<and> th_last (d_thrs r ! 0) = th_last (d_thrs d ! 0)" if "d_thrs d \<noteq> []"
    using that l arg_cong [OF m, of "\<lambda>xs. xs ! 0"] by (cases "d_thrs r"; cases "d_thrs d") auto
  moreover have "d_thrs r = [] \<longleftrightarrow> d_thrs d = []" using l by auto
  ultimately show ?thesis using v by (auto simp: watched_def watch_view_def idle_time_def)
qed

text \<open>Rounds at several times, with the time the clock shows in each.\<close>

fun watch_rounds :: "loop_opts \<Rightarrow> device_drv \<Rightarrow> (timeval \<times> timeval) list \<Rightarrow> dev \<Rightarrow> dev" where
  "watch_rounds opts drv [] d = d"
| "watch_rounds opts drv ((now, clk) # ts) d = watch_rounds opts drv ts (watch_state opts drv now clk d)"

lemma watch_rounds_status:
  assumes "quiet_reinit drv" "\<not> drv_cpu drv" "watched d"
  shows "d_status (watch_rounds opts drv ts d) = fold health_step (map (\<lambda>(now, clk). idle_time now d) ts) (d_status d) \<and>
    watched (watch_rounds opts drv ts d)"
  using assms(3)
proof (induction ts arbitrary: d)
  case (Cons tc ts)
  obtain now clk where tc: "tc = (now, clk)" by (cases tc)
  let ?r = "watch_state opts drv now clk d"
  have v: "watch_view ?r = (health_step (idle_time now d) (d_status d), snd (watch_view d))" by (rule watch_state_watched [OF assms(1) Cons.prems assms(2)])
  then have s: "d_status ?r = health_step (idle_time now d) (d_status d)" by (rule view_status_of)
  have w: "watched ?r = watched d" "idle_time n ?r = idle_time n d" for n using watched_view [of ?r d] v by simp_all
  show ?case using Cons.IH [of ?r] Cons.prems w s by (simp add: tc)
qed simp

lemma fold_health_sorted:
  "sorted is \<Longrightarrow> fold health_step is LIFE_WELL =
     (case filter (\<lambda>i. i > 60) is of [] \<Rightarrow> LIFE_WELL | k # rest \<Rightarrow> if \<exists>i\<in>set rest. i > 600 then LIFE_DEAD else LIFE_SICK)"
proof -
  have dead: "\<forall>i\<in>set is. i > 60 \<Longrightarrow> fold health_step is LIFE_DEAD = LIFE_DEAD" for "is"
    by (induction "is") (auto simp: health_step_def)
  have sick: "\<forall>i\<in>set is. i > 60 \<Longrightarrow> fold health_step is LIFE_SICK = (if \<exists>i\<in>set is. i > 600 then LIFE_DEAD else LIFE_SICK)" for "is"
    by (induction "is") (auto simp: health_step_def dead)
  show "sorted is \<Longrightarrow> ?thesis"
  proof (induction "is")
    case (Cons i "is")
    show ?case
    proof (cases "i > 60")
      case True
      then have all: "\<forall>j\<in>set is. j > 60" using Cons.prems by auto
      then have "filter (\<lambda>i. i > 60) is = is" by simp
      moreover have "health_step i LIFE_WELL = LIFE_SICK" using True by (simp add: health_step_def)
      ultimately show ?thesis using True sick [OF all] by simp
    next
      case False
      then have "health_step i LIFE_WELL = LIFE_WELL" by (auto simp: health_step_def)
      then show ?thesis using False Cons by simp
    qed
  qed simp
qed

text \<open>
  C16. A processor that does not report is declared sick in the first round that finds it silent for more than a minute, and dead in
  a later round when that has become ten minutes; before that it stays well. Waiting for work, CPUs and heat aside.
\<close>

theorem silent_processor:
  assumes "quiet_reinit drv" "\<not> drv_cpu drv" "watched d" "d_status d = LIFE_WELL" "sorted (map (\<lambda>(now, clk). idle_time now d) ts)"
  shows "d_status (watch_rounds opts drv ts d) =
    (case filter (\<lambda>i. i > 60) (map (\<lambda>(now, clk). idle_time now d) ts) of
       [] \<Rightarrow> LIFE_WELL
     | k # rest \<Rightarrow> if \<exists>i\<in>set rest. i > 600 then LIFE_DEAD else LIFE_SICK)"
  using watch_rounds_status [OF assms(1-3)] fold_health_sorted [OF assms(5)] assms(4) by simp

text \<open>
  A round within a minute of its last report declares a processor well, whatever state it was in.
\<close>

theorem report_revives:
  assumes "quiet_reinit drv" "\<not> drv_cpu drv" "d_thrs d \<noteq> []" "d_deven d \<in> {DEV_ENABLED, DEV_RECOVER_DRV}" "d_temp d \<le> rat_of_int (d_cutofftemp d)"
    "tv_sec now - tv_sec t < 60"
  shows "d_status (watch_state opts drv now clk ((thread_reportin t 0 d)\<lparr>d_status := s\<rparr>)) = LIFE_WELL"
proof -
  let ?d = "(thread_reportin t 0 d)\<lparr>d_status := s\<rparr>"
  obtain x xs where x: "d_thrs d = x # xs" using assms(3) by (cases "d_thrs d") auto
  have "watched ?d" "idle_time now ?d < 60" using assms(4-6) by (auto simp: watched_def thread_reportin_def upd_thr_def idle_time_def x)
  then show ?thesis using view_status_of [OF watch_state_watched [OF assms(1) _ assms(2)]] by (simp add: health_step_def)
qed

section \<open>Heat\<close>

lemma watch_state_rest:
  assumes "quiet_reinit drv" "d_thrs d \<noteq> []"
  shows "snd (watch_view (watch_state opts drv now clk d)) = snd (watch_view (fst (watch_temperature opts clk d)))"
proof -
  obtain e go where e: "watch_temperature opts clk d = (e, go)" by (cases "watch_temperature opts clk d")
  have "d_thrs e \<noteq> []"
  proof -
    have "length (d_thrs (fst (watch_temperature opts clk d))) = length (d_thrs d)"
      by (auto simp: watch_temperature_def proc_enable_def dev_error_update_def dev_error_def split: dev_enable.split)
    then show ?thesis using e assms(2) by auto
  qed
  let ?f = "if d_status e = LIFE_WAIT then e\<lparr>d_status := LIFE_WELL\<rparr> else e"
  have "d_thrs ?f \<noteq> []" "d_status ?f \<noteq> LIFE_WAIT" "snd (watch_view ?f) = snd (watch_view e)"
    using \<open>d_thrs e \<noteq> []\<close> by (simp_all add: watch_view_def)
  then have "snd (watch_view (watch_silence opts drv now clk ?f)) = snd (watch_view e)" using watch_silence_view [OF assms(1)] by simp
  moreover have "snd (watch_view (watch_waiting opts now e)) = snd (watch_view e)" by (simp add: watch_waiting_def watch_view_def)
  moreover have "snd (watch_view ?f) = snd (watch_view e)" by (simp add: watch_view_def)
  ultimately show ?thesis unfolding watch_state_def e Let_def prod.case by (cases "d_status e = LIFE_WAIT") auto
qed

text \<open>Rounds, each with the temperature the driver has measured before.\<close>

fun watch_temps :: "loop_opts \<Rightarrow> device_drv \<Rightarrow> (rat \<times> timeval \<times> timeval) list \<Rightarrow> dev \<Rightarrow> dev" where
  "watch_temps opts drv [] d = d"
| "watch_temps opts drv ((temp, now, clk) # ts) d = watch_temps opts drv ts (watch_state opts drv now clk (d\<lparr>d_temp := temp\<rparr>))"

text \<open>A thermostat: off above the cutoff, on again below the target.\<close>

definition thermostat :: "int \<Rightarrow> int \<Rightarrow> rat \<Rightarrow> bool \<Rightarrow> bool" where
  "thermostat cutoff target temp on = (if on then temp \<le> rat_of_int cutoff else temp < rat_of_int target)"

definition switch :: "bool \<Rightarrow> dev_enable" where
  "switch on = (if on then DEV_ENABLED else DEV_RECOVER)"

lemma watch_thermostat_step:
  assumes "quiet_reinit drv" "opt_restart opts" "d_thrs d \<noteq> []" "d_deven d = switch on"
  shows "d_deven (watch_state opts drv now clk (d\<lparr>d_temp := temp\<rparr>)) = switch (thermostat (d_cutofftemp d) (d_targettemp d) temp on) \<and>
    d_cutofftemp (watch_state opts drv now clk (d\<lparr>d_temp := temp\<rparr>)) = d_cutofftemp d \<and>
    d_targettemp (watch_state opts drv now clk (d\<lparr>d_temp := temp\<rparr>)) = d_targettemp d \<and>
    d_thrs (watch_state opts drv now clk (d\<lparr>d_temp := temp\<rparr>)) \<noteq> []"
proof -
  let ?d = "d\<lparr>d_temp := temp\<rparr>"
  let ?e = "fst (watch_temperature opts clk ?d)"
  let ?r = "watch_state opts drv now clk ?d"
  have "snd (watch_view ?r) = snd (watch_view ?e)" using watch_state_rest [OF assms(1)] assms(3) by simp
  then have r: "d_deven ?r = d_deven ?e" "d_cutofftemp ?r = d_cutofftemp ?e" "d_targettemp ?r = d_targettemp ?e"
      "length (d_thrs ?r) = length (d_thrs ?e)"
    by (auto simp: watch_view_def dest: map_eq_imp_length_eq)
  have e: "d_deven ?e = switch (thermostat (d_cutofftemp d) (d_targettemp d) temp on) \<and> d_cutofftemp ?e = d_cutofftemp d \<and> d_targettemp ?e = d_targettemp d \<and>
      length (d_thrs ?e) = length (d_thrs d)"
    using assms(2,4) by (cases on) (auto simp: watch_temperature_def switch_def thermostat_def dev_error_def dev_error_update_def proc_enable_def)
  show ?thesis using r e assms(3) by auto
qed


text \<open>
  The start of the day's schedule switches on what the watch has switched off for heat: a processor between its target and its
  cutoff, which the watch alone would have kept off, runs after the round.
\<close>

theorem schedule_ignores_heat:
  assumes "sched_paused s" "fst (should_run (schedstart s) (schedstop s) local)" "rig_devs s = [d]" "d_deven d = DEV_RECOVER"
    "d_disable_watchdog d = False" "d_already_set_defaults d" "d_thrs d \<noteq> []" "quiet_reinit (drvs 0)"
    "drv_get_stats (drvs 0) = id" "drv_watchdog (drvs 0) = (\<lambda>_. id)"
    "rat_of_int (d_targettemp d) \<le> d_temp d" "d_temp d \<le> rat_of_int (d_cutofftemp d)"
  shows "\<exists>s' d'. watchdog_round opts stat T drvs settings local now clk s = Returns (Some s') \<and> rig_devs s' = [d'] \<and> d_deven d' = DEV_ENABLED \<and>
    d_deven (watch_state opts (drvs 0) now clk d) = DEV_RECOVER"
proof -
  let ?d = "proc_enable (pause_threads False d)"
  obtain st where r: "should_run (schedstart s) (schedstop s) local = (True, st)"
    using assms(2) by (cases "should_run (schedstart s) (schedstop s) local") auto
  have sched: "watch_schedule local s = Some (s\<lparr>schedstart := st, sched_paused := False, rig_devs := [?d]\<rparr>)"
    using assms(1,3,4) r by (simp add: watch_schedule_def pause_threads_def)
  have d: "d_disable_watchdog ?d = False" "d_already_set_defaults ?d" "d_thrs ?d \<noteq> []" "d_deven ?d = DEV_ENABLED" "\<not> d_temp ?d > rat_of_int (d_cutofftemp ?d)"
    using assms(5-7,12) by (simp_all add: proc_enable_def pause_threads_def)
  have w: "watch_driver stat T (drvs 0) settings (devices T ! 0) now ?d = Returns ?d" using d(2) assms(9,10) by (simp add: watch_driver_def)
  have "snd (watch_view (watch_state opts (drvs 0) now clk ?d)) = snd (watch_view (fst (watch_temperature opts clk ?d)))"
    by (rule watch_state_rest [OF assms(8) d(3)])
  then have on: "d_deven (watch_state opts (drvs 0) now clk ?d) = DEV_ENABLED" using d(4,5) by (simp add: watch_view_def watch_temperature_def)
  have "snd (watch_view (watch_state opts (drvs 0) now clk d)) = snd (watch_view (fst (watch_temperature opts clk d)))"
    by (rule watch_state_rest [OF assms(8,7)])
  then have off: "d_deven (watch_state opts (drvs 0) now clk d) = DEV_RECOVER"
    using assms(4,11) by (simp add: watch_view_def watch_temperature_def dev_error_update_def)
  show ?thesis using sched d(1) w on off by (simp add: watchdog_round_def bfg_watchdog_def)
qed

section \<open>Restarts after errors\<close>

text \<open>A processor that fails again at once, at the first of the times, and the round at the second.\<close>

fun error_rounds :: "loop_opts \<Rightarrow> (timeval \<times> timeval) list \<Rightarrow> dev \<Rightarrow> dev" where
  "error_rounds opts [] d = d"
| "error_rounds opts ((err, clk) # ts) d =
     error_rounds opts ts (fst (watch_temperature opts clk (d\<lparr>d_deven := DEV_RECOVER_ERR, d_tv_last_not_well := err\<rparr>)))"

definition first_backoff :: rat where
  "first_backoff = 5.2734375"

lemma backoff_step:
  assumes "d_reinit_backoff d = first_backoff * 2 ^ k" "k \<le> 6"
  shows "\<exists>j\<in>{k, min 6 (k + 1)}. d_reinit_backoff (fst (watch_temperature opts clk (d\<lparr>d_deven := DEV_RECOVER_ERR, d_tv_last_not_well := err\<rparr>))) = first_backoff * 2 ^ j"
proof (cases "k = 6")
  case True
  then have "\<not> d_reinit_backoff d < 300" using assms(1) by (simp add: first_backoff_def)
  then show ?thesis using True assms(1) by (auto simp: watch_temperature_def proc_enable_def)
next
  case False
  then have "min 6 (k + 1) = k + 1" using assms(2) by simp
  then show ?thesis using assms(1) by (auto simp: watch_temperature_def proc_enable_def)
qed


text \<open>Where nothing sets the delay, it is 0 and stays 0: a second after each error the processor is restarted.\<close>

lemma no_backoff:
  "d_reinit_backoff d = 0 \<Longrightarrow> opt_restart opts \<Longrightarrow> d_reinit_backoff (error_rounds opts ts d) = 0 \<and>
   (tv_sec (timersub clk err) \<ge> 1 \<longrightarrow> d_deven (error_rounds opts (ts @ [(err, clk)]) d) = DEV_ENABLED)"
proof (induction ts arbitrary: d)
  case (Cons t ts)
  obtain e c where t: "t = (e, c)" by (cases t)
  have "d_reinit_backoff (fst (watch_temperature opts c (d\<lparr>d_deven := DEV_RECOVER_ERR, d_tv_last_not_well := e\<rparr>))) = 0"
    using Cons.prems(1) by (simp add: watch_temperature_def proc_enable_def)
  from Cons.IH [OF this Cons.prems(2)] show ?case by (simp add: t)
qed (simp add: watch_temperature_def proc_enable_def)

text \<open>Help for one setting is never found: the names are compared with the word help, not with the setting that was asked for.\<close>

lemma help_of_one_option:
  assumes "\<forall>sdf\<in>set sdfs. \<not> strncaseeq ''help'' (fst sdf) 4" "newvalue \<noteq> []" "\<not> isspace (hd newvalue)"
  shows "proc_set_device_help sdfs ''help'' newvalue = ''No help available''"
proof -
  let ?n = "length (takeWhile (\<lambda>ch. \<not> isspace ch) newvalue)"
  have n: "?n \<noteq> 0" using assms(2,3) by (cases newvalue) auto
  have "\<not> help_for ''help'' newvalue sdf" if "sdf \<in> set sdfs" for sdf
  proof
    assume "help_for ''help'' newvalue sdf"
    then have e: "strncaseeq ''help'' (fst sdf) ?n" "chat ''help'' ?n = CHR 0x00" using n by (auto simp: help_for_def Let_def)
    have "?n \<ge> 4"
    proof (rule ccontr)
      assume "\<not> ?n \<ge> 4"
      then have "?n = 1 \<or> ?n = 2 \<or> ?n = 3" using n by linarith
      then show False using e(2) by (elim disjE) (simp_all add: chat_def)
    qed
    then have m: "map tolower ''help'' = map tolower (take ?n (fst sdf))" using e(1) by (simp add: strncaseeq_def strcaseeq_def)
    then have "take 4 (map tolower ''help'') = take 4 (map tolower (take ?n (fst sdf)))" by (rule arg_cong)
    then have "map tolower (take 4 ''help'') = map tolower (take 4 (fst sdf))" using \<open>?n \<ge> 4\<close> by (simp only: take_map take_take min_absorb1)
    then have "strncaseeq ''help'' (fst sdf) 4" unfolding strncaseeq_def strcaseeq_def .
    then show False using assms(1) that by blast
  qed
  then have "filter (help_for ''help'' newvalue) sdfs = []" by (auto simp: filter_empty_conv)
  then show ?thesis by (simp add: proc_set_device_help_def)
qed

end
