(* ===== verification/HealthExamples.thy ===== *)
theory HealthExamples
  imports DeviceHealth
begin

text \<open>A processor of a driver without setters, and rounds of the watch over it.\<close>

definition opts0 :: loop_opts where
  "opts0 = \<lparr>opt_restart = True, opt_log_interval = 20\<rparr>"

abbreviation at_s :: "int \<Rightarrow> timeval" where
  "at_s s \<equiv> \<lparr>tv_sec = s, tv_usec = 0\<rparr>"

definition drv0 :: device_drv where
  "drv0 = \<lparr>drv_cpu = False, drv_get_stats = id, drv_watchdog = (\<lambda>_. id), drv_reinit_device = None, drv_set_device = None, set_device_funcs = None\<rparr>"

definition dev0 :: dev where
  "dev0 = \<lparr>d_status = LIFE_WELL, d_deven = DEV_ENABLED, d_temp = 60, d_cutofftemp = 85, d_targettemp = 79, d_targettemp_user = False,
     d_already_set_defaults = True, d_last_well = 1000, d_last_not_well = 0, d_tv_last_not_well = at_s 0, d_not_well_reason = REASON_THREAD_FAIL_INIT,
     d_reinit_backoff = first_backoff, d_errors = (\<lambda>_. 0), d_threads = 1,
     d_thrs = [\<lparr>th_getwork = 0, th_last = at_s 1000, th_sick = at_s 0, th_pause = False, th_woken = 0\<rparr>], d_disable_watchdog = False\<rparr>"

lemma drv0_quiet: "quiet_reinit drv0" "\<not> drv_cpu drv0"
  by (simp_all add: quiet_reinit_def reinit_device_def drv0_def)

lemma dev0_watched: "watched dev0" "d_status dev0 = LIFE_WELL" "d_thrs dev0 \<noteq> []"
  by (simp_all add: watched_def dev0_def)

theorem setting_without_device_witness:
  "cgpu_set_defaults (\<lambda>_. None) (test_table (\<lambda>c. c)) drv0 [''temp-cutoff=70''] 2 dev0 = Returns (dev0\<lparr>d_already_set_defaults := True\<rparr>)"
proof -
  have "name_ok ''test''" "name_ok ''TST''" by code_simp+
  then have "name_ok (drv_dname (cgpus (test_table (\<lambda>c. c)) 2))" "name_ok (drv_name (cgpus (test_table (\<lambda>c. c)) 2))"
    by (simp_all add: test_table_def test_cgpu_def)
  then show ?thesis by (rule setting_without_device) simp
qed

theorem temp_cutoff_set_witness:
  "\<exists>r kind. proc_set_device drv0 ''temp-cutoff'' (nat_text 70) dev0 = (r, None, kind) \<and> kind \<in> {SDR_NOSUPP, SDR_UNKNOWN} \<and> d_targettemp r = 64"
proof -
  have "strcaseeq ''temp-cutoff'' ''temp-cutoff''" by (simp add: strcaseeq_def)
  then show ?thesis using temp_cutoff_set [of drv0 "''temp-cutoff''" 70 dev0] by (auto simp: drv0_def dev0_def)
qed

theorem silent_processor_witness:
  "d_status (watch_rounds opts0 drv0 [(at_s 1050, at_s 1050), (at_s 1070, at_s 1070), (at_s 1700, at_s 1700)] dev0) = LIFE_DEAD"
  using silent_processor [OF drv0_quiet dev0_watched(1,2), of "[(at_s 1050, at_s 1050), (at_s 1070, at_s 1070), (at_s 1700, at_s 1700)]" opts0]
  by (simp add: idle_time_def dev0_def)


definition rig0 :: rig where
  "rig0 = \<lparr>sched_paused = True, schedstart = \<lparr>sched_enable = True, sched_tm = \<lparr>tm_hour = 22, tm_min = 0\<rparr>\<rparr>,
     schedstop = \<lparr>sched_enable = True, sched_tm = \<lparr>tm_hour = 6, tm_min = 0\<rparr>\<rparr>, rig_devs = [dev0\<lparr>d_deven := DEV_RECOVER, d_temp := 82\<rparr>]\<rparr>"

theorem schedule_ignores_heat_witness:
  "\<exists>s' d'. watchdog_round opts0 (\<lambda>_. None) (test_table (\<lambda>c. c)) (\<lambda>_. drv0) [] \<lparr>tm_hour = 22, tm_min = 0\<rparr> (at_s 1010) (at_s 1010) rig0 = Returns (Some s') \<and>
     rig_devs s' = [d'] \<and> d_deven d' = DEV_ENABLED"
proof -
  let ?d = "dev0\<lparr>d_deven := DEV_RECOVER, d_temp := 82\<rparr>"
  have s: "sched_paused rig0" "fst (should_run (schedstart rig0) (schedstop rig0) \<lparr>tm_hour = 22, tm_min = 0\<rparr>)" "rig_devs rig0 = [?d]"
    by (simp_all add: rig0_def should_run_def time_before_def)
  have d: "d_deven ?d = DEV_RECOVER" "d_disable_watchdog ?d = False" "d_already_set_defaults ?d" "d_thrs ?d \<noteq> []"
    "drv_get_stats drv0 = id" "drv_watchdog drv0 = (\<lambda>_. id)" "rat_of_int (d_targettemp ?d) \<le> d_temp ?d" "d_temp ?d \<le> rat_of_int (d_cutofftemp ?d)"
    by (simp_all add: dev0_def drv0_def)
  show ?thesis using schedule_ignores_heat [OF s d(1-4), of "\<lambda>_. drv0"] drv0_quiet(1) d(5-8) by blast
qed


end
